(* ===== verification/Http_Prelude.thy ===== *)
theory Http_Prelude
  imports Main "HOL-Library.Sublist" "HOL-Library.Word"
begin

text \<open>
  Shared vocabulary of the development.

  A C++ \<open>std::string\<close> or \<open>std::string_view\<close> is a \<open>string\<close> (a list of 8-bit characters).
  \<open>std::size_t\<close> values that come off the wire and can overflow are 64-bit words; positions and
  lengths inside a string that is already in memory are \<open>nat\<close>, because a string's size is
  far below \<open>2 ^ 63\<close> and every position the code forms is bounded by a size (the bounds are
  proved where the positions are used).

  The theory holds the string searching functions of the standard library that the code relies
  on, with the facts about them that the parser, the router and the serializer share: where
  the first occurrence of a pattern is, that it does not move when bytes arrive behind it, and how
  a search behaves on text that is known not to contain the pattern.
\<close>

type_synonym size_t = "64 word"

text \<open>Collections: executable evaluation of strings and sizes, and facts about searching.\<close>

named_theorems find_simps
named_theorems find_dests

section \<open>Characters the protocol uses\<close>

abbreviation CR :: char where "CR \<equiv> CHR 0x0D"
abbreviation LF :: char where "LF \<equiv> CHR 0x0A"
abbreviation HTAB :: char where "HTAB \<equiv> CHR 0x09"
abbreviation CRLF :: string where "CRLF \<equiv> [CR, LF]"
abbreviation CRLF2 :: string where "CRLF2 \<equiv> [CR, LF, CR, LF]"

section \<open>Searching in a string\<close>

text \<open>
  \<open>sv_find pat s\<close> is \<open>s.find(pat)\<close>: the least position where \<open>pat\<close> occurs, \<open>None\<close> for
  \<open>npos\<close>. \<open>sv_find_from pat s pos\<close> is \<open>s.find(pat, pos)\<close>. A search for one character is a
  search for the one-character pattern.
\<close>

fun sv_find :: "string \<Rightarrow> string \<Rightarrow> nat option" where
  "sv_find pat [] = (if pat = [] then Some 0 else None)"
| "sv_find pat (c # s) =
     (if prefix pat (c # s) then Some 0 else map_option Suc (sv_find pat s))"

definition sv_find_from :: "string \<Rightarrow> string \<Rightarrow> nat \<Rightarrow> nat option" where
  "sv_find_from pat s pos =
     (if length s < pos then None else map_option (\<lambda>i. pos + i) (sv_find pat (drop pos s)))"

text \<open>\<open>sv_substr s pos n\<close> is \<open>s.substr(pos, n)\<close> for \<open>pos \<le> s.size()\<close>.\<close>

definition sv_substr :: "string \<Rightarrow> nat \<Rightarrow> nat \<Rightarrow> string" where
  "sv_substr s pos n = take n (drop pos s)"

lemma sv_find_SomeD [find_dests]:
  "sv_find pat s = Some i \<Longrightarrow>
     prefix pat (drop i s) \<and> i + length pat \<le> length s \<and> (\<forall>j<i. \<not> prefix pat (drop j s))"
proof (induction pat s arbitrary: i rule: sv_find.induct)
  case (1 pat)
  then show ?case by (simp split: if_splits)
next
  case (2 pat c s)
  show ?case
  proof (cases "prefix pat (c # s)")
    case True
    then show ?thesis using 2 by (auto dest: prefix_length_le)
  next
    case False
    with "2.prems" obtain k where k: "sv_find pat s = Some k" "i = Suc k"
      by auto
    have "\<forall>j<Suc k. \<not> prefix pat (drop j (c # s))"
    proof (intro allI impI)
      fix j assume "j < Suc k"
      then show "\<not> prefix pat (drop j (c # s))"
        using False "2.IH" [OF False k(1)] by (cases j) auto
    qed
    then show ?thesis using "2.IH" [OF False k(1)] k(2) by simp
  qed
qed

lemma sv_find_NoneD [find_dests]:
  "sv_find pat s = None \<Longrightarrow> \<not> prefix pat (drop j s)"
proof (induction pat s arbitrary: j rule: sv_find.induct)
  case (1 pat)
  then show ?case by (simp split: if_splits)
next
  case (2 pat c s)
  then show ?case by (cases j) (auto split: if_splits)
qed

lemma sv_find_Some_iff:
  "sv_find pat s = Some i \<longleftrightarrow>
     prefix pat (drop i s) \<and> i \<le> length s \<and> (\<forall>j<i. \<not> prefix pat (drop j s))"
proof
  assume "sv_find pat s = Some i"
  then show "prefix pat (drop i s) \<and> i \<le> length s \<and> (\<forall>j<i. \<not> prefix pat (drop j s))"
    by (auto dest: sv_find_SomeD)
next
  assume R: "prefix pat (drop i s) \<and> i \<le> length s \<and> (\<forall>j<i. \<not> prefix pat (drop j s))"
  show "sv_find pat s = Some i"
  proof (cases "sv_find pat s")
    case None
    with R show ?thesis by (auto dest: sv_find_NoneD)
  next
    case (Some k)
    then have "prefix pat (drop k s)" "\<forall>j<k. \<not> prefix pat (drop j s)"
      by (auto dest: sv_find_SomeD)
    with R have "\<not> k < i" "\<not> i < k" by auto
    then show ?thesis using Some by simp
  qed
qed

lemma sv_find_bound: "sv_find pat s = Some i \<Longrightarrow> i + length pat \<le> length s"
  by (auto dest: sv_find_SomeD)

lemma sv_find_take_drop:
  assumes "sv_find pat s = Some i"
  shows "take (length pat) (drop i s) = pat"
  using assms by (auto dest!: sv_find_SomeD simp: prefix_def)

lemma sv_find_split:
  assumes "sv_find pat s = Some i"
  shows "s = take i s @ pat @ drop (i + length pat) s"
  using sv_find_take_drop [OF assms]
  by (metis append_take_drop_id drop_drop add.commute)

text \<open>Bytes that arrive behind an occurrence do not move it.\<close>

lemma sv_find_append [find_simps]:
  "sv_find pat s = Some i \<Longrightarrow> sv_find pat (s @ t) = Some i"
proof (induction pat s arbitrary: i rule: sv_find.induct)
  case (1 pat)
  then show ?case by (cases t) (auto split: if_splits)
next
  case (2 pat c s)
  show ?case
  proof (cases "prefix pat (c # s)")
    case True
    then have "prefix pat (c # s @ t)"
      by (metis append_Cons prefix_prefix)
    then show ?thesis using True "2.prems" by simp
  next
    case False
    with "2.prems" obtain k where k: "sv_find pat s = Some k" "i = Suc k"
      by auto
    have "i + length pat \<le> length (c # s)"
      using "2.prems" by (rule sv_find_bound)
    then have "length pat \<le> length (c # s)" by simp
    then have "\<not> prefix pat ((c # s) @ t)"
      using False by (metis prefix_length_prefix prefixI)
    then show ?thesis using k "2.IH" [OF False k(1)] by simp
  qed
qed

text \<open>A search for one character.\<close>

lemma sv_find_char_None [find_simps]: "sv_find [c] s = None \<longleftrightarrow> c \<notin> set s"
  by (induction s) auto

lemma sv_find_char_append [find_simps]:
  "c \<notin> set xs \<Longrightarrow> sv_find [c] (xs @ c # ys) = Some (length xs)"
  by (induction xs) auto

lemma sv_find_char_take:
  "sv_find [c] s = Some i \<Longrightarrow> c \<notin> set (take i s) \<and> i < length s \<and> s ! i = c"
proof (induction s arbitrary: i)
  case Nil
  then show ?case by simp
next
  case (Cons a s)
  then show ?case by (auto split: if_splits)
qed

section \<open>Lines\<close>

text \<open>
  Text made of lines that end in CRLF. A line holds no CR; the first CRLF is then at the end of
  the first line, and the first empty line ends the block.
\<close>

definition crlf_lines :: "string list \<Rightarrow> string" where
  "crlf_lines ls = concat (map (\<lambda>l. l @ CRLF) ls)"

lemma crlf_lines_Nil [simp]: "crlf_lines [] = []"
  by (simp add: crlf_lines_def)

lemma crlf_lines_Cons: "crlf_lines (l # ls) = l @ CRLF @ crlf_lines ls"
  by (simp add: crlf_lines_def)

lemma crlf_lines_append: "crlf_lines (ls @ ms) = crlf_lines ls @ crlf_lines ms"
  by (simp add: crlf_lines_def)

lemma sv_find_CRLF [find_simps]:
  "CR \<notin> set l \<Longrightarrow> sv_find CRLF (l @ CR # LF # x) = Some (length l)"
  by (induction l) auto

lemma sv_find_CRLF2_step:
  "CR \<notin> set l \<Longrightarrow> sv_find CRLF2 (l @ CR # LF # x) =
     (if prefix CRLF x then Some (length l)
      else map_option (\<lambda>i. length l + 2 + i) (sv_find CRLF2 x))"
  by (induction l) (auto simp: option.map_comp comp_def intro!: option.map_cong)

lemma prefix_CRLF_line: "l \<noteq> [] \<Longrightarrow> CR \<notin> set l \<Longrightarrow> \<not> prefix CRLF (l @ x)"
  by (cases l) auto

lemma sv_find_CRLF2_lines [find_simps]:
  assumes "l \<noteq> []" and "\<forall>k \<in> set (l # ls). CR \<notin> set k" and "\<forall>k \<in> set ls. k \<noteq> []"
  shows "sv_find CRLF2 (crlf_lines (l # ls) @ CRLF @ x) = Some (length (crlf_lines (l # ls)) - 2)"
  using assms
proof (induction ls arbitrary: l)
  case Nil
  then show ?case by (simp add: crlf_lines_Cons sv_find_CRLF2_step)
next
  case (Cons k ls)
  then have "\<not> prefix CRLF (crlf_lines (k # ls) @ CRLF @ x)"
    using prefix_CRLF_line [of k] by (simp add: crlf_lines_Cons)
  moreover have "sv_find CRLF2 (crlf_lines (k # ls) @ CRLF @ x) =
      Some (length (crlf_lines (k # ls)) - 2)"
    using Cons by simp
  moreover have "2 \<le> length (crlf_lines (k # ls))"
    by (simp add: crlf_lines_Cons)
  ultimately show ?case
    using Cons.prems by (subst crlf_lines_Cons) (simp add: sv_find_CRLF2_step crlf_lines_Cons)
qed

section \<open>Sizes as 64-bit words\<close>

lemma unat_of_nat_size: "m < 2 ^ 64 \<Longrightarrow> unat (of_nat m :: size_t) = m"
  by (simp add: unat_of_nat take_bit_eq_mod)

lemma unat_size_less: "unat (w :: size_t) < 2 ^ 64"
  using unsigned_less [of w] by simp

lemma unat_size_max: "unat (- 1 :: size_t) = 2 ^ 64 - 1"
  by (simp add: unsigned_minus_1_eq_mask mask_eq_exp_minus_1)

lemma of_nat_eq_size_iff: "m < 2 ^ 64 \<Longrightarrow> of_nat m = (n :: size_t) \<longleftrightarrow> unat n = m"
  by (auto simp: unat_of_nat_size)

section \<open>Exceptions\<close>

text \<open>
  The exceptions the code throws or lets through, with their \<open>what()\<close> text. A fallible operation
  returns \<open>Inl\<close> of an exception or \<open>Inr\<close> of its value.
\<close>

datatype std_exception = runtime_error string | out_of_range string | length_error string
  | other_exception string

section \<open>Effects\<close>

text \<open>
  Code that changes a state and may throw is a function from the state to the new state and either
  the exception or the result. What was done before a throw stays done.
\<close>

type_synonym ('s, 'a) effect = "'s \<Rightarrow> 's \<times> (std_exception + 'a)"

definition eff_return :: "'a \<Rightarrow> ('s, 'a) effect" where
  "eff_return x s = (s, Inr x)"

definition eff_throw :: "std_exception \<Rightarrow> ('s, 'a) effect" where
  "eff_throw e s = (s, Inl e)"

definition eff_bind :: "('s, 'a) effect \<Rightarrow> ('a \<Rightarrow> ('s, 'b) effect) \<Rightarrow> ('s, 'b) effect" where
  "eff_bind m f s = (case m s of (s', Inl e) \<Rightarrow> (s', Inl e) | (s', Inr x) \<Rightarrow> f x s')"

definition eff_catch :: "('s, 'a) effect \<Rightarrow> (std_exception \<Rightarrow> ('s, 'a) effect) \<Rightarrow> ('s, 'a) effect" where
  "eff_catch m h s = (case m s of (s', Inl e) \<Rightarrow> h e s' | (s', Inr x) \<Rightarrow> (s', Inr x))"

definition eff_get :: "('s \<Rightarrow> 'a) \<Rightarrow> ('s, 'a) effect" where
  "eff_get f s = (s, Inr (f s))"

definition eff_modify :: "('s \<Rightarrow> 's) \<Rightarrow> ('s, unit) effect" where
  "eff_modify f s = (f s, Inr ())"

lemmas eff_defs = eff_return_def eff_throw_def eff_bind_def eff_catch_def eff_get_def eff_modify_def

lemma eff_return_bind [simp]: "eff_bind (eff_return x) f = f x"
  by (simp add: eff_defs fun_eq_iff)

lemma eff_throw_bind [simp]: "eff_bind (eff_throw e) f = eff_throw e"
  by (simp add: eff_defs fun_eq_iff)

lemma eff_bind_assoc: "eff_bind (eff_bind m f) g = eff_bind m (\<lambda>x. eff_bind (f x) g)"
  by (auto simp: eff_defs fun_eq_iff split: prod.splits sum.splits)

lemma eff_bind_Inr: "m s = (s', Inr x) \<Longrightarrow> eff_bind m f s = f x s'"
  and eff_bind_Inl: "m s = (s', Inl e) \<Longrightarrow> eff_bind m f s = (s', Inl e)"
  by (simp_all add: eff_bind_def)

text \<open>
  A Hoare triple: from a state with \<open>P\<close> a return of \<open>x\<close> ends in a state with \<open>R x\<close> and a throw in one
  with \<open>E\<close>. The rules follow the structure of a computation.
\<close>

definition triple ::
  "('s \<Rightarrow> bool) \<Rightarrow> ('s, 'a) effect \<Rightarrow> ('a \<Rightarrow> 's \<Rightarrow> bool) \<Rightarrow> ('s \<Rightarrow> bool) \<Rightarrow> bool" where
  "triple P m R E \<longleftrightarrow>
     (\<forall>s. P s \<longrightarrow> (case m s of (s', Inl e) \<Rightarrow> E s' | (s', Inr x) \<Rightarrow> R x s'))"

named_theorems triple_rules

lemma tripleI:
  assumes "\<And>s s' x. P s \<Longrightarrow> m s = (s', Inr x) \<Longrightarrow> R x s'"
    and "\<And>s s' e. P s \<Longrightarrow> m s = (s', Inl e) \<Longrightarrow> E s'"
  shows "triple P m R E"
  using assms by (auto simp: triple_def split: prod.splits sum.splits)

lemma tripleD:
  assumes "triple P m R E" and "P s"
  shows "m s = (s', Inr x) \<Longrightarrow> R x s'" and "m s = (s', Inl e) \<Longrightarrow> E s'"
  using assms by (auto simp: triple_def dest: spec [of _ s])

lemma triple_keeps: "(\<And>s. P s \<Longrightarrow> P (fst (m s))) \<Longrightarrow> triple P m (\<lambda>_. P) P"
  by (auto simp: triple_def split: prod.splits sum.splits) (metis fst_conv)+

lemma triple_conseq:
  "triple P m R E \<Longrightarrow> (\<And>s. P' s \<Longrightarrow> P s) \<Longrightarrow> (\<And>x s. R x s \<Longrightarrow> R' x s) \<Longrightarrow> (\<And>s. E s \<Longrightarrow> E' s) \<Longrightarrow>
   triple P' m R' E'"
  by (fastforce simp: triple_def split: prod.splits sum.splits)

lemma triple_return [triple_rules]: "(\<And>s. P s \<Longrightarrow> R x s) \<Longrightarrow> triple P (eff_return x) R E"
  by (simp add: triple_def eff_defs)

lemma triple_throw [triple_rules]: "(\<And>s. P s \<Longrightarrow> E s) \<Longrightarrow> triple P (eff_throw e) R E"
  by (simp add: triple_def eff_defs)

lemma triple_get [triple_rules]: "(\<And>s. P s \<Longrightarrow> R (f s) s) \<Longrightarrow> triple P (eff_get f) R E"
  by (simp add: triple_def eff_defs)

lemma triple_modify: "(\<And>s. P s \<Longrightarrow> R () (g s)) \<Longrightarrow> triple P (eff_modify g) R E"
  by (simp add: triple_def eff_defs)

lemma triple_bind:
  "triple P m Q E \<Longrightarrow> (\<And>x. triple (Q x) (f x) R E) \<Longrightarrow> triple P (eff_bind m f) R E"
  by (fastforce simp: triple_def eff_bind_def split: prod.splits sum.splits)

lemma triple_catch:
  "triple P m R Q \<Longrightarrow> (\<And>e. triple Q (h e) R E) \<Longrightarrow> triple P (eff_catch m h) R E"
  by (fastforce simp: triple_def eff_catch_def split: prod.splits sum.splits)

lemma triple_if [triple_rules]:
  "triple P a R E \<Longrightarrow> triple P b R E \<Longrightarrow> triple P (if c then a else b) R E"
  by simp

section \<open>Transition systems\<close>

text \<open>
  A component whose operations interleave is an initial condition and a step relation; a property of
  all its runs is an invariant. The locale is the contract an invariant has to meet, and its lemma the
  use clients make of it.
\<close>

inductive reachable :: "('s \<Rightarrow> bool) \<Rightarrow> ('s \<Rightarrow> 's \<Rightarrow> bool) \<Rightarrow> 's \<Rightarrow> bool"
  for init :: "'s \<Rightarrow> bool" and step :: "'s \<Rightarrow> 's \<Rightarrow> bool" where
  start: "init s \<Longrightarrow> reachable init step s"
| next_step: "reachable init step s \<Longrightarrow> step s t \<Longrightarrow> reachable init step t"

locale invariant_system =
  fixes init :: "'s \<Rightarrow> bool" and step :: "'s \<Rightarrow> 's \<Rightarrow> bool" and inv :: "'s \<Rightarrow> bool"
  assumes inv_init: "init s \<Longrightarrow> inv s"
    and inv_step: "inv s \<Longrightarrow> step s t \<Longrightarrow> inv t"
begin

lemma reachable_inv: "reachable init step s \<Longrightarrow> inv s"
  by (induction rule: reachable.induct) (auto intro: inv_init inv_step)

lemma reachable_step_inv: "reachable init step s \<Longrightarrow> step s t \<Longrightarrow> inv t"
  using reachable_inv inv_step by blast

end

text \<open>
  A system refines a specification when \<open>view\<close> maps its initial states to initial states and each step, in
  states of the invariant, to a step of the specification or to none. What is reachable is then seen as
  something the specification reaches, and an invariant of the specification holds of every view.
\<close>

locale refinement_system = invariant_system +
  fixes view :: "'a \<Rightarrow> 'b" and spec_init :: "'b \<Rightarrow> bool" and spec_step :: "'b \<Rightarrow> 'b \<Rightarrow> bool"
  assumes view_init: "init s \<Longrightarrow> spec_init (view s)"
    and view_step: "inv s \<Longrightarrow> step s t \<Longrightarrow> view t = view s \<or> spec_step (view s) (view t)"
begin

lemma reachable_view: "reachable init step s \<Longrightarrow> reachable spec_init spec_step (view s)"
proof (induction rule: reachable.induct)
  case (start s)
  then show ?case by (intro reachable.start view_init)
next
  case (next_step s t)
  with view_step [OF reachable_inv, of s t] show ?case by (auto intro: reachable.next_step)
qed

lemma view_inv:
  assumes "invariant_system spec_init spec_step ainv" "reachable init step s"
  shows "ainv (view s)"
  using invariant_system.reachable_inv [OF assms(1) reachable_view [OF assms(2)]] .

end

text \<open>
  A system in which a measure decreases with every step, in states of the invariant, comes to rest: from
  every such state a run leads to a state without a successor.
\<close>

locale terminating_system =
  fixes inv :: "'s \<Rightarrow> bool" and step :: "'s \<Rightarrow> 's \<Rightarrow> bool" and work :: "'s \<Rightarrow> nat"
  assumes keeps: "inv s \<Longrightarrow> step s t \<Longrightarrow> inv t"
    and decreases: "inv s \<Longrightarrow> step s t \<Longrightarrow> work t < work s"
begin

lemma run_inv: "rtranclp step s t \<Longrightarrow> inv s \<Longrightarrow> inv t"
  by (induction rule: rtranclp_induct) (auto intro: keeps)

lemma run_bounded: "(step ^^ n) s t \<Longrightarrow> inv s \<Longrightarrow> n + work t \<le> work s"
proof (induction n arbitrary: t)
  case (Suc n)
  then obtain u where u: "(step ^^ n) s u" "step u t" by auto
  then have "inv u" using run_inv [of s u] Suc.prems(2) by (metis rtranclp_power)
  with u Suc.IH [OF u(1) Suc.prems(2)] decreases [of u t] show ?case by simp
qed simp

lemma comes_to_rest: "inv s \<Longrightarrow> \<exists>t. rtranclp step s t \<and> (\<forall>u. \<not> step t u)"
proof (induction "work s" arbitrary: s rule: less_induct)
  case less
  show ?case
  proof (cases "\<exists>u. step s u")
    case True
    then obtain u where u: "step s u" by blast
    from less.hyps [OF decreases [OF less.prems u] keeps [OF less.prems u]] u show ?thesis
      by (meson converse_rtranclp_into_rtranclp)
  qed blast
qed

end

section \<open>Counting list elements\<close>

definition cnt :: "('a \<Rightarrow> bool) \<Rightarrow> 'a list \<Rightarrow> nat" where
  "cnt P xs = length (filter P xs)"

lemma cnt_Nil [simp]: "cnt P [] = 0"
  by (simp add: cnt_def)

lemma cnt_Cons [simp]: "cnt P (x # xs) = (if P x then Suc (cnt P xs) else cnt P xs)"
  by (simp add: cnt_def)

lemma cnt_update:
  "i < length xs \<Longrightarrow> cnt P (xs[i := y]) + of_bool (P (xs ! i)) = cnt P xs + of_bool (P y)"
proof (induction xs arbitrary: i)
  case (Cons x xs)
  then show ?case by (cases i) auto
qed simp

lemma cnt_pos: "i < length xs \<Longrightarrow> P (xs ! i) \<Longrightarrow> 0 < cnt P xs"
  using nth_mem [of i xs] by (auto simp: cnt_def filter_empty_conv)

lemma cnt_zero_iff: "cnt P xs = 0 \<longleftrightarrow> (\<forall>x \<in> set xs. \<not> P x)"
  by (simp add: cnt_def filter_empty_conv)

lemma cnt_zeroE: "cnt P xs = 0 \<Longrightarrow> i < length xs \<Longrightarrow> \<not> P (xs ! i)"
  by (simp add: cnt_zero_iff)

lemma cnt_mono: "(\<And>x. P x \<Longrightarrow> Q x) \<Longrightarrow> cnt P xs \<le> cnt Q xs"
  by (induction xs) auto

end
