(* ===== verification/Http_Utils.thy ===== *)
theory Http_Utils
  imports Http_Prelude
begin

text \<open>
  The free functions of \<^verbatim>\<open>src/src/http/HttpUtils.cpp\<close> (namespace \<open>http::utils\<close>) and the method
  enumeration of \<^verbatim>\<open>HttpRequest.hpp\<close>: method names, optional white space, case-insensitive
  comparison, header validation, the two number parsers and percent-decoding.

  The number parsers work on 64-bit words as the C++ does; the lemmas say exactly when they
  succeed and that the result is the number written, so their overflow checks are neither too
  weak nor too strong.
\<close>

unbundle bit_operations_syntax

named_theorems char_class

section \<open>Methods\<close>

datatype HttpMethod = GET | POST | PUT | PATCH | DELETE | HEAD | OPTIONS | CONNECT | TRACE | UNKNOWN

definition parseMethod :: "string \<Rightarrow> HttpMethod" where
  "parseMethod m =
     (if m = ''GET'' then GET else if m = ''POST'' then POST else if m = ''PUT'' then PUT
      else if m = ''PATCH'' then PATCH else if m = ''DELETE'' then DELETE
      else if m = ''HEAD'' then HEAD else if m = ''OPTIONS'' then OPTIONS
      else if m = ''CONNECT'' then CONNECT else if m = ''TRACE'' then TRACE else UNKNOWN)"

section \<open>The character classes of the C locale\<close>

definition tolower :: "char \<Rightarrow> char" where
  "tolower c = (let n = (of_char c :: nat) in if 65 \<le> n \<and> n \<le> 90 then char_of (n + 32) else c)"

definition isdigit :: "char \<Rightarrow> bool" where
  "isdigit c = (let n = (of_char c :: nat) in 48 \<le> n \<and> n \<le> 57)"

definition isalnum :: "char \<Rightarrow> bool" where
  "isalnum c = (let n = (of_char c :: nat) in
     isdigit c \<or> (65 \<le> n \<and> n \<le> 90) \<or> (97 \<le> n \<and> n \<le> 122))"

section \<open>Optional white space\<close>

definition is_ows :: "char \<Rightarrow> bool" where
  "is_ows c \<longleftrightarrow> c = CHR '' '' \<or> c = HTAB"

text \<open>Two loops: the first removes from the front, the second from the back.\<close>

definition trimOws :: "string \<Rightarrow> string" where
  "trimOws v = rev (dropWhile is_ows (rev (dropWhile is_ows v)))"

section \<open>Case-insensitive comparison\<close>

fun eic_loop :: "string \<Rightarrow> string \<Rightarrow> bool" where
  "eic_loop (l # ls) (r # rs) = (if tolower l \<noteq> tolower r then False else eic_loop ls rs)"
| "eic_loop _ _ = True"

definition equalsIgnoreCase :: "string \<Rightarrow> string \<Rightarrow> bool" where
  "equalsIgnoreCase lhs rhs = (if length lhs \<noteq> length rhs then False else eic_loop lhs rhs)"

section \<open>Header validation\<close>

definition header_name_char :: "char \<Rightarrow> bool" where
  "header_name_char c \<longleftrightarrow> isalnum c \<or> c \<in> set ''!#$%&'' \<or> c = CHR 0x27 \<or> c \<in> set ''*+-.^_'' \<or>
     c = CHR 0x60 \<or> c \<in> set ''|~''"

definition isValidHeaderName :: "string \<Rightarrow> bool" where
  "isValidHeaderName name = (if name = [] then False else list_all header_name_char name)"

definition header_value_char :: "char \<Rightarrow> bool" where
  "header_value_char c =
     (if c = CR \<or> c = LF then False
      else if (of_char c :: nat) < 0x20 \<and> c \<noteq> HTAB then False
      else c \<noteq> CHR 0x7F)"

definition isValidHeaderValue :: "string \<Rightarrow> bool" where
  "isValidHeaderValue v = list_all header_value_char v"

section \<open>Decimal and hexadecimal numbers\<close>

definition digit_val :: "char \<Rightarrow> nat" where
  "digit_val c = of_char c - 48"

definition dec_val :: "string \<Rightarrow> nat" where
  "dec_val s = foldl (\<lambda>a c. a * 10 + digit_val c) 0 s"

text \<open>
  \<open>std::from_chars\<close> on a run of decimal digits: the value when \<open>size_t\<close> can represent it,
  otherwise the error \<open>result_out_of_range\<close> (\<open>None\<close>), which leaves the output untouched.
\<close>

definition from_chars_size_t :: "string \<Rightarrow> size_t option" where
  "from_chars_size_t s = (if dec_val s < 2 ^ 64 then Some (of_nat (dec_val s)) else None)"

text \<open>The reference parameter \<open>result\<close> is passed in and returned beside the verdict.\<close>

definition parseContentLength :: "string \<Rightarrow> size_t \<Rightarrow> bool \<times> size_t" where
  "parseContentLength v result =
     (if v = [] then (False, result)
      else if \<not> list_all isdigit v then (False, result)
      else (case from_chars_size_t v of None \<Rightarrow> (False, result) | Some n \<Rightarrow> (True, n)))"

definition hex_digit :: "char \<Rightarrow> size_t option" where
  "hex_digit c = (let n = (of_char c :: nat) in
     if 48 \<le> n \<and> n \<le> 57 then Some (of_nat (n - 48))
     else if 97 \<le> n \<and> n \<le> 102 then Some (of_nat (n - 97 + 10))
     else if 65 \<le> n \<and> n \<le> 70 then Some (of_nat (n - 65 + 10))
     else None)"

fun parseChunkSize_loop :: "string \<Rightarrow> size_t \<Rightarrow> bool \<times> size_t" where
  "parseChunkSize_loop [] result = (True, result)"
| "parseChunkSize_loop (c # cs) result =
     (case hex_digit c of
        None \<Rightarrow> (False, result)
      | Some digit \<Rightarrow>
          if (- 1 - digit) div 16 < result then (False, result)
          else parseChunkSize_loop cs (result * 16 + digit))"

definition parseChunkSize :: "string \<Rightarrow> size_t \<Rightarrow> bool \<times> size_t" where
  "parseChunkSize v result = (if v = [] then (False, result) else parseChunkSize_loop v 0)"

section \<open>Percent-decoding\<close>

definition fromHex :: "char \<Rightarrow> int" where
  "fromHex c = (let n = (of_char c :: int) in
     if 48 \<le> n \<and> n \<le> 57 then n - 48
     else if 97 \<le> n \<and> n \<le> 102 then n - 97 + 10
     else if 65 \<le> n \<and> n \<le> 70 then n - 65 + 10
     else -1)"

fun urlDecode :: "string \<Rightarrow> string" where
  "urlDecode [] = []"
| "urlDecode (c # cs) =
     (if c = CHR ''+'' then CHR '' '' # urlDecode cs
      else if c = CHR ''%'' then
        (case cs of
           h1 # h2 # rest \<Rightarrow>
             (let d1 = fromHex h1; d2 = fromHex h2 in
              if d1 \<noteq> -1 \<and> d2 \<noteq> -1 then char_of (push_bit 4 d1 OR d2) # urlDecode rest
              else CHR ''%'' # urlDecode cs)
         | _ \<Rightarrow> c # urlDecode cs)
      else c # urlDecode cs)"


section \<open>Case-insensitive comparison is an equivalence\<close>

lemma eic_loop_iff:
  "length a = length b \<Longrightarrow> eic_loop a b \<longleftrightarrow> map tolower a = map tolower b"
  by (induction a b rule: eic_loop.induct) auto

lemma equalsIgnoreCase_iff: "equalsIgnoreCase a b \<longleftrightarrow> map tolower a = map tolower b"
  by (auto simp: equalsIgnoreCase_def eic_loop_iff dest: map_eq_imp_length_eq)

lemma equalsIgnoreCase_refl [simp]: "equalsIgnoreCase a a"
  by (simp add: equalsIgnoreCase_iff)

section \<open>Optional white space\<close>

lemma dropWhile_rev_not_last: "xs \<noteq> [] \<Longrightarrow> \<not> P (last xs) \<Longrightarrow> dropWhile P (rev xs) = rev xs"
  by (cases "rev xs") (auto simp: last_rev hd_rev [symmetric] dest: rev_eq_Cons_iff [THEN iffD1])

lemma dropWhile_not_hd: "xs \<noteq> [] \<Longrightarrow> \<not> P (hd xs) \<Longrightarrow> dropWhile P xs = xs"
  by (cases xs) auto

definition ows_trimmed :: "string \<Rightarrow> bool" where
  "ows_trimmed v \<longleftrightarrow> v = [] \<or> (\<not> is_ows (hd v) \<and> \<not> is_ows (last v))"

lemma trimOws_id: "ows_trimmed v \<Longrightarrow> trimOws v = v"
  by (cases "v = []")
    (auto simp: ows_trimmed_def trimOws_def dropWhile_not_hd dropWhile_rev_not_last)

lemma trimOws_surround:
  assumes "list_all is_ows a" "list_all is_ows b" "ows_trimmed v"
  shows "trimOws (a @ v @ b) = v"
proof (cases "v = []")
  case True
  have *: "dropWhile is_ows (a @ [] @ b) = []"
    using assms unfolding dropWhile_eq_Nil_conv by (auto simp: list_all_iff)
  show ?thesis unfolding trimOws_def True * by simp
next
  case False
  then have "dropWhile is_ows (a @ v @ b) = v @ b"
    using assms by (simp add: list_all_iff dropWhile_append2 ows_trimmed_def dropWhile_not_hd)
  moreover have "dropWhile is_ows (rev b @ rev v) = rev v"
    using assms False
    by (subst dropWhile_append2) (auto simp: list_all_iff ows_trimmed_def dropWhile_rev_not_last)
  ultimately show ?thesis by (simp add: trimOws_def)
qed

lemma trimOws_trimmed: "ows_trimmed (trimOws v)"
proof -
  define w where "w = dropWhile is_ows v"
  have hw: "w \<noteq> [] \<Longrightarrow> \<not> is_ows (hd w)"
    unfolding w_def by (rule hd_dropWhile)
  define x where "x = rev (dropWhile is_ows (rev w))"
  have "prefix x w"
    unfolding x_def
    by (metis prefixI rev_append rev_rev_ident takeWhile_dropWhile_id)
  have lx: "x \<noteq> [] \<Longrightarrow> \<not> is_ows (last x)"
    unfolding x_def using hd_dropWhile [of is_ows "rev w"] by (simp add: last_rev)
  have "x \<noteq> [] \<Longrightarrow> hd x = hd w"
    using \<open>prefix x w\<close> by (auto simp: prefix_def)
  then have "x \<noteq> [] \<Longrightarrow> \<not> is_ows (hd x)"
    using hw \<open>prefix x w\<close> by (cases "w = []") auto
  then have "ows_trimmed x" using lx by (auto simp: ows_trimmed_def)
  then show ?thesis unfolding x_def w_def trimOws_def .
qed

lemma trimOws_idem [simp]: "trimOws (trimOws v) = trimOws v"
  by (rule trimOws_id [OF trimOws_trimmed])

section \<open>Header validation\<close>

lemma header_name_char_not [simp, char_class]:
  "\<not> header_name_char (CHR '':'')" "\<not> header_name_char CR" "\<not> header_name_char LF"
  "\<not> header_name_char (CHR '' '')"
  by (simp_all add: header_name_char_def isalnum_def isdigit_def)

lemma header_value_char_not [simp, char_class]:
  "\<not> header_value_char CR" "\<not> header_value_char LF"
  by (simp_all add: header_value_char_def)

lemma valid_name_clean:
  assumes "isValidHeaderName n"
  shows "n \<noteq> []" "CHR '':'' \<notin> set n" "CR \<notin> set n" "LF \<notin> set n"
proof -
  have ne: "n \<noteq> []" and ok: "\<forall>c \<in> set n. header_name_char c"
    using assms by (auto simp: isValidHeaderName_def list_all_iff split: if_splits)
  have "c \<notin> set n" if "\<not> header_name_char c" for c
    using ok that by auto
  then show "n \<noteq> []" "CHR '':'' \<notin> set n" "CR \<notin> set n" "LF \<notin> set n"
    using ne by simp_all
qed

lemma valid_value_clean:
  assumes "isValidHeaderValue v"
  shows "CR \<notin> set v" "LF \<notin> set v"
proof -
  have "c \<notin> set v" if "\<not> header_value_char c" for c
    using assms that by (auto simp: isValidHeaderValue_def list_all_iff)
  then show "CR \<notin> set v" "LF \<notin> set v" by simp_all
qed

section \<open>The number parsers accept exactly the representable numbers\<close>

lemma parseContentLength_True_iff:
  "parseContentLength v r = (True, n) \<longleftrightarrow>
     v \<noteq> [] \<and> list_all isdigit v \<and> dec_val v < 2 ^ 64 \<and> unat n = dec_val v"
  by (auto simp: parseContentLength_def from_chars_size_t_def of_nat_eq_size_iff)

lemma parseContentLength_False:
  "parseContentLength v r = (False, n) \<Longrightarrow> n = r"
  by (auto simp: parseContentLength_def split: if_splits option.splits)

definition hex_val_from :: "nat \<Rightarrow> string \<Rightarrow> nat" where
  "hex_val_from a s = foldl (\<lambda>a c. a * 16 + unat (the (hex_digit c))) a s"

definition is_hex :: "char \<Rightarrow> bool" where
  "is_hex c \<longleftrightarrow> hex_digit c \<noteq> None"

lemma hex_digit_bound: "hex_digit c = Some d \<Longrightarrow> unat d < 16"
proof -
  assume h: "hex_digit c = Some d"
  obtain n :: nat where n: "n = of_char c" by simp
  have "n \<le> 57 \<and> d = of_nat (n - 48) \<or> n \<le> 102 \<and> d = of_nat (n - 97 + 10) \<or>
      n \<le> 70 \<and> d = of_nat (n - 65 + 10)"
    using h by (auto simp: hex_digit_def n Let_def simp del: of_nat_diff of_nat_add split: if_splits)
  then show ?thesis
    by (elim disjE conjE) (simp_all add: unat_of_nat_size del: of_nat_diff of_nat_add)
qed

lemma hex_val_from_mono: "a \<le> hex_val_from a s"
proof (induction s arbitrary: a)
  case Nil
  then show ?case by (simp add: hex_val_from_def)
next
  case (Cons c s)
  have "a \<le> a * 16 + unat (the (hex_digit c))" by simp
  also have "\<dots> \<le> hex_val_from (a * 16 + unat (the (hex_digit c))) s" by (rule Cons.IH)
  finally show ?case by (simp add: hex_val_from_def)
qed

text \<open>The division-based guard is exact: it fires iff the next step would wrap.\<close>

lemma chunk_guard_exact:
  fixes r d :: size_t
  assumes "unat d < 16"
  shows "(- 1 - d) div 16 < r \<longleftrightarrow> 2 ^ 64 \<le> unat r * 16 + unat d"
proof -
  have "unat (- 1 - d) = 2 ^ 64 - 1 - unat d"
    using assms by (subst unat_sub) (auto simp: unat_size_max word_le_nat_alt)
  then have "unat ((- 1 - d) div 16) = (2 ^ 64 - 1 - unat d) div 16"
    by (simp add: unat_div)
  then have "(- 1 - d) div 16 < r \<longleftrightarrow> (2 ^ 64 - 1 - unat d) div 16 < unat r"
    by (simp add: word_less_nat_alt)
  also have "\<dots> \<longleftrightarrow> 2 ^ 64 \<le> unat r * 16 + unat d"
    using assms by (auto simp: less_eq_div_iff_mult_less_eq div_less_iff_less_mult)
  finally show ?thesis .
qed

lemma chunk_step_unat:
  fixes r d :: size_t
  assumes "unat r * 16 + unat d < 2 ^ 64"
  shows "unat (r * 16 + d) = unat r * 16 + unat d"
  using assms by (simp add: unat_word_ariths)

lemma parseChunkSize_loop_iff:
  "parseChunkSize_loop s r = (True, n) \<longleftrightarrow>
     list_all is_hex s \<and> hex_val_from (unat r) s < 2 ^ 64 \<and> unat n = hex_val_from (unat r) s"
proof (induction s arbitrary: r)
  case Nil
  then show ?case
    using unat_size_less [of r] by (auto simp: hex_val_from_def word_unat_eq_iff)
next
  case (Cons c s)
  show ?case
  proof (cases "hex_digit c")
    case None
    then show ?thesis by (simp add: is_hex_def)
  next
    case (Some d)
    then have d: "unat d < 16" by (rule hex_digit_bound)
    have step: "hex_val_from (unat r) (c # s) = hex_val_from (unat r * 16 + unat d) s"
      using Some by (simp add: hex_val_from_def)
    show ?thesis
    proof (cases "2 ^ 64 \<le> unat r * 16 + unat d")
      case True
      then have "(- 1 - d) div 16 < r" using chunk_guard_exact [OF d] by simp
      moreover have "\<not> hex_val_from (unat r) (c # s) < 2 ^ 64"
        using True hex_val_from_mono [of "unat r * 16 + unat d" s] step by simp
      ultimately show ?thesis using Some by simp
    next
      case False
      then have "\<not> (- 1 - d) div 16 < r" using chunk_guard_exact [OF d] by simp
      moreover have "unat (r * 16 + d) = unat r * 16 + unat d"
        using False by (intro chunk_step_unat) simp
      ultimately show ?thesis using Some Cons.IH step by (simp add: is_hex_def)
    qed
  qed
qed

lemma parseChunkSize_True_iff:
  "parseChunkSize v r = (True, n) \<longleftrightarrow>
     v \<noteq> [] \<and> list_all is_hex v \<and> hex_val_from 0 v < 2 ^ 64 \<and> unat n = hex_val_from 0 v"
  by (simp add: parseChunkSize_def parseChunkSize_loop_iff)

section \<open>Percent-decoding\<close>

lemma urlDecode_plus: "urlDecode (CHR ''+'' # cs) = CHR '' '' # urlDecode cs"
  by simp

lemma urlDecode_hex:
  "fromHex h1 \<noteq> -1 \<Longrightarrow> fromHex h2 \<noteq> -1 \<Longrightarrow>
   urlDecode (CHR ''%'' # h1 # h2 # rest) =
     char_of (push_bit 4 (fromHex h1) OR fromHex h2) # urlDecode rest"
  by (simp add: Let_def)

lemma urlDecode_other:
  "c \<noteq> CHR ''+'' \<Longrightarrow> c \<noteq> CHR ''%'' \<Longrightarrow> urlDecode (c # cs) = c # urlDecode cs"
  by simp

lemma urlDecode_Cons_cases:
  obtains x where "urlDecode (c # cs) = x # urlDecode cs"
  | x h1 h2 rest where "cs = h1 # h2 # rest" "urlDecode (c # cs) = x # urlDecode rest"
proof -
  have "(\<exists>x. urlDecode (c # cs) = x # urlDecode cs) \<or>
      (\<exists>x h1 h2 rest. cs = h1 # h2 # rest \<and> urlDecode (c # cs) = x # urlDecode rest)"
    using urlDecode.simps(2) [of c cs]
    by (auto simp del: urlDecode.simps simp: Let_def split: list.splits if_splits)
  then show thesis using that by blast
qed

lemmas [simp del] = urlDecode.simps(2)

lemma urlDecode_plain:
  "CHR ''+'' \<notin> set s \<Longrightarrow> CHR ''%'' \<notin> set s \<Longrightarrow> urlDecode s = s"
  by (induction s) (auto simp: urlDecode_other)

lemma urlDecode_length: "length (urlDecode s) \<le> length s"
proof (induction "length s" arbitrary: s rule: less_induct)
  case less
  show ?case
  proof (cases s)
    case (Cons c cs)
    show ?thesis
    proof (cases rule: urlDecode_Cons_cases [of c cs])
      case (1 x)
      then show ?thesis using less [of cs] Cons by simp
    next
      case (2 x h1 h2 rest)
      then show ?thesis using less [of rest] Cons by (simp add: le_SucI)
    qed
  qed simp
qed

section \<open>Printers the parsers are inverse to\<close>

text \<open>
  \<open>to_string\<close> is \<open>std::to_string\<close> on a non-negative number, which the serializer uses.
  \<open>to_hex\<close> and \<open>pct_encode\<close> are the encodings a peer uses for chunk sizes and query strings;
  they are not part of the program and serve to state that its decoders invert them.
\<close>

definition digit_char :: "nat \<Rightarrow> char" where
  "digit_char d = char_of (if d < 10 then 48 + d else 55 + d)"

fun to_base :: "nat \<Rightarrow> nat \<Rightarrow> string" where
  "to_base b n = (if b \<le> 1 \<or> n < b then [digit_char n]
     else to_base b (n div b) @ [digit_char (n mod b)])"

declare to_base.simps [simp del]

definition to_string :: "nat \<Rightarrow> string" where
  "to_string n = to_base 10 n"

definition to_hex :: "nat \<Rightarrow> string" where
  "to_hex n = to_base 16 n"

definition pct_encode :: "string \<Rightarrow> string" where
  "pct_encode s = concat (map (\<lambda>c. [CHR ''%'', digit_char (of_char c div 16),
     digit_char (of_char c mod 16)]) s)"

lemma to_base_induct [case_names digit more]:
  assumes "1 < b"
    and "\<And>n. n < b \<Longrightarrow> P n [digit_char n]"
    and "\<And>n. b \<le> n \<Longrightarrow> P (n div b) (to_base b (n div b)) \<Longrightarrow>
        P n (to_base b (n div b) @ [digit_char (n mod b)])"
  shows "P n (to_base b n)"
proof (induction n rule: less_induct)
  case (less n)
  show ?case
  proof (cases "n < b")
    case True
    then show ?thesis using assms(2) by (subst to_base.simps) simp
  next
    case False
    then have "n div b < n" using assms(1) by (intro div_less_dividend) auto
    then have "P n (to_base b (n div b) @ [digit_char (n mod b)])"
      using less assms(3) False by simp
    then show ?thesis using False assms(1) by (subst to_base.simps) simp
  qed
qed

lemma of_char_digit: "d < 10 \<Longrightarrow> (of_char (digit_char d) :: nat) = 48 + d"
  by (simp add: digit_char_def)

lemma isdigit_digit_char: "d < 10 \<Longrightarrow> isdigit (digit_char d)"
  by (simp add: isdigit_def of_char_digit)

lemma digit_val_digit_char: "d < 10 \<Longrightarrow> digit_val (digit_char d) = d"
  by (simp add: digit_val_def of_char_digit)

lemma dec_val_to_string [simp]: "dec_val (to_string n) = n"
  unfolding to_string_def
  by (induction rule: to_base_induct) (auto simp: dec_val_def digit_val_digit_char)

lemma isdigit_to_string: "list_all isdigit (to_string n)"
  unfolding to_string_def
  by (induction rule: to_base_induct) (auto simp: isdigit_digit_char)

lemma to_base_nonempty [simp]: "to_base b n \<noteq> []"
  by (subst to_base.simps) simp

lemma to_string_nonempty [simp]: "to_string n \<noteq> []"
  by (simp add: to_string_def)

lemma isdigit_not_ows: "isdigit c \<Longrightarrow> \<not> is_ows c"
  by (auto simp: isdigit_def is_ows_def)

lemma isdigit_value_char: "isdigit c \<Longrightarrow> header_value_char c"
  by (auto simp: isdigit_def header_value_char_def)

lemma to_string_trimmed: "ows_trimmed (to_string n)"
  using isdigit_to_string [of n] isdigit_not_ows
  by (simp add: ows_trimmed_def list_all_iff)

lemma to_string_valid_value: "isValidHeaderValue (to_string n)"
  using isdigit_to_string [of n]
  by (auto simp: isValidHeaderValue_def list_all_iff isdigit_value_char)

lemma parseContentLength_to_string:
  "n < 2 ^ 64 \<Longrightarrow> parseContentLength (to_string n) r = (True, of_nat n)"
  by (simp add: parseContentLength_True_iff isdigit_to_string unat_of_nat_size)

lemma of_char_hex_digit: "d < 16 \<Longrightarrow> (of_char (digit_char d) :: nat) = (if d < 10 then 48 + d else 55 + d)"
  by (simp add: digit_char_def)

lemma hex_digit_digit_char: "d < 16 \<Longrightarrow> hex_digit (digit_char d) = Some (of_nat d)"
  by (auto simp: hex_digit_def of_char_hex_digit Let_def simp del: of_nat_diff of_nat_add)

lemma hex_val_to_hex [simp]: "hex_val_from 0 (to_hex n) = n"
  unfolding to_hex_def
  by (induction rule: to_base_induct)
    (auto simp: hex_val_from_def hex_digit_digit_char unat_of_nat_size)

lemma is_hex_to_hex: "list_all is_hex (to_hex n)"
  unfolding to_hex_def
  by (induction rule: to_base_induct) (auto simp: is_hex_def hex_digit_digit_char)

lemma to_hex_nonempty [simp]: "to_hex n \<noteq> []"
  by (simp add: to_hex_def)

lemma parseChunkSize_to_hex:
  "n < 2 ^ 64 \<Longrightarrow> parseChunkSize (to_hex n) r = (True, of_nat n)"
  by (simp add: parseChunkSize_True_iff is_hex_to_hex unat_of_nat_size)

lemma fromHex_digit_char: "d < 16 \<Longrightarrow> fromHex (digit_char d) = int d"
proof -
  assume d: "d < 16"
  have "(of_char (digit_char d) :: int) = int (of_char (digit_char d))"
    by (rule of_nat_of_char [symmetric])
  also have "\<dots> = (if d < 10 then 48 + int d else 55 + int d)"
    using d by (simp add: of_char_hex_digit)
  finally show ?thesis using d by (auto simp: fromHex_def)
qed

lemma nibbles_or:
  fixes a b :: int
  assumes "0 \<le> b" "b < 16"
  shows "push_bit 4 a OR b = 16 * a + b"
proof -
  have "take_bit 4 b = b"
    using assms by (simp add: take_bit_int_eq_self)
  then show ?thesis
    using concat_bit_eq [of 4 b a] by (simp add: concat_bit_def or.commute push_bit_eq_mult)
qed

lemma urlDecode_pct_char:
  "urlDecode (CHR ''%'' # digit_char (of_char c div 16) # digit_char (of_char c mod 16) # rest) =
     c # urlDecode rest"
proof -
  define n :: nat where "n = of_char c"
  have n: "n < 256" unfolding n_def by simp
  then have d: "fromHex (digit_char (n div 16)) = int (n div 16)"
    "fromHex (digit_char (n mod 16)) = int (n mod 16)"
    by (simp_all add: fromHex_digit_char)
  have "push_bit 4 (int (n div 16)) OR int (n mod 16) = int n"
    by (subst nibbles_or) (auto simp: zdiv_int zmod_int)
  then have "char_of (push_bit 4 (int (n div 16)) OR int (n mod 16)) = c"
    by (simp add: n_def of_nat_of_char)
  then show ?thesis
    unfolding n_def [symmetric] by (subst urlDecode_hex) (simp_all add: d)
qed

lemma urlDecode_pct_encode: "urlDecode (pct_encode s) = s"
  by (induction s) (simp_all add: pct_encode_def urlDecode_pct_char)

end
