(* ===== verification/Http_Headers.thy ===== *)
theory Http_Headers
  imports Http_Utils
begin

text \<open>
  \<^verbatim>\<open>src/src/http/HttpHeaders.cpp\<close>: the ordered multi-map of header fields that requests and
  responses share.

  The interface the two message types rely on is the locale \<open>header_store\<close>: a store is known
  by the list of values each name has (\<open>values\<close>), names are compared up to an equivalence, and
  \<open>add\<close>, \<open>set\<close>, \<open>get\<close> and \<open>contains\<close> are determined by it. It is interpreted on the
  operations of the class, and the client facts proved from the laws alone are used by the
  parser, the serializer and the connection handler.
\<close>

section \<open>The class\<close>

record HttpHeaders =
  headers :: "(string \<times> string) list"

definition empty_headers :: HttpHeaders where
  "empty_headers = \<lparr>headers = []\<rparr>"

definition hdr_add :: "HttpHeaders \<Rightarrow> string \<Rightarrow> string \<Rightarrow> HttpHeaders" where
  "hdr_add h name v = h\<lparr>headers := headers h @ [(name, v)]\<rparr>"

definition hdr_set :: "HttpHeaders \<Rightarrow> string \<Rightarrow> string \<Rightarrow> HttpHeaders" where
  "hdr_set h name v =
     h\<lparr>headers := filter (\<lambda>f. \<not> equalsIgnoreCase (fst f) name) (headers h) @ [(name, v)]\<rparr>"

fun hdr_get_loop :: "(string \<times> string) list \<Rightarrow> string \<Rightarrow> string" where
  "hdr_get_loop [] name = []"
| "hdr_get_loop ((n, v) # fs) name = (if equalsIgnoreCase n name then v else hdr_get_loop fs name)"

definition hdr_get :: "HttpHeaders \<Rightarrow> string \<Rightarrow> string" where
  "hdr_get h name = hdr_get_loop (headers h) name"

fun hdr_values_loop :: "(string \<times> string) list \<Rightarrow> string \<Rightarrow> string list" where
  "hdr_values_loop [] name = []"
| "hdr_values_loop ((n, v) # fs) name =
     (if equalsIgnoreCase n name then v # hdr_values_loop fs name else hdr_values_loop fs name)"

definition hdr_values :: "HttpHeaders \<Rightarrow> string \<Rightarrow> string list" where
  "hdr_values h name = hdr_values_loop (headers h) name"

fun hdr_contains_loop :: "(string \<times> string) list \<Rightarrow> string \<Rightarrow> bool" where
  "hdr_contains_loop [] name = False"
| "hdr_contains_loop ((n, v) # fs) name =
     (if equalsIgnoreCase n name then True else hdr_contains_loop fs name)"

definition hdr_contains :: "HttpHeaders \<Rightarrow> string \<Rightarrow> bool" where
  "hdr_contains h name = hdr_contains_loop (headers h) name"

definition hdr_size :: "HttpHeaders \<Rightarrow> nat" where
  "hdr_size h = length (headers h)"

definition hdr_clear :: "HttpHeaders \<Rightarrow> HttpHeaders" where
  "hdr_clear h = h\<lparr>headers := []\<rparr>"

definition hdr_all :: "HttpHeaders \<Rightarrow> (string \<times> string) list" where
  "hdr_all h = headers h"

section \<open>The interface\<close>

locale header_store =
  fixes eq :: "string \<Rightarrow> string \<Rightarrow> bool"
    and empty :: 'h
    and add :: "'h \<Rightarrow> string \<Rightarrow> string \<Rightarrow> 'h"
    and set_field :: "'h \<Rightarrow> string \<Rightarrow> string \<Rightarrow> 'h"
    and get :: "'h \<Rightarrow> string \<Rightarrow> string"
    and field_values :: "'h \<Rightarrow> string \<Rightarrow> string list"
    and has :: "'h \<Rightarrow> string \<Rightarrow> bool"
  assumes eq_refl: "eq a a"
    and eq_sym: "eq a b \<Longrightarrow> eq b a"
    and eq_trans: "eq a b \<Longrightarrow> eq b c \<Longrightarrow> eq a c"
    and values_empty: "field_values empty m = []"
    and values_add: "field_values (add h n v) m = field_values h m @ (if eq n m then [v] else [])"
    and values_set: "field_values (set_field h n v) m = (if eq n m then [v] else field_values h m)"
    and get_values: "get h m = (case field_values h m of [] \<Rightarrow> [] | v # _ \<Rightarrow> v)"
    and has_values: "has h m \<longleftrightarrow> field_values h m \<noteq> []"
begin

lemma get_absent: "\<not> has h m \<Longrightarrow> get h m = []"
  by (simp add: has_values get_values)

lemma get_add_present: "has h m \<Longrightarrow> get (add h n v) m = get h m"
  by (auto simp: has_values get_values values_add split: list.splits)

lemma get_add_absent: "\<not> has h m \<Longrightarrow> get (add h n v) m = (if eq n m then v else [])"
  by (simp add: has_values get_values values_add)

lemma get_set: "get (set_field h n v) m = (if eq n m then v else get h m)"
  by (simp add: get_values values_set)

lemma has_set: "has (set_field h n v) m \<longleftrightarrow> eq n m \<or> has h m"
  by (simp add: has_values values_set)

lemma has_add: "has (add h n v) m \<longleftrightarrow> has h m \<or> eq n m"
  by (simp add: has_values values_add)

lemma set_set_values:
  "eq n n' \<Longrightarrow> field_values (set_field (set_field h n v) n' w) m = field_values (set_field h n' w) m"
  by (simp add: values_set) (metis eq_trans eq_sym)

lemma get_cong: "(\<And>m. field_values h m = field_values k m) \<Longrightarrow> get h m = get k m"
  by (simp add: get_values)

end

section \<open>The class implements the interface\<close>

lemma hdr_values_loop_append:
  "hdr_values_loop (fs @ gs) m = hdr_values_loop fs m @ hdr_values_loop gs m"
  by (induction fs) auto

lemma hdr_values_loop_filter:
  "hdr_values_loop (filter (\<lambda>f. \<not> equalsIgnoreCase (fst f) n) fs) m =
     (if equalsIgnoreCase n m then [] else hdr_values_loop fs m)"
  by (induction fs) (auto simp: equalsIgnoreCase_iff)

lemma hdr_get_loop_values:
  "hdr_get_loop fs m = (case hdr_values_loop fs m of [] \<Rightarrow> [] | v # _ \<Rightarrow> v)"
  by (induction fs) auto

lemma hdr_contains_loop_values: "hdr_contains_loop fs m \<longleftrightarrow> hdr_values_loop fs m \<noteq> []"
  by (induction fs) (auto split: if_splits)

interpretation hs: header_store equalsIgnoreCase empty_headers hdr_add hdr_set hdr_get hdr_values
  hdr_contains
proof unfold_locales
  fix a b c n v m :: string and h :: HttpHeaders
  show "equalsIgnoreCase a a"
    and "equalsIgnoreCase a b \<Longrightarrow> equalsIgnoreCase b a"
    and "equalsIgnoreCase a b \<Longrightarrow> equalsIgnoreCase b c \<Longrightarrow> equalsIgnoreCase a c"
    by (simp_all add: equalsIgnoreCase_iff)
  show "hdr_values empty_headers m = []"
    by (simp add: hdr_values_def empty_headers_def)
  show "hdr_values (hdr_add h n v) m =
      hdr_values h m @ (if equalsIgnoreCase n m then [v] else [])"
    by (simp add: hdr_values_def hdr_add_def hdr_values_loop_append)
  show "hdr_values (hdr_set h n v) m = (if equalsIgnoreCase n m then [v] else hdr_values h m)"
    by (simp add: hdr_values_def hdr_set_def hdr_values_loop_append hdr_values_loop_filter)
  show "hdr_get h m = (case hdr_values h m of [] \<Rightarrow> [] | v # _ \<Rightarrow> v)"
    by (simp add: hdr_get_def hdr_values_def hdr_get_loop_values)
  show "hdr_contains h m \<longleftrightarrow> hdr_values h m \<noteq> []"
    by (simp add: hdr_contains_def hdr_values_def hdr_contains_loop_values)
qed

lemma hdr_set_size: "hdr_size (hdr_set h n v) \<le> Suc (hdr_size h)"
  by (simp add: hdr_size_def hdr_set_def)

lemma hdr_set_names_valid:
  "\<forall>f \<in> set (hdr_all h). P f \<Longrightarrow> P (n, v) \<Longrightarrow> \<forall>f \<in> set (hdr_all (hdr_set h n v)). P f"
  by (auto simp: hdr_all_def hdr_set_def)

end
