(* ===== verification/Http_Message.thy ===== *)
theory Http_Message
  imports Http_Headers
begin

text \<open>
  \<^verbatim>\<open>src/src/http/HttpRequest.cpp\<close> and \<^verbatim>\<open>src/src/http/HttpResponse.cpp\<close>: the two message
  classes. Both keep their header fields in the store of \<open>Http_Headers\<close>; their header
  operations delegate to it, so the facts about them are instances of the store's laws.

  \<open>nlohmann::json\<close> is a type of a library: a request is polymorphic in it, and a
  default-constructed (null) document is \<open>None\<close>.
\<close>

section \<open>Requests\<close>

record 'j HttpRequest =
  rq_method :: HttpMethod
  rq_target :: string
  rq_version :: string
  rq_path :: string
  rq_headers :: HttpHeaders
  rq_body :: string
  rq_queries :: "string \<rightharpoonup> string"
  rq_params :: "string \<rightharpoonup> string"
  rq_json :: "'j option"
  rq_has_json :: bool

text \<open>The constructor from a request line, and the default constructor.\<close>

definition make_request :: "HttpMethod \<Rightarrow> string \<Rightarrow> string \<Rightarrow> 'j HttpRequest" where
  "make_request m target version =
     \<lparr>rq_method = m, rq_target = target, rq_version = version, rq_path = [],
      rq_headers = empty_headers, rq_body = [], rq_queries = Map.empty, rq_params = Map.empty,
      rq_json = None, rq_has_json = False\<rparr>"

definition new_request :: "'j HttpRequest" where
  "new_request = make_request UNKNOWN [] []"

definition req_addHeader :: "'j HttpRequest \<Rightarrow> string \<Rightarrow> string \<Rightarrow> 'j HttpRequest" where
  "req_addHeader r name v = r\<lparr>rq_headers := hdr_add (rq_headers r) name v\<rparr>"

definition req_setHeader :: "'j HttpRequest \<Rightarrow> string \<Rightarrow> string \<Rightarrow> 'j HttpRequest" where
  "req_setHeader r name v = r\<lparr>rq_headers := hdr_set (rq_headers r) name v\<rparr>"

definition req_header :: "'j HttpRequest \<Rightarrow> string \<Rightarrow> string" where
  "req_header r name = hdr_get (rq_headers r) name"

definition req_headers :: "'j HttpRequest \<Rightarrow> string \<Rightarrow> string list" where
  "req_headers r name = hdr_values (rq_headers r) name"

definition req_setBody :: "'j HttpRequest \<Rightarrow> string \<Rightarrow> 'j HttpRequest" where
  "req_setBody r b = r\<lparr>rq_body := b\<rparr>"

definition req_query :: "'j HttpRequest \<Rightarrow> string \<Rightarrow> string" where
  "req_query r key = (case rq_queries r key of Some v \<Rightarrow> v | None \<Rightarrow> [])"

definition req_setPath :: "'j HttpRequest \<Rightarrow> string \<Rightarrow> 'j HttpRequest" where
  "req_setPath r p = r\<lparr>rq_path := p\<rparr>"

text \<open>\<open>unordered_map::emplace\<close> keeps an existing entry.\<close>

definition req_addQuery :: "'j HttpRequest \<Rightarrow> string \<Rightarrow> string \<Rightarrow> 'j HttpRequest" where
  "req_addQuery r key v =
     (case rq_queries r key of Some _ \<Rightarrow> r | None \<Rightarrow> r\<lparr>rq_queries := (rq_queries r)(key \<mapsto> v)\<rparr>)"

definition req_setJson :: "'j HttpRequest \<Rightarrow> 'j \<Rightarrow> 'j HttpRequest" where
  "req_setJson r j = r\<lparr>rq_json := Some j, rq_has_json := True\<rparr>"

definition req_setMethod :: "'j HttpRequest \<Rightarrow> HttpMethod \<Rightarrow> 'j HttpRequest" where
  "req_setMethod r m = r\<lparr>rq_method := m\<rparr>"

definition req_param :: "'j HttpRequest \<Rightarrow> string \<Rightarrow> string" where
  "req_param r key = (case rq_params r key of Some v \<Rightarrow> v | None \<Rightarrow> [])"

definition req_setParam :: "'j HttpRequest \<Rightarrow> string \<Rightarrow> string \<Rightarrow> 'j HttpRequest" where
  "req_setParam r key v = r\<lparr>rq_params := (rq_params r)(key \<mapsto> v)\<rparr>"

section \<open>Responses\<close>

datatype HttpStatus = SwitchingProtocols | OK | Created | NoContent | BadRequest | Unauthorized
  | Forbidden | NotFound | MethodNotAllowed | TooManyRequests | InternalServerError
  | NotImplemented | ServiceUnavailable

fun status_code :: "HttpStatus \<Rightarrow> nat" where
  "status_code SwitchingProtocols = 101"
| "status_code OK = 200"
| "status_code Created = 201"
| "status_code NoContent = 204"
| "status_code BadRequest = 400"
| "status_code Unauthorized = 401"
| "status_code Forbidden = 403"
| "status_code NotFound = 404"
| "status_code MethodNotAllowed = 405"
| "status_code TooManyRequests = 429"
| "status_code InternalServerError = 500"
| "status_code NotImplemented = 501"
| "status_code ServiceUnavailable = 503"

record HttpResponse =
  rs_status :: HttpStatus
  rs_headers :: HttpHeaders
  rs_body :: string

definition new_response :: HttpResponse where
  "new_response = \<lparr>rs_status = OK, rs_headers = empty_headers, rs_body = []\<rparr>"

definition res_setStatus :: "HttpResponse \<Rightarrow> HttpStatus \<Rightarrow> HttpResponse" where
  "res_setStatus r st = r\<lparr>rs_status := st\<rparr>"

definition res_addHeader :: "HttpResponse \<Rightarrow> string \<Rightarrow> string \<Rightarrow> HttpResponse" where
  "res_addHeader r name v = r\<lparr>rs_headers := hdr_add (rs_headers r) name v\<rparr>"

definition res_setHeader :: "HttpResponse \<Rightarrow> string \<Rightarrow> string \<Rightarrow> HttpResponse" where
  "res_setHeader r name v = r\<lparr>rs_headers := hdr_set (rs_headers r) name v\<rparr>"

definition res_header :: "HttpResponse \<Rightarrow> string \<Rightarrow> string" where
  "res_header r name = hdr_get (rs_headers r) name"

definition res_setBody :: "HttpResponse \<Rightarrow> string \<Rightarrow> HttpResponse" where
  "res_setBody r b = r\<lparr>rs_body := b\<rparr>"

definition res_json :: "HttpResponse \<Rightarrow> string \<Rightarrow> HttpResponse" where
  "res_json r s = res_setBody (res_setHeader r ''Content-Type'' ''application/json'') s"

text \<open>The switch has no case for \<open>SwitchingProtocols\<close> and \<open>TooManyRequests\<close>.\<close>

fun reasonPhrase :: "HttpStatus \<Rightarrow> string" where
  "reasonPhrase OK = ''OK''"
| "reasonPhrase Created = ''Created''"
| "reasonPhrase NoContent = ''No Content''"
| "reasonPhrase BadRequest = ''Bad Request''"
| "reasonPhrase Unauthorized = ''Unauthorized''"
| "reasonPhrase Forbidden = ''Forbidden''"
| "reasonPhrase NotFound = ''Not Found''"
| "reasonPhrase MethodNotAllowed = ''Method Not Allowed''"
| "reasonPhrase InternalServerError = ''Internal Server Error''"
| "reasonPhrase NotImplemented = ''Not Implemented''"
| "reasonPhrase ServiceUnavailable = ''Service Unavailable''"
| "reasonPhrase _ = ''Unknown''"

text \<open>The loop over \<open>headers_.all()\<close> skips stored \<open>Content-Length\<close> fields.\<close>

fun serialize_fields :: "(string \<times> string) list \<Rightarrow> string" where
  "serialize_fields [] = []"
| "serialize_fields ((name, v) # fs) =
     (if equalsIgnoreCase name ''Content-Length'' then serialize_fields fs
      else name @ '': '' @ v @ CRLF @ serialize_fields fs)"

definition serialize :: "HttpResponse \<Rightarrow> string" where
  "serialize r =
     ''HTTP/1.1 '' @ to_string (status_code (rs_status r)) @ '' '' @ reasonPhrase (rs_status r) @ CRLF @
     serialize_fields (hdr_all (rs_headers r)) @
     ''Content-Length: '' @ to_string (length (rs_body r)) @ CRLF @ CRLF @ rs_body r"

section \<open>Header access of the two classes\<close>

lemmas message_header_defs =
  req_addHeader_def req_setHeader_def req_header_def req_headers_def
  res_addHeader_def res_setHeader_def res_header_def

lemma req_header_setHeader:
  "req_header (req_setHeader r n v) m = (if equalsIgnoreCase n m then v else req_header r m)"
  by (simp add: message_header_defs hs.get_set)

lemma res_header_setHeader:
  "res_header (res_setHeader r n v) m = (if equalsIgnoreCase n m then v else res_header r m)"
  by (simp add: message_header_defs hs.get_set)

lemma res_header_json:
  "res_header (res_json r s) ''Content-Type'' = ''application/json''"
  "rs_body (res_json r s) = s" "rs_status (res_json r s) = rs_status r"
  by (simp_all add: res_json_def res_setBody_def message_header_defs hs.get_set)

lemma req_query_addQuery:
  "req_query (req_addQuery r k v) k' =
     (if k' = k \<and> rq_queries r k = None then v else req_query r k')"
  by (auto simp: req_query_def req_addQuery_def split: option.splits)

lemma req_param_setParam:
  "req_param (req_setParam r k v) k' = (if k' = k then v else req_param r k')"
  by (simp add: req_param_def req_setParam_def)

section \<open>What the serializer writes\<close>

definition field_line :: "string \<times> string \<Rightarrow> string" where
  "field_line f = fst f @ '': '' @ snd f"

definition wire_fields :: "HttpResponse \<Rightarrow> (string \<times> string) list" where
  "wire_fields r =
     filter (\<lambda>f. \<not> equalsIgnoreCase (fst f) ''Content-Length'') (hdr_all (rs_headers r)) @
     [(''Content-Length'', to_string (length (rs_body r)))]"

definition status_line :: "HttpResponse \<Rightarrow> string" where
  "status_line r =
     ''HTTP/1.1 '' @ to_string (status_code (rs_status r)) @ '' '' @ reasonPhrase (rs_status r)"

lemma serialize_fields_lines:
  "serialize_fields fs =
     crlf_lines (map field_line (filter (\<lambda>f. \<not> equalsIgnoreCase (fst f) ''Content-Length'') fs))"
  by (induction fs rule: serialize_fields.induct) (auto simp: crlf_lines_Cons field_line_def)

lemma serialize_lines:
  "serialize r = crlf_lines (status_line r # map field_line (wire_fields r)) @ CRLF @ rs_body r"
  by (simp add: serialize_def serialize_fields_lines wire_fields_def status_line_def
      crlf_lines_Cons crlf_lines_append field_line_def)

text \<open>The condition the message classes do not check: a stored field holds no CR.\<close>

definition clean_fields :: "(string \<times> string) list \<Rightarrow> bool" where
  "clean_fields fs \<longleftrightarrow> (\<forall>f \<in> set fs. CR \<notin> set (fst f) \<and> CR \<notin> set (snd f))"

lemma isdigit_not_CR: "list_all isdigit s \<Longrightarrow> CR \<notin> set s"
  by (auto simp: list_all_iff isdigit_def dest!: bspec)

lemma CR_notin_to_string [simp]: "CR \<notin> set (to_string n)"
  by (rule isdigit_not_CR) (rule isdigit_to_string)

lemma CR_notin_status_line: "CR \<notin> set (status_line r)"
  by (cases "rs_status r") (simp_all add: status_line_def)

lemma clean_wire_fields:
  "clean_fields (hdr_all (rs_headers r)) \<Longrightarrow> clean_fields (wire_fields r)"
  by (auto simp: clean_fields_def wire_fields_def)

lemma CR_notin_field_line: "clean_fields fs \<Longrightarrow> f \<in> set fs \<Longrightarrow> CR \<notin> set (field_line f)"
  by (auto simp: clean_fields_def field_line_def)

text \<open>
  Framing: when no stored field holds a CR, the first blank line of the serialized message ends the
  head, and exactly the body follows it.
\<close>

lemma serialize_framing:
  assumes "clean_fields (hdr_all (rs_headers r))"
  shows "\<exists>k. sv_find CRLF2 (serialize r) = Some k \<and> drop (k + 4) (serialize r) = rs_body r"
proof -
  define ls where "ls = map field_line (wire_fields r)"
  have ne: "status_line r \<noteq> []" by (simp add: status_line_def)
  have cr: "\<forall>k \<in> set (status_line r # ls). CR \<notin> set k"
    using CR_notin_field_line [OF clean_wire_fields [OF assms]]
    by (auto simp: ls_def CR_notin_status_line)
  have "\<forall>k \<in> set ls. k \<noteq> []" by (auto simp: ls_def field_line_def)
  then have "sv_find CRLF2 (serialize r) = Some (length (crlf_lines (status_line r # ls)) - 2)"
    unfolding serialize_lines ls_def [symmetric] using ne cr by (intro sv_find_CRLF2_lines) auto
  moreover have "2 \<le> length (crlf_lines (status_line r # ls))"
    by (simp add: crlf_lines_Cons)
  ultimately show ?thesis
    by (auto simp: serialize_lines ls_def)
qed

end
