(* ===== verification/Http_Parser.thy ===== *)
theory Http_Parser
  imports Http_Message
begin

text \<open>
  \<^verbatim>\<open>src/src/http/HttpParser.cpp\<close>: the incremental request parser. A parser object is a record of
  the class's fields; every private handler of the class is one definition that takes the
  accumulated bytes, the parser and the request it fills and returns the new parser, the new
  request and the optional verdict (\<open>None\<close>: the state advanced, keep going). \<open>parse\<close> is the
  loop over them.

  \<open>consumed\<close> and \<open>chunkBytesRead\<close> count bytes of a buffer in memory and are \<open>nat\<close>; the two sizes
  that the peer writes, \<open>bodySize\<close> and \<open>chunkSize\<close>, are 64-bit words. The subtraction
  \<open>chunkSize_ - chunkBytesRead_\<close> of the source is guarded by the invariant \<open>parser_inv\<close>.
\<close>

datatype ParseResult = Complete | Incomplete | Invalid

datatype ParserState = StRequestLine | StHeaders | StBody | StChunkSize | StChunkData
  | StChunkDataCrlf | StChunkTrailer | StComplete | StError

definition MAX_REQUEST_LINE :: nat where "MAX_REQUEST_LINE = 8192"
definition MAX_HEADER_SIZE :: nat where "MAX_HEADER_SIZE = 16384"
definition MAX_HEADERS :: nat where "MAX_HEADERS = 100"
definition MAX_BODY_SIZE :: nat where "MAX_BODY_SIZE = 10 * 1024 * 1024"
definition MAX_CHUNK_LINE_SIZE :: nat where "MAX_CHUNK_LINE_SIZE = 128"

record HttpParser =
  state :: ParserState
  consumed :: nat
  bodySize :: size_t
  chunkSize :: size_t
  chunkBytesRead :: nat
  body :: string

definition new_parser :: HttpParser where
  "new_parser = \<lparr>state = StRequestLine, consumed = 0, bodySize = 0, chunkSize = 0,
     chunkBytesRead = 0, body = []\<rparr>"

definition parser_reset :: "HttpParser \<Rightarrow> HttpParser" where
  "parser_reset p = p\<lparr>state := StRequestLine, consumed := 0, bodySize := 0, chunkSize := 0,
     chunkBytesRead := 0, body := []\<rparr>"

definition consumedBytes :: "HttpParser \<Rightarrow> nat" where
  "consumedBytes p = consumed p"

type_synonym 'j handled = "HttpParser \<times> 'j HttpRequest \<times> ParseResult option"

text \<open>\<open>return fail();\<close>\<close>

definition parser_fail :: "HttpParser \<Rightarrow> 'j HttpRequest \<Rightarrow> 'j handled" where
  "parser_fail p r = (p\<lparr>state := StError\<rparr>, r, Some Invalid)"

section \<open>The request line\<close>

definition add_query_pair :: "string \<Rightarrow> 'j HttpRequest \<Rightarrow> 'j HttpRequest" where
  "add_query_pair pair r =
     (case sv_find ''='' pair of
        Some eq \<Rightarrow> req_addQuery r (urlDecode (sv_substr pair 0 eq)) (urlDecode (drop (eq + 1) pair))
      | None \<Rightarrow> if pair \<noteq> [] then req_addQuery r (urlDecode pair) [] else r)"

lemma sv_find_from_ge: "sv_find_from pat s pos = Some i \<Longrightarrow> pos \<le> i \<and> i + length pat \<le> length s"
  by (auto simp: sv_find_from_def split: if_splits dest!: sv_find_bound)

function parseQuery_loop :: "string \<Rightarrow> nat \<Rightarrow> 'j HttpRequest \<Rightarrow> 'j HttpRequest" where
  "parseQuery_loop qs start r =
     (if start < length qs then
        (case sv_find_from ''&'' qs start of
           None \<Rightarrow> add_query_pair (drop start qs) r
         | Some amp \<Rightarrow>
             parseQuery_loop qs (amp + 1) (add_query_pair (sv_substr qs start (amp - start)) r))
      else r)"
  by pat_completeness auto
termination
  by (relation "measure (\<lambda>(qs, start, r). length qs - start)") (auto dest: sv_find_from_ge)

declare parseQuery_loop.simps [simp del]

text \<open>The second half of \<open>parseRequestLine\<close>: fill the request from a checked request line.\<close>

definition store_request_line :: "HttpMethod \<Rightarrow> string \<Rightarrow> string \<Rightarrow> 'j HttpRequest" where
  "store_request_line m target version =
     (let r1 = make_request m target version in
      case sv_find ''?'' target of
        None \<Rightarrow> req_setPath r1 target
      | Some q \<Rightarrow> parseQuery_loop (drop (q + 1) target) 0 (req_setPath r1 (sv_substr target 0 q)))"

definition parseRequestLine :: "string \<Rightarrow> 'j HttpRequest \<Rightarrow> ParseResult \<times> 'j HttpRequest" where
  "parseRequestLine data r =
     (case sv_find CRLF data of
        None \<Rightarrow> (Incomplete, r)
      | Some lineEnd \<Rightarrow>
          if MAX_REQUEST_LINE < lineEnd then (Invalid, r)
          else
            (let line = sv_substr data 0 lineEnd in
             case sv_find '' '' line of
               None \<Rightarrow> (Invalid, r)
             | Some firstSpace \<Rightarrow>
                 (case sv_find_from '' '' line (firstSpace + 1) of
                    None \<Rightarrow> (Invalid, r)
                  | Some secondSpace \<Rightarrow>
                      if sv_find_from '' '' line (secondSpace + 1) \<noteq> None then (Invalid, r)
                      else
                        (let method = sv_substr line 0 firstSpace;
                             target = sv_substr line (firstSpace + 1) (secondSpace - firstSpace - 1);
                             version = drop (secondSpace + 1) line in
                         if method = [] \<or> target = [] \<or> version = [] then (Invalid, r)
                         else if version \<noteq> ''HTTP/1.1'' then (Invalid, r)
                         else if parseMethod method = UNKNOWN then (Invalid, r)
                         else (Complete, store_request_line (parseMethod method) target version)))))"

definition handleRequestLine :: "string \<Rightarrow> HttpParser \<Rightarrow> 'j HttpRequest \<Rightarrow> 'j handled" where
  "handleRequestLine data p r =
     (if length data < consumed p then parser_fail p r
      else
        (let remaining = drop (consumed p) data in
         case sv_find CRLF remaining of
           None \<Rightarrow>
             if MAX_REQUEST_LINE < length remaining then parser_fail p r
             else (p, r, Some Incomplete)
         | Some lineEnd \<Rightarrow>
             if MAX_REQUEST_LINE < lineEnd then parser_fail p r
             else
               (case parseRequestLine remaining r of
                  (Incomplete, r') \<Rightarrow> (p, r', Some Incomplete)
                | (Invalid, r') \<Rightarrow> parser_fail p r'
                | (Complete, r') \<Rightarrow>
                    (p\<lparr>consumed := consumed p + lineEnd + 2, state := StHeaders\<rparr>, r', None))))"

section \<open>The header section\<close>

function parseHeaders_loop ::
  "string \<Rightarrow> nat \<Rightarrow> nat \<Rightarrow> 'j HttpRequest \<Rightarrow> ParseResult \<times> 'j HttpRequest" where
  "parseHeaders_loop data position headerCount r =
     (if position < length data then
        (case sv_find_from CRLF data position of
           None \<Rightarrow> (Incomplete, r)
         | Some lineEnd \<Rightarrow>
             if lineEnd = position then (Complete, r)
             else
               (let line = sv_substr data position (lineEnd - position) in
                case sv_find '':'' line of
                  None \<Rightarrow> (Invalid, r)
                | Some colon \<Rightarrow>
                    (let name = sv_substr line 0 colon; v = trimOws (drop (colon + 1) line) in
                     if \<not> isValidHeaderName name then (Invalid, r)
                     else if \<not> isValidHeaderValue v then (Invalid, r)
                     else if MAX_HEADERS < headerCount + 1 then (Invalid, r)
                     else if equalsIgnoreCase name ''Content-Length'' \<and>
                         req_header r ''Content-Length'' \<noteq> [] \<and>
                         req_header r ''Content-Length'' \<noteq> v then (Invalid, r)
                     else parseHeaders_loop data (lineEnd + 2) (headerCount + 1)
                            (req_addHeader r name v))))
      else (Incomplete, r))"
  by pat_completeness auto
termination
  by (relation "measure (\<lambda>(data, position, n, r). length data - position)")
    (auto dest: sv_find_from_ge)

declare parseHeaders_loop.simps [simp del]

definition parseHeaders :: "string \<Rightarrow> 'j HttpRequest \<Rightarrow> ParseResult \<times> 'j HttpRequest" where
  "parseHeaders data r = parseHeaders_loop data 0 0 r"

text \<open>What \<open>handleHeaders\<close> does once the header section is parsed: choose the body framing.\<close>

definition select_framing :: "HttpParser \<Rightarrow> 'j HttpRequest \<Rightarrow> 'j handled" where
  "select_framing p r =
     (let contentLength = req_header r ''Content-Length'';
          transferEncoding = req_header r ''Transfer-Encoding'';
          hasContentLength = (contentLength \<noteq> []);
          hasTransferEncoding = (transferEncoding \<noteq> []) in
      if hasContentLength \<and> hasTransferEncoding then parser_fail p r
      else if hasTransferEncoding then
        (if \<not> equalsIgnoreCase (trimOws transferEncoding) ''chunked'' then parser_fail p r
         else (p\<lparr>body := [], chunkSize := 0, chunkBytesRead := 0, state := StChunkSize\<rparr>, r, None))
      else if \<not> hasContentLength then
        (p\<lparr>bodySize := 0, state := StComplete\<rparr>, req_setBody r [], Some Complete)
      else
        (case parseContentLength contentLength 0 of
           (ok, n) \<Rightarrow>
             let p' = p\<lparr>bodySize := n\<rparr> in
             if \<not> ok then parser_fail p' r
             else if MAX_BODY_SIZE < unat n then parser_fail p' r
             else if n = 0 then (p'\<lparr>state := StComplete\<rparr>, req_setBody r [], Some Complete)
             else (p'\<lparr>state := StBody\<rparr>, r, None)))"

definition handleHeaders :: "string \<Rightarrow> HttpParser \<Rightarrow> 'j HttpRequest \<Rightarrow> 'j handled" where
  "handleHeaders data p r =
     (if length data < consumed p then parser_fail p r
      else
        (let remaining = drop (consumed p) data in
         case sv_find CRLF2 remaining of
           None \<Rightarrow>
             if MAX_HEADER_SIZE < length remaining then parser_fail p r
             else (p, r, Some Incomplete)
         | Some headersEnd \<Rightarrow>
             if MAX_HEADER_SIZE < headersEnd then parser_fail p r
             else
               (case parseHeaders (sv_substr remaining 0 (headersEnd + 4)) r of
                  (Incomplete, r') \<Rightarrow> (p, r', Some Incomplete)
                | (Invalid, r') \<Rightarrow> parser_fail p r'
                | (Complete, r') \<Rightarrow>
                    select_framing (p\<lparr>consumed := consumed p + headersEnd + 4\<rparr>) r')))"

section \<open>The body\<close>

definition handleBody :: "string \<Rightarrow> HttpParser \<Rightarrow> 'j HttpRequest \<Rightarrow> 'j handled" where
  "handleBody data p r =
     (if length data < consumed p then parser_fail p r
      else
        (let available = length data - consumed p in
         if available < unat (bodySize p) then (p, r, Some Incomplete)
         else
           (p\<lparr>consumed := consumed p + unat (bodySize p), state := StComplete\<rparr>,
            req_setBody r (sv_substr data (consumed p) (unat (bodySize p))), Some Complete)))"

definition handleChunkSize :: "string \<Rightarrow> HttpParser \<Rightarrow> 'j HttpRequest \<Rightarrow> 'j handled" where
  "handleChunkSize data p r =
     (if length data < consumed p then parser_fail p r
      else
        (let remaining = drop (consumed p) data in
         case sv_find CRLF remaining of
           None \<Rightarrow>
             if MAX_CHUNK_LINE_SIZE < length remaining then parser_fail p r
             else (p, r, Some Incomplete)
         | Some lineEnd \<Rightarrow>
             if MAX_CHUNK_LINE_SIZE < lineEnd then parser_fail p r
             else
               (let line0 = sv_substr remaining 0 lineEnd;
                    line1 = (case sv_find '';'' line0 of
                               None \<Rightarrow> line0 | Some semicolon \<Rightarrow> sv_substr line0 0 semicolon);
                    line = trimOws line1 in
                case parseChunkSize line (chunkSize p) of
                  (ok, n) \<Rightarrow>
                    let p' = p\<lparr>chunkSize := n\<rparr> in
                    if \<not> ok then parser_fail p' r
                    else if MAX_BODY_SIZE < unat n \<or> MAX_BODY_SIZE - unat n < length (body p)
                      then parser_fail p' r
                    else
                      (p'\<lparr>consumed := consumed p + lineEnd + 2, chunkBytesRead := 0,
                         state := (if n = 0 then StChunkTrailer else StChunkData)\<rparr>, r, None))))"

definition handleChunkData :: "string \<Rightarrow> HttpParser \<Rightarrow> 'j HttpRequest \<Rightarrow> 'j handled" where
  "handleChunkData data p r =
     (if length data < consumed p then parser_fail p r
      else
        (let available = length data - consumed p;
             remainingChunkBytes = unat (chunkSize p) - chunkBytesRead p;
             bytesToCopy = min available remainingChunkBytes;
             p' = (if 0 < bytesToCopy then
                     p\<lparr>body := body p @ sv_substr data (consumed p) bytesToCopy,
                       consumed := consumed p + bytesToCopy,
                       chunkBytesRead := chunkBytesRead p + bytesToCopy\<rparr>
                   else p) in
         if chunkBytesRead p' < unat (chunkSize p') then (p', r, Some Incomplete)
         else (p'\<lparr>state := StChunkDataCrlf\<rparr>, r, None)))"

definition handleChunkDataCrlf :: "string \<Rightarrow> HttpParser \<Rightarrow> 'j HttpRequest \<Rightarrow> 'j handled" where
  "handleChunkDataCrlf data p r =
     (if length data < consumed p then parser_fail p r
      else if length data - consumed p < 2 then (p, r, Some Incomplete)
      else if data ! consumed p \<noteq> CR \<or> data ! (consumed p + 1) \<noteq> LF then parser_fail p r
      else (p\<lparr>consumed := consumed p + 2, state := StChunkSize\<rparr>, r, None))"

text \<open>The loop over the trailer fields: they are checked and dropped. \<open>False\<close> is \<open>fail()\<close>.\<close>

function trailer_loop :: "string \<Rightarrow> nat \<Rightarrow> nat \<Rightarrow> bool" where
  "trailer_loop trailers position trailerCount =
     (if position < length trailers then
        (case sv_find_from CRLF trailers position of
           None \<Rightarrow> False
         | Some lineEnd \<Rightarrow>
             if lineEnd = position then True
             else
               (let line = sv_substr trailers position (lineEnd - position) in
                case sv_find '':'' line of
                  None \<Rightarrow> False
                | Some colon \<Rightarrow>
                    (let name = sv_substr line 0 colon; v = trimOws (drop (colon + 1) line) in
                     if \<not> isValidHeaderName name then False
                     else if \<not> isValidHeaderValue v then False
                     else if MAX_HEADERS < trailerCount + 1 then False
                     else trailer_loop trailers (lineEnd + 2) (trailerCount + 1))))
      else True)"
  by pat_completeness auto
termination
  by (relation "measure (\<lambda>(trailers, position, n). length trailers - position)")
    (auto dest: sv_find_from_ge)

declare trailer_loop.simps [simp del]

text \<open>\<open>request.setBody(std::move(body_))\<close> leaves the parser's own \<open>body_\<close> empty.\<close>

definition handleChunkTrailer :: "string \<Rightarrow> HttpParser \<Rightarrow> 'j HttpRequest \<Rightarrow> 'j handled" where
  "handleChunkTrailer data p r =
     (if length data < consumed p then parser_fail p r
      else
        (let remaining = drop (consumed p) data in
         if prefix CRLF remaining then
           (p\<lparr>consumed := consumed p + 2, body := [], state := StComplete\<rparr>,
            req_setBody r (body p), Some Complete)
         else
           (case sv_find CRLF2 remaining of
              None \<Rightarrow>
                if MAX_HEADER_SIZE < length remaining then parser_fail p r
                else (p, r, Some Incomplete)
            | Some trailerEnd \<Rightarrow>
                if \<not> trailer_loop (sv_substr remaining 0 (trailerEnd + 2)) 0 0 then parser_fail p r
                else
                  (p\<lparr>consumed := consumed p + trailerEnd + 4, body := [], state := StComplete\<rparr>,
                   req_setBody r (body p), Some Complete))))"

section \<open>The loop\<close>

definition parser_step :: "string \<Rightarrow> HttpParser \<Rightarrow> 'j HttpRequest \<Rightarrow> 'j handled" where
  "parser_step data p r =
     (case state p of
        StRequestLine \<Rightarrow> handleRequestLine data p r
      | StHeaders \<Rightarrow> handleHeaders data p r
      | StBody \<Rightarrow> handleBody data p r
      | StChunkSize \<Rightarrow> handleChunkSize data p r
      | StChunkData \<Rightarrow> handleChunkData data p r
      | StChunkDataCrlf \<Rightarrow> handleChunkDataCrlf data p r
      | StChunkTrailer \<Rightarrow> handleChunkTrailer data p r
      | StComplete \<Rightarrow> (p, r, Some Complete)
      | StError \<Rightarrow> (p, r, Some Invalid))"

lemmas handler_defs = handleRequestLine_def handleHeaders_def handleBody_def handleChunkSize_def
  handleChunkData_def handleChunkDataCrlf_def handleChunkTrailer_def

text \<open>
  Every step that asks to go on has consumed bytes or moved from chunk data to its terminator, so
  the loop ends.
\<close>

definition parse_measure :: "string \<Rightarrow> HttpParser \<Rightarrow> nat" where
  "parse_measure data p =
     2 * (length data - consumed p) + (if state p = StChunkData then 1 else 0)"

lemma select_framing_None:
  "select_framing p r = (p', r', None) \<Longrightarrow>
     consumed p' = consumed p \<and> (state p' = StBody \<or> state p' = StChunkSize)"
  by (auto simp: select_framing_def parser_fail_def Let_def split: if_splits prod.splits)

lemma drop_find_bound:
  "sv_find pat (drop n s) = Some i \<Longrightarrow> n \<le> length s \<Longrightarrow> n + i + length pat \<le> length s"
  by (drule sv_find_bound) auto

lemma handleRequestLine_None:
  "handleRequestLine data p r = (p', r', None) \<Longrightarrow>
     consumed p < consumed p' \<and> consumed p' \<le> length data \<and> state p' = StHeaders"
  by (auto simp: handleRequestLine_def parser_fail_def Let_def
      split: if_splits option.splits prod.splits ParseResult.splits dest!: drop_find_bound)

lemma handleHeaders_None:
  "handleHeaders data p r = (p', r', None) \<Longrightarrow>
     consumed p < consumed p' \<and> consumed p' \<le> length data \<and>
     (state p' = StBody \<or> state p' = StChunkSize)"
  by (auto simp: handleHeaders_def parser_fail_def Let_def
      split: if_splits option.splits prod.splits ParseResult.splits
      dest!: drop_find_bound select_framing_None)

lemma handleChunkSize_None:
  "handleChunkSize data p r = (p', r', None) \<Longrightarrow>
     consumed p + 2 \<le> consumed p' \<and> consumed p' \<le> length data"
  by (auto simp: handleChunkSize_def parser_fail_def Let_def
      split: if_splits option.splits prod.splits dest!: drop_find_bound)

lemma handleChunkData_None:
  "handleChunkData data p r = (p', r', None) \<Longrightarrow>
     consumed p \<le> consumed p' \<and> consumed p' \<le> length data \<and> state p' = StChunkDataCrlf"
  by (auto simp: handleChunkData_def parser_fail_def Let_def split: if_splits)

lemma handleChunkDataCrlf_None:
  "handleChunkDataCrlf data p r = (p', r', None) \<Longrightarrow>
     consumed p' = consumed p + 2 \<and> consumed p' \<le> length data \<and> state p' = StChunkSize"
  by (auto simp: handleChunkDataCrlf_def parser_fail_def split: if_splits)

lemma handleBody_None: "handleBody data p r \<noteq> (p', r', None)"
  by (auto simp: handleBody_def parser_fail_def Let_def)

lemma handleChunkTrailer_None: "handleChunkTrailer data p r \<noteq> (p', r', None)"
  by (auto simp: handleChunkTrailer_def parser_fail_def Let_def split: option.splits)

lemmas handler_None = handleRequestLine_None handleHeaders_None handleBody_None handleChunkSize_None
  handleChunkData_None handleChunkDataCrlf_None handleChunkTrailer_None

lemma parser_step_decreases:
  assumes "parser_step data p r = (p', r', None)"
  shows "parse_measure data p' < parse_measure data p \<and> consumed p \<le> consumed p' \<and>
    consumed p' \<le> length data"
proof (cases "state p")
  case StRequestLine
  then show ?thesis using assms
    by (auto simp: parser_step_def parse_measure_def dest: handleRequestLine_None)
next
  case StHeaders
  then show ?thesis using assms
    by (auto simp: parser_step_def parse_measure_def dest: handleHeaders_None)
next
  case StBody
  then show ?thesis using assms by (simp add: parser_step_def handleBody_None)
next
  case StChunkSize
  then show ?thesis using assms
    by (auto simp: parser_step_def parse_measure_def dest: handleChunkSize_None)
next
  case StChunkData
  then show ?thesis using assms
    by (auto simp: parser_step_def parse_measure_def dest: handleChunkData_None)
next
  case StChunkDataCrlf
  then show ?thesis using assms
    by (auto simp: parser_step_def parse_measure_def dest: handleChunkDataCrlf_None)
next
  case StChunkTrailer
  then show ?thesis using assms by (simp add: parser_step_def handleChunkTrailer_None)
qed (use assms in \<open>auto simp: parser_step_def\<close>)

function parse :: "string \<Rightarrow> HttpParser \<Rightarrow> 'j HttpRequest \<Rightarrow> HttpParser \<times> 'j HttpRequest \<times> ParseResult" where
  "parse data p r =
     (case parser_step data p r of
        (p', r', Some result) \<Rightarrow> (p', r', result)
      | (p', r', None) \<Rightarrow> parse data p' r')"
  by pat_completeness auto
termination
  by (relation "measure (\<lambda>(data, p, r). parse_measure data p)")
    (auto dest!: parser_step_decreases [OF sym])

declare parse.simps [simp del]

section \<open>Bytes behind the parsed prefix do not matter\<close>

text \<open>
  A search that succeeds on the bytes received so far gives the same position on any
  continuation, so a step that advanced or completed does the same on more input.
\<close>

lemma find_drop_append:
  "sv_find pat (drop n d) = Some i \<Longrightarrow> n \<le> length d \<Longrightarrow> sv_find pat (drop n (d @ e)) = Some i"
  by (simp add: sv_find_append)

lemma substr_append: "n \<le> length d \<Longrightarrow> sv_substr (d @ e) 0 n = sv_substr d 0 n"
  by (simp add: sv_substr_def)

lemma substr_at_append: "i + n \<le> length d \<Longrightarrow> sv_substr (d @ e) i n = sv_substr d i n"
  by (simp add: sv_substr_def)

lemma parseRequestLine_append:
  assumes "sv_find CRLF d = Some i"
  shows "parseRequestLine (d @ e) r = parseRequestLine d r"
  using assms sv_find_bound [OF assms]
  by (simp add: parseRequestLine_def sv_find_append substr_append)

lemma parseRequestLine_not_Incomplete:
  "sv_find CRLF d = Some i \<Longrightarrow> fst (parseRequestLine d r) \<noteq> Incomplete"
  by (auto simp: parseRequestLine_def Let_def split: option.splits if_splits)

lemma handleRequestLine_append:
  assumes "handleRequestLine d p r = (p', r', v)" and "v = None \<or> v = Some Complete"
  shows "handleRequestLine (d @ e) p r = (p', r', v)"
proof -
  have le: "consumed p \<le> length d"
    using assms by (auto simp: handleRequestLine_def parser_fail_def split: if_splits)
  obtain i where i: "sv_find CRLF (drop (consumed p) d) = Some i"
    using assms le by (cases "sv_find CRLF (drop (consumed p) d)")
      (auto simp: handleRequestLine_def parser_fail_def Let_def split: if_splits)
  have "handleRequestLine (d @ e) p r = handleRequestLine d p r"
    using le i sv_find_append [OF i, of e] parseRequestLine_append [OF i, of e r]
    by (simp add: handleRequestLine_def)
  then show ?thesis using assms by simp
qed

lemma handleHeaders_append:
  assumes "handleHeaders d p r = (p', r', v)" and "v = None \<or> v = Some Complete"
  shows "handleHeaders (d @ e) p r = (p', r', v)"
proof -
  have le: "consumed p \<le> length d"
    using assms by (auto simp: handleHeaders_def parser_fail_def split: if_splits)
  obtain i where i: "sv_find CRLF2 (drop (consumed p) d) = Some i"
    using assms le by (cases "sv_find CRLF2 (drop (consumed p) d)")
      (auto simp: handleHeaders_def parser_fail_def Let_def split: if_splits)
  have "sv_substr (drop (consumed p) d @ e) 0 (i + 4) = sv_substr (drop (consumed p) d) 0 (i + 4)"
    using sv_find_bound [OF i] by (intro substr_append) simp
  then have "handleHeaders (d @ e) p r = handleHeaders d p r"
    using le i sv_find_append [OF i, of e] by (simp add: handleHeaders_def)
  then show ?thesis using assms by simp
qed

lemma handleBody_append:
  "handleBody d p r = (p', r', v) \<Longrightarrow> v = None \<or> v = Some Complete \<Longrightarrow>
     handleBody (d @ e) p r = (p', r', v)"
  by (auto simp: handleBody_def parser_fail_def Let_def substr_at_append split: if_splits)

lemma handleChunkSize_append:
  assumes "handleChunkSize d p r = (p', r', v)" and "v = None \<or> v = Some Complete"
  shows "handleChunkSize (d @ e) p r = (p', r', v)"
proof -
  have le: "consumed p \<le> length d"
    using assms by (auto simp: handleChunkSize_def parser_fail_def split: if_splits)
  obtain i where i: "sv_find CRLF (drop (consumed p) d) = Some i"
    using assms le by (cases "sv_find CRLF (drop (consumed p) d)")
      (auto simp: handleChunkSize_def parser_fail_def Let_def split: if_splits)
  have "sv_substr (drop (consumed p) d @ e) 0 i = sv_substr (drop (consumed p) d) 0 i"
    using sv_find_bound [OF i] by (intro substr_append) simp
  then have "handleChunkSize (d @ e) p r = handleChunkSize d p r"
    using le i sv_find_append [OF i, of e] by (simp add: handleChunkSize_def Let_def)
  then show ?thesis using assms by simp
qed

lemma handleChunkData_append:
  assumes "handleChunkData d p r = (p', r', v)" and "v = None \<or> v = Some Complete"
  shows "handleChunkData (d @ e) p r = (p', r', v)"
proof -
  define m where "m = unat (chunkSize p) - chunkBytesRead p"
  have le: "consumed p \<le> length d"
    using assms by (auto simp: handleChunkData_def parser_fail_def split: if_splits)
  have "m \<le> length d - consumed p"
    using assms le unfolding handleChunkData_def m_def [symmetric]
    by (auto simp: parser_fail_def Let_def m_def split: if_splits)
  then have mm: "min (length d - consumed p) m = m" "min (length (d @ e) - consumed p) m = m"
    by auto
  have ss: "sv_substr (d @ e) (consumed p) m = sv_substr d (consumed p) m"
    using le \<open>m \<le> length d - consumed p\<close> by (intro substr_at_append) simp
  show ?thesis
    using assms le unfolding handleChunkData_def m_def [symmetric] Let_def mm ss by simp
qed

lemma handleChunkDataCrlf_append:
  "handleChunkDataCrlf d p r = (p', r', v) \<Longrightarrow> v = None \<or> v = Some Complete \<Longrightarrow>
     handleChunkDataCrlf (d @ e) p r = (p', r', v)"
  by (auto simp: handleChunkDataCrlf_def parser_fail_def nth_append split: if_splits)

lemma handleChunkTrailer_append:
  assumes "handleChunkTrailer d p r = (p', r', v)" and "v = None \<or> v = Some Complete"
  shows "handleChunkTrailer (d @ e) p r = (p', r', v)"
proof -
  have le: "consumed p \<le> length d"
    using assms by (auto simp: handleChunkTrailer_def parser_fail_def split: if_splits)
  show ?thesis
  proof (cases "prefix CRLF (drop (consumed p) d)")
    case True
    then show ?thesis using assms le by (simp add: handleChunkTrailer_def)
  next
    case False
    then obtain i where i: "sv_find CRLF2 (drop (consumed p) d) = Some i"
      using assms le by (cases "sv_find CRLF2 (drop (consumed p) d)")
        (auto simp: handleChunkTrailer_def parser_fail_def Let_def split: if_splits)
    have "length CRLF \<le> length (drop (consumed p) d)"
      using sv_find_bound [OF i] by simp
    then have "\<not> prefix CRLF (drop (consumed p) d @ e)"
      using False by (metis prefix_length_prefix prefixI)
    moreover have "sv_substr (drop (consumed p) d @ e) 0 (i + 2) =
        sv_substr (drop (consumed p) d) 0 (i + 2)"
      using sv_find_bound [OF i] by (intro substr_append) simp
    ultimately have "handleChunkTrailer (d @ e) p r = handleChunkTrailer d p r"
      using le i False sv_find_append [OF i, of e] by (simp add: handleChunkTrailer_def)
    then show ?thesis using assms by simp
  qed
qed

lemmas handler_append = handleRequestLine_append handleHeaders_append handleBody_append
  handleChunkSize_append handleChunkData_append handleChunkDataCrlf_append handleChunkTrailer_append

lemma parser_step_append:
  assumes "parser_step d p r = (p', r', v)" and "v = None \<or> v = Some Complete"
  shows "parser_step (d @ e) p r = (p', r', v)"
  using assms handler_append by (cases "state p") (simp_all add: parser_step_def)

section \<open>Running the loop\<close>

lemma parse_Some: "parser_step d p r = (p', r', Some v) \<Longrightarrow> parse d p r = (p', r', v)"
  by (subst parse.simps) simp

lemma parse_None: "parser_step d p r = (p', r', None) \<Longrightarrow> parse d p r = parse d p' r'"
  by (subst parse.simps) simp

text \<open>
  Induction over a run: a property of the starting point that holds where a step returns, and that
  passes backwards over a step that continues.
\<close>

lemma parse_run_induct [consumes 1, case_names finish continue]:
  assumes run: "parse d p r = (p', r', v)"
    and fin: "\<And>p r. parser_step d p r = (p', r', Some v) \<Longrightarrow> P p r"
    and cont: "\<And>p r q s. parser_step d p r = (q, s, None) \<Longrightarrow> parse d q s = (p', r', v) \<Longrightarrow>
      P q s \<Longrightarrow> P p r"
  shows "P p r"
  using run
proof (induction "parse_measure d p" arbitrary: p r rule: less_induct)
  case less
  obtain q s w where st: "parser_step d p r = (q, s, w)"
    using prod_cases3 by blast
  show ?case
  proof (cases w)
    case None
    then have st: "parser_step d p r = (q, s, None)" using st by simp
    then have run: "parse d q s = (p', r', v)" using less.prems parse_None by metis
    have "parse_measure d q < parse_measure d p" using parser_step_decreases [OF st] by simp
    then have "P q s" using less.hyps run by blast
    then show ?thesis using cont st run by blast
  next
    case (Some u)
    then have "parse d p r = (q, s, u)" using st parse_Some by metis
    then show ?thesis using fin less.prems st Some by simp
  qed
qed

section \<open>Fragmented input\<close>

text \<open>
  A header section that has a blank line is never \<open>Incomplete\<close>: the scan either stops at the blank
  line or meets a malformed line.
\<close>

lemma find_from_at:
  assumes "prefix pat (drop i s)" "pos \<le> i" "i \<le> length s"
  shows "\<exists>j. sv_find_from pat s pos = Some j \<and> pos \<le> j \<and> j \<le> i \<and> prefix pat (drop j s)"
proof (cases "sv_find pat (drop pos s)")
  case None
  have "drop (i - pos) (drop pos s) = drop i s" using assms by simp
  then show ?thesis using sv_find_NoneD [OF None, of "i - pos"] assms by simp
next
  case (Some k)
  have "\<not> i - pos < k"
    using sv_find_SomeD [OF Some] assms by auto
  then show ?thesis
    using sv_find_SomeD [OF Some] Some assms by (auto simp: sv_find_from_def add.commute)
qed

lemma parseHeaders_loop_not_Incomplete:
  assumes "length d = e + 4" "prefix CRLF (drop e d)" "prefix CRLF (drop (e + 2) d)" "pos \<le> e + 2"
  shows "fst (parseHeaders_loop d pos n r) \<noteq> Incomplete"
  using assms
proof (induction d pos n r rule: parseHeaders_loop.induct)
  case (1 d pos n r)
  obtain j where j: "sv_find_from CRLF d pos = Some j" "pos \<le> j" "j \<le> e + 2" "prefix CRLF (drop j d)"
    and je: "pos \<le> e \<Longrightarrow> j \<le> e"
  proof -
    have "\<exists>j. sv_find_from CRLF d pos = Some j \<and> pos \<le> j \<and> j \<le> e + 2 \<and> prefix CRLF (drop j d)"
      using "1.prems" by (intro find_from_at) auto
    moreover have "\<exists>j. sv_find_from CRLF d pos = Some j \<and> pos \<le> j \<and> j \<le> e \<and> prefix CRLF (drop j d)"
      if "pos \<le> e" using "1.prems" that by (intro find_from_at) auto
    ultimately show thesis using that by (cases "pos \<le> e") auto
  qed
  have pos: "pos < length d" using "1.prems" by simp
  define line where "line = sv_substr d pos (j - pos)"
  show ?case
  proof (cases "pos \<le> e")
    case True
    then have "j + 2 \<le> e + 2" using je by simp
    then show ?thesis
      using "1.IH" [OF pos j(1)] "1.prems" pos j(1)
      by (subst parseHeaders_loop.simps) (auto simp: Let_def split: option.splits if_splits)
  next
    case False
    obtain x where "drop e d = CR # LF # x"
      using "1.prems" by (auto simp: prefix_def)
    then have "drop (e + 1) d = LF # x"
      by (simp add: drop_Suc flip: tl_drop)
    moreover have "pos = e + 1 \<and> j = e + 2 \<or> j = pos"
      using False j by auto
    ultimately have "line = [LF] \<or> j = pos"
      by (auto simp: line_def sv_substr_def)
    then have "sv_find '':'' line = None \<or> j = pos" by auto
    then show ?thesis
      using pos j(1) by (subst parseHeaders_loop.simps) (auto simp: line_def Let_def)
  qed
qed

lemma parseHeaders_not_Incomplete:
  assumes "sv_find CRLF2 s = Some e"
  shows "fst (parseHeaders (sv_substr s 0 (e + 4)) r) \<noteq> Incomplete"
proof -
  let ?d = "sv_substr s 0 (e + 4)"
  have d: "?d = take e s @ CRLF2"
  proof -
    have "take 4 (drop e s) = CRLF2"
      using sv_find_take_drop [OF assms] by (simp add: eval_nat_numeral)
    then show ?thesis by (simp add: sv_substr_def take_add)
  qed
  have "length (take e s) = e" using sv_find_bound [OF assms] by simp
  then show ?thesis
    unfolding parseHeaders_def by (intro parseHeaders_loop_not_Incomplete [of _ e]) (simp_all add: d)
qed

text \<open>Copying nothing changes nothing, so the conditional update of the source can be unconditional.\<close>

lemma handleChunkData_alt:
  assumes "consumed p \<le> length d"
  shows "handleChunkData d p r =
    (let k = min (length d - consumed p) (unat (chunkSize p) - chunkBytesRead p);
         p' = p\<lparr>body := body p @ sv_substr d (consumed p) k, consumed := consumed p + k,
                chunkBytesRead := chunkBytesRead p + k\<rparr> in
     if chunkBytesRead p' < unat (chunkSize p') then (p', r, Some Incomplete)
     else (p'\<lparr>state := StChunkDataCrlf\<rparr>, r, None))"
  using assms by (auto simp: handleChunkData_def Let_def sv_substr_def)

lemma handleChunkData_resume:
  assumes "handleChunkData d p r = (p', r', Some Incomplete)"
  shows "r' = r \<and> state p' = state p \<and> handleChunkData (d @ e) p' r = handleChunkData (d @ e) p r"
proof -
  have le: "consumed p \<le> length d"
    using assms by (auto simp: handleChunkData_def parser_fail_def split: if_splits)
  define a where "a = length d - consumed p"
  define m where "m = unat (chunkSize p) - chunkBytesRead p"
  have am: "a < m" and r': "r' = r"
    and p': "p' = p\<lparr>body := body p @ sv_substr d (consumed p) a, consumed := length d,
        chunkBytesRead := chunkBytesRead p + a\<rparr>"
    using assms le unfolding handleChunkData_alt [OF le] by (auto simp: Let_def a_def m_def min_def split: if_splits)
  define b where "b = min (length e) (m - a)"
  have k1: "min (length (d @ e) - consumed p) (unat (chunkSize p) - chunkBytesRead p) = a + b"
    using le am by (auto simp: a_def b_def m_def)
  have k2: "min (length (d @ e) - consumed p') (unat (chunkSize p') - chunkBytesRead p') = b"
    by (simp add: p' b_def m_def)
  have sub: "sv_substr (d @ e) (consumed p) (a + b) =
      sv_substr d (consumed p) a @ sv_substr (d @ e) (length d) b"
    using le by (simp add: sv_substr_def a_def take_add)
  have c: "consumed p + (a + b) = length d + b"
    using le by (simp add: a_def)
  have le2: "consumed p \<le> length (d @ e)" "consumed p' \<le> length (d @ e)"
    using le by (simp_all add: p')
  have "handleChunkData (d @ e) p' r = handleChunkData (d @ e) p r"
    unfolding handleChunkData_alt [OF le2(1)] handleChunkData_alt [OF le2(2)] k1 k2
    by (simp add: Let_def sub c p' add.assoc)
  then show ?thesis using r' by (simp add: p')
qed

lemma parser_step_resume:
  assumes "parser_step d p r = (p', r', Some Incomplete)"
  shows "r' = r \<and> parser_step (d @ e) p' r' = parser_step (d @ e) p r"
proof (cases "state p = StChunkData")
  case True
  then show ?thesis
    using assms handleChunkData_resume [of d p r p' r' e] by (auto simp: parser_step_def)
next
  case False
  then have "p' = p \<and> r' = r"
    using assms parseRequestLine_not_Incomplete [of "drop (consumed p) d" _ r]
      parseHeaders_not_Incomplete [of "drop (consumed p) d" _ r]
    by (cases "state p") (auto simp: parser_step_def handler_defs select_framing_def parser_fail_def Let_def
        split: if_splits option.splits prod.splits ParseResult.splits)
  then show ?thesis by simp
qed

lemma parse_cong_step: "parser_step d p r = parser_step d q s \<Longrightarrow> parse d p r = parse d q s"
  by (subst (1 2) parse.simps) simp

lemma parse_resume:
  assumes "parse d p r = (p', r', Incomplete)"
  shows "parse (d @ e) p' r' = parse (d @ e) p r"
  using assms
proof (induction rule: parse_run_induct)
  case (finish p r)
  then show ?case using parser_step_resume parse_cong_step by blast
next
  case (continue p r q s)
  have "parser_step (d @ e) p r = (q, s, None)"
    using continue(1) by (intro parser_step_append) auto
  then show ?case using continue(3) parse_None by metis
qed

lemma parse_append_Complete:
  assumes "parse d p r = (p', r', Complete)"
  shows "parse (d @ e) p r = (p', r', Complete)"
  using assms
proof (induction rule: parse_run_induct)
  case (finish p r)
  then have "parser_step (d @ e) p r = (p', r', Some Complete)"
    by (intro parser_step_append) auto
  then show ?case by (rule parse_Some)
next
  case (continue p r q s)
  have "parser_step (d @ e) p r = (q, s, None)"
    using continue(1) by (intro parser_step_append) auto
  then show ?case using continue(3) parse_None by metis
qed

section \<open>What a completed request satisfies\<close>

text \<open>
  The parser's invariant: the counters stay inside the buffer and the body limit, the size
  subtraction of \<open>handleChunkData\<close> cannot wrap, and what has been put into the request fits the
  state. It holds between any two calls, for whatever bytes arrive next.
\<close>

definition valid_field :: "string \<times> string \<Rightarrow> bool" where
  "valid_field f \<longleftrightarrow> isValidHeaderName (fst f) \<and> isValidHeaderValue (snd f) \<and> ows_trimmed (snd f)"

definition add_fields :: "'j HttpRequest \<Rightarrow> (string \<times> string) list \<Rightarrow> 'j HttpRequest" where
  "add_fields r fs = r\<lparr>rq_headers := (rq_headers r)\<lparr>headers := headers (rq_headers r) @ fs\<rparr>\<rparr>"

definition line_ok :: "'j HttpRequest \<Rightarrow> bool" where
  "line_ok r \<longleftrightarrow> rq_method r \<noteq> UNKNOWN \<and> rq_version r = ''HTTP/1.1'' \<and> rq_target r \<noteq> [] \<and>
     rq_path r = takeWhile (\<lambda>c. c \<noteq> CHR ''?'') (rq_target r)"

definition fields_ok :: "'j HttpRequest \<Rightarrow> bool" where
  "fields_ok r \<longleftrightarrow> list_all valid_field (headers (rq_headers r)) \<and>
     length (headers (rq_headers r)) \<le> MAX_HEADERS"

definition chunked_framing :: "'j HttpRequest \<Rightarrow> bool" where
  "chunked_framing r \<longleftrightarrow> req_header r ''Content-Length'' = [] \<and>
     equalsIgnoreCase (trimOws (req_header r ''Transfer-Encoding'')) ''chunked''"

definition length_framing :: "'j HttpRequest \<Rightarrow> nat \<Rightarrow> bool" where
  "length_framing r n \<longleftrightarrow> req_header r ''Transfer-Encoding'' = [] \<and>
     req_header r ''Content-Length'' \<noteq> [] \<and> list_all isdigit (req_header r ''Content-Length'') \<and>
     dec_val (req_header r ''Content-Length'') = n"

definition no_framing :: "'j HttpRequest \<Rightarrow> bool" where
  "no_framing r \<longleftrightarrow> req_header r ''Transfer-Encoding'' = [] \<and> req_header r ''Content-Length'' = []"

definition body_framed :: "'j HttpRequest \<Rightarrow> bool" where
  "body_framed r \<longleftrightarrow> length (rq_body r) \<le> MAX_BODY_SIZE \<and>
     (chunked_framing r \<or> length_framing r (length (rq_body r)) \<or> no_framing r \<and> rq_body r = [])"

definition parser_inv :: "string \<Rightarrow> HttpParser \<Rightarrow> 'j HttpRequest \<Rightarrow> bool" where
  "parser_inv data p r \<longleftrightarrow> consumed p \<le> length data \<and>
     (case state p of
        StRequestLine \<Rightarrow> True
      | StHeaders \<Rightarrow> line_ok r \<and> rq_headers r = empty_headers
      | StBody \<Rightarrow> line_ok r \<and> fields_ok r \<and> length_framing r (unat (bodySize p)) \<and>
          unat (bodySize p) \<le> MAX_BODY_SIZE
      | StChunkSize \<Rightarrow> line_ok r \<and> fields_ok r \<and> chunked_framing r \<and> length (body p) \<le> MAX_BODY_SIZE
      | StChunkData \<Rightarrow> line_ok r \<and> fields_ok r \<and> chunked_framing r \<and>
          chunkBytesRead p \<le> unat (chunkSize p) \<and>
          length (body p) + (unat (chunkSize p) - chunkBytesRead p) \<le> MAX_BODY_SIZE
      | StChunkDataCrlf \<Rightarrow> line_ok r \<and> fields_ok r \<and> chunked_framing r \<and>
          length (body p) \<le> MAX_BODY_SIZE
      | StChunkTrailer \<Rightarrow> line_ok r \<and> fields_ok r \<and> chunked_framing r \<and>
          length (body p) \<le> MAX_BODY_SIZE
      | StComplete \<Rightarrow> line_ok r \<and> fields_ok r \<and> body_framed r
      | StError \<Rightarrow> True)"

lemma sv_find_takeWhile: "sv_find [c] s = Some i \<Longrightarrow> take i s = takeWhile (\<lambda>x. x \<noteq> c) s"
proof (induction s arbitrary: i)
  case (Cons a s)
  then show ?case by (auto split: if_splits)
qed simp

lemma add_query_pair_frame:
  "rq_method (add_query_pair q r) = rq_method r" "rq_target (add_query_pair q r) = rq_target r"
  "rq_version (add_query_pair q r) = rq_version r" "rq_path (add_query_pair q r) = rq_path r"
  "rq_headers (add_query_pair q r) = rq_headers r" "rq_body (add_query_pair q r) = rq_body r"
  by (auto simp: add_query_pair_def req_addQuery_def split: option.splits)

lemma parseQuery_loop_frame:
  "rq_method (parseQuery_loop qs n r) = rq_method r \<and> rq_target (parseQuery_loop qs n r) = rq_target r \<and>
   rq_version (parseQuery_loop qs n r) = rq_version r \<and> rq_path (parseQuery_loop qs n r) = rq_path r \<and>
   rq_headers (parseQuery_loop qs n r) = rq_headers r \<and> rq_body (parseQuery_loop qs n r) = rq_body r"
proof (induction qs n r rule: parseQuery_loop.induct)
  case (1 qs n r)
  then show ?case
    by (subst (1 2 3 4 5 6) parseQuery_loop.simps) (auto simp: add_query_pair_frame split: option.split)
qed

lemma store_request_line_ok:
  assumes "r = store_request_line m t v"
  shows "rq_method r = m" "rq_target r = t" "rq_version r = v"
    "rq_path r = takeWhile (\<lambda>c. c \<noteq> CHR ''?'') t" "rq_headers r = empty_headers"
proof -
  define r1 :: "'a HttpRequest" where
    "r1 = req_setPath (make_request m t v) (takeWhile (\<lambda>c. c \<noteq> CHR ''?'') t)"
  have "\<exists>qs. r = r1 \<or> r = parseQuery_loop qs 0 r1"
  proof (cases "sv_find ''?'' t")
    case None
    then have *: "takeWhile (\<lambda>c. c \<noteq> CHR ''?'') t = t"
      by (auto simp: sv_find_char_None takeWhile_eq_all_conv)
    show ?thesis unfolding r1_def * assms using None by (simp add: store_request_line_def)
  next
    case (Some q)
    then show ?thesis using sv_find_takeWhile [OF Some]
      by (auto simp: assms store_request_line_def r1_def sv_substr_def Let_def)
  qed
  then show "rq_method r = m" "rq_target r = t" "rq_version r = v"
    "rq_path r = takeWhile (\<lambda>c. c \<noteq> CHR ''?'') t" "rq_headers r = empty_headers"
    by (auto simp: parseQuery_loop_frame r1_def make_request_def req_setPath_def)
qed

lemma parseRequestLine_Complete:
  assumes "parseRequestLine d r = (Complete, r')"
  shows "line_ok r' \<and> rq_headers r' = empty_headers"
proof -
  obtain m t v where "r' = store_request_line m t v" "m \<noteq> UNKNOWN" "t \<noteq> []" "v = ''HTTP/1.1''"
    using assms unfolding parseRequestLine_def Let_def
    by (auto split: option.splits if_splits)
  then show ?thesis
    using store_request_line_ok [of r' m t v] by (simp add: line_ok_def)
qed

lemma add_fields_Nil [simp]: "add_fields r [] = r"
  by (simp add: add_fields_def)

lemma add_fields_addHeader: "add_fields (req_addHeader r n v) fs = add_fields r ((n, v) # fs)"
  by (simp add: add_fields_def req_addHeader_def hdr_add_def)

lemma parseHeaders_loop_Complete:
  assumes "parseHeaders_loop d pos n r = (Complete, r')" and "n \<le> MAX_HEADERS"
  shows "\<exists>fs. r' = add_fields r fs \<and> list_all valid_field fs \<and> n + length fs \<le> MAX_HEADERS"
  using assms
proof (induction d pos n r rule: parseHeaders_loop.induct)
  case (1 d pos n r)
  have pos: "pos < length d"
    using "1.prems" by (subst (asm) parseHeaders_loop.simps) (auto split: if_splits)
  obtain j where j: "sv_find_from CRLF d pos = Some j"
    using "1.prems" pos by (subst (asm) parseHeaders_loop.simps) (auto split: option.splits)
  show ?case
  proof (cases "j = pos")
    case True
    then have "r' = r"
      using "1.prems" pos j by (subst (asm) parseHeaders_loop.simps) simp
    then show ?thesis using "1.prems" by (intro exI [of _ "[]"]) simp
  next
    case False
    define line where "line = sv_substr d pos (j - pos)"
    obtain c where c: "sv_find '':'' line = Some c"
      using "1.prems" pos j False
      by (subst (asm) parseHeaders_loop.simps) (auto simp: line_def Let_def split: option.splits)
    define name where "name = sv_substr line 0 c"
    define v where "v = trimOws (drop (c + 1) line)"
    have ok: "isValidHeaderName name" "isValidHeaderValue v" "n + 1 \<le> MAX_HEADERS"
      and rec: "parseHeaders_loop d (j + 2) (n + 1) (req_addHeader r name v) = (Complete, r')"
      and cl: "\<not> (equalsIgnoreCase name ''Content-Length'' \<and> req_header r ''Content-Length'' \<noteq> [] \<and>
        req_header r ''Content-Length'' \<noteq> v)"
      using "1.prems" pos j False c
      by (subst (asm) parseHeaders_loop.simps;
          simp add: name_def v_def line_def Let_def split: if_splits)+
    obtain fs where fs: "r' = add_fields (req_addHeader r name v) fs" "list_all valid_field fs"
      "n + 1 + length fs \<le> MAX_HEADERS"
      using "1.IH" [OF pos j False line_def c name_def v_def] ok cl rec by auto
    have "valid_field (name, v)"
      using ok by (simp add: valid_field_def v_def trimOws_trimmed)
    then show ?thesis
      using fs by (intro exI [of _ "(name, v) # fs"]) (simp add: add_fields_addHeader)
  qed
qed

text \<open>Setting the body leaves the line, the fields and the framing headers alone.\<close>

lemma setBody_frame [simp]:
  "line_ok (req_setBody r b) \<longleftrightarrow> line_ok r" "fields_ok (req_setBody r b) \<longleftrightarrow> fields_ok r"
  "chunked_framing (req_setBody r b) \<longleftrightarrow> chunked_framing r"
  "length_framing (req_setBody r b) n \<longleftrightarrow> length_framing r n"
  "no_framing (req_setBody r b) \<longleftrightarrow> no_framing r" "rq_body (req_setBody r b) = b"
  "req_header (req_setBody r b) h = req_header r h"
  by (simp_all add: req_setBody_def line_ok_def fields_ok_def chunked_framing_def length_framing_def
      no_framing_def req_header_def)

definition verdict_ok :: "HttpParser \<Rightarrow> ParseResult option \<Rightarrow> bool" where
  "verdict_ok p v \<longleftrightarrow>
     (v = Some Complete \<longrightarrow> state p = StComplete) \<and> (v = Some Invalid \<longrightarrow> state p = StError) \<and>
     (v = Some Incomplete \<longrightarrow> state p \<noteq> StComplete \<and> state p \<noteq> StError)"

lemma parser_fail_inv:
  "consumed p \<le> length d \<Longrightarrow> parser_fail p r = (p', r', v) \<Longrightarrow> parser_inv d p' r' \<and> verdict_ok p' v"
  by (auto simp: parser_fail_def parser_inv_def verdict_ok_def)

lemma select_framing_inv:
  assumes ok: "line_ok r" "fields_ok r" "consumed p \<le> length d"
    and sf: "select_framing p r = (p', r', v)"
  shows "parser_inv d p' r' \<and> verdict_ok p' v"
proof -
  define cl where "cl = req_header r ''Content-Length''"
  define te where "te = req_header r ''Transfer-Encoding''"
  obtain k n where kn: "parseContentLength cl 0 = (k, n)" by fastforce
  consider "cl \<noteq> []" "te \<noteq> []" | "cl = []" "te \<noteq> []" | "cl = []" "te = []" | "cl \<noteq> []" "te = []"
    by blast
  then show ?thesis
  proof cases
    case 1
    then show ?thesis using sf ok parser_fail_inv [of p d r p' r' v]
      by (auto simp: select_framing_def Let_def cl_def te_def)
  next
    case 2
    then show ?thesis using sf ok parser_fail_inv [of p d r p' r' v]
      by (auto simp: select_framing_def Let_def cl_def te_def parser_inv_def verdict_ok_def
          chunked_framing_def split: if_splits)
  next
    case 3
    then show ?thesis using sf ok
      by (auto simp: select_framing_def Let_def cl_def te_def parser_inv_def verdict_ok_def
          body_framed_def no_framing_def)
  next
    case 4
    have fr: "length_framing r (unat n)" if k
      using kn that 4 parseContentLength_True_iff [of cl 0 n]
      by (simp add: length_framing_def cl_def te_def)
    show ?thesis
      using sf ok 4 fr kn parser_fail_inv [of "p\<lparr>bodySize := n\<rparr>" d r p' r' v]
      by (auto simp: select_framing_def Let_def cl_def te_def parser_inv_def verdict_ok_def
          body_framed_def split: if_splits)
  qed
qed

lemma handleRequestLine_inv:
  assumes "parser_inv d p r" "state p = StRequestLine" "handleRequestLine d p r = (p', r', v)"
  shows "parser_inv d p' r' \<and> verdict_ok p' v"
proof -
  have le: "consumed p \<le> length d" using assms by (simp add: parser_inv_def)
  show ?thesis
    using assms le parser_fail_inv [OF le]
    by (auto simp: handleRequestLine_def Let_def parser_inv_def verdict_ok_def
        split: if_splits option.splits prod.splits ParseResult.splits
        dest: drop_find_bound parseRequestLine_Complete)
qed

lemma handleHeaders_inv:
  assumes "parser_inv d p r" "state p = StHeaders" "handleHeaders d p r = (p', r', v)"
  shows "parser_inv d p' r' \<and> verdict_ok p' v"
proof -
  have le: "consumed p \<le> length d" and r: "line_ok r" "rq_headers r = empty_headers"
    using assms by (simp_all add: parser_inv_def)
  have hd: "line_ok s \<and> fields_ok s" if h: "parseHeaders x r = (Complete, s)" for x s
  proof -
    obtain fs where "s = add_fields r fs" "list_all valid_field fs" "length fs \<le> MAX_HEADERS"
      using parseHeaders_loop_Complete [of x 0 0 r s] h by (auto simp: parseHeaders_def)
    then show ?thesis
      using r by (simp add: add_fields_def line_ok_def fields_ok_def empty_headers_def)
  qed
  have hs: "parser_inv d p' r' \<and> verdict_ok p' v"
    if "select_framing (p\<lparr>consumed := consumed p + i + 4\<rparr>) s = (p', r', v)"
      "parseHeaders x r = (Complete, s)" "consumed p + i + 4 \<le> length d" for i s x
    using that hd [OF that(2)] by (intro select_framing_inv) auto
  show ?thesis
  proof (cases "sv_find CRLF2 (drop (consumed p) d)")
    case None
    then show ?thesis
      using assms le
      by (auto simp: handleHeaders_def Let_def verdict_ok_def dest: parser_fail_inv [OF le]
          split: if_splits)
  next
    case (Some i)
    then have "consumed p + i + 4 \<le> length d" using drop_find_bound [OF Some le] by simp
    then show ?thesis
      using assms le Some hs parseHeaders_not_Incomplete [OF Some, of r]
      by (auto simp: handleHeaders_def dest: parser_fail_inv [OF le]
          split: if_splits prod.splits ParseResult.splits)
  qed
qed

lemma handleBody_inv:
  assumes "parser_inv d p r" "state p = StBody" "handleBody d p r = (p', r', v)"
  shows "parser_inv d p' r' \<and> verdict_ok p' v"
  using assms by (auto simp: handleBody_def parser_inv_def Let_def verdict_ok_def body_framed_def
      sv_substr_def split: if_splits)

lemma handleChunkSize_inv:
  assumes "parser_inv d p r" "state p = StChunkSize" "handleChunkSize d p r = (p', r', v)"
  shows "parser_inv d p' r' \<and> verdict_ok p' v"
proof -
  have le: "consumed p \<le> length d" using assms by (simp add: parser_inv_def)
  show ?thesis
  proof (cases "sv_find CRLF (drop (consumed p) d)")
    case None
    then show ?thesis
      using assms le parser_fail_inv [OF le]
      by (auto simp: handleChunkSize_def Let_def verdict_ok_def split: if_splits)
  next
    case (Some i)
    then have "consumed p + i + 2 \<le> length d" using drop_find_bound [OF Some le] by simp
    then show ?thesis
      using assms le Some
      by (auto simp: handleChunkSize_def Let_def parser_inv_def verdict_ok_def parser_fail_def
          split: if_splits prod.splits)
  qed
qed

lemma handleChunkData_inv:
  assumes "parser_inv d p r" "state p = StChunkData" "handleChunkData d p r = (p', r', v)"
  shows "parser_inv d p' r' \<and> verdict_ok p' v"
proof -
  have le: "consumed p \<le> length d" using assms by (simp add: parser_inv_def)
  show ?thesis
    using assms unfolding handleChunkData_alt [OF le]
    by (auto simp: parser_inv_def Let_def verdict_ok_def sv_substr_def min_def split: if_splits)
qed

lemma handleChunkDataCrlf_inv:
  assumes "parser_inv d p r" "state p = StChunkDataCrlf" "handleChunkDataCrlf d p r = (p', r', v)"
  shows "parser_inv d p' r' \<and> verdict_ok p' v"
  using assms by (auto simp: handleChunkDataCrlf_def parser_inv_def parser_fail_def verdict_ok_def
      split: if_splits)

lemma handleChunkTrailer_inv:
  assumes "parser_inv d p r" "state p = StChunkTrailer" "handleChunkTrailer d p r = (p', r', v)"
  shows "parser_inv d p' r' \<and> verdict_ok p' v"
proof -
  have le: "consumed p \<le> length d" using assms by (simp add: parser_inv_def)
  have "prefix CRLF (drop (consumed p) d) \<Longrightarrow> consumed p + 2 \<le> length d"
    using le by (auto dest!: prefix_length_le)
  moreover have "sv_find CRLF2 (drop (consumed p) d) = Some i \<Longrightarrow> consumed p + i + 4 \<le> length d" for i
    using drop_find_bound [OF _ le] by fastforce
  ultimately show ?thesis
    using assms le
    by (auto simp: handleChunkTrailer_def Let_def parser_inv_def verdict_ok_def body_framed_def
        parser_fail_def split: if_splits option.splits)
qed

lemmas handler_inv = handleRequestLine_inv handleHeaders_inv handleBody_inv handleChunkSize_inv
  handleChunkData_inv handleChunkDataCrlf_inv handleChunkTrailer_inv

lemma parser_step_inv:
  assumes "parser_inv d p r" "parser_step d p r = (p', r', v)"
  shows "parser_inv d p' r' \<and> verdict_ok p' v"
proof (cases "state p = StComplete \<or> state p = StError")
  case True
  then show ?thesis using assms by (auto simp: parser_step_def verdict_ok_def)
next
  case False
  then show ?thesis
    using assms handler_inv [OF assms(1)] by (cases "state p") (simp_all add: parser_step_def)
qed

lemma parse_inv:
  assumes "parse d p r = (p', r', v)" and "parser_inv d p r"
  shows "parser_inv d p' r' \<and> verdict_ok p' (Some v)"
  using assms
proof (induction rule: parse_run_induct)
  case (finish p r)
  then show ?case using parser_step_inv by blast
next
  case (continue p r q s)
  then show ?case using parser_step_inv by blast
qed

lemma parser_inv_append: "parser_inv d p r \<Longrightarrow> parser_inv (d @ e) p r"
  by (auto simp: parser_inv_def split: ParserState.splits)

lemma parser_inv_new: "parser_inv d new_parser r"
  by (simp add: parser_inv_def new_parser_def)

lemma parser_reset_new: "parser_reset p = new_parser"
  by (simp add: parser_reset_def new_parser_def)

section \<open>Feeding a stream\<close>

text \<open>
  A connection appends every received fragment to its buffer and calls \<open>parse\<close> on the whole
  buffer with the same parser and request until the verdict is not \<open>Incomplete\<close>.
\<close>

fun feed :: "string \<Rightarrow> HttpParser \<Rightarrow> 'j HttpRequest \<Rightarrow> string list \<Rightarrow>
    HttpParser \<times> 'j HttpRequest \<times> ParseResult" where
  "feed buf p r [] = (p, r, Incomplete)"
| "feed buf p r (f # fs) =
     (case parse (buf @ f) p r of
        (p', r', Incomplete) \<Rightarrow> feed (buf @ f) p' r' fs
      | (p', r', v) \<Rightarrow> (p', r', v))"

lemma feed_not_Invalid:
  assumes "feed buf p r fs = (p', r', v)" "v \<noteq> Invalid" "fs \<noteq> []"
  shows "parse (buf @ concat fs) p r = (p', r', v)"
  using assms
proof (induction fs arbitrary: buf p r)
  case Nil
  then show ?case by simp
next
  case (Cons f fs)
  obtain q s w where qs: "parse (buf @ f) p r = (q, s, w)" using prod_cases3 by blast
  show ?case
  proof (cases w)
    case Complete
    then show ?thesis
      using qs Cons.prems parse_append_Complete [of "buf @ f" p r q s "concat fs"] by simp
  next
    case Invalid
    then show ?thesis using qs Cons.prems by simp
  next
    case Incomplete
    then have fd: "feed (buf @ f) q s fs = (p', r', v)" using qs Cons.prems by simp
    have res: "parse (buf @ f @ concat fs) p r = parse (buf @ f @ concat fs) q s"
      using parse_resume [of "buf @ f" p r q s "concat fs"] qs Incomplete by simp
    show ?thesis
    proof (cases "fs = []")
      case True
      then show ?thesis using fd qs Incomplete by simp
    next
      case False
      then show ?thesis using Cons.IH [OF fd Cons.prems(2) False] res by simp
    qed
  qed
qed

lemma feed_inv:
  assumes "feed buf p r fs = (p', r', v)" "parser_inv buf p r" "state p \<noteq> StComplete" "state p \<noteq> StError"
  shows "parser_inv (buf @ concat fs) p' r' \<and> verdict_ok p' (Some v)"
  using assms
proof (induction fs arbitrary: buf p r)
  case Nil
  then show ?case by (auto simp: verdict_ok_def)
next
  case (Cons f fs)
  obtain q s w where qs: "parse (buf @ f) p r = (q, s, w)" using prod_cases3 by blast
  have inv: "parser_inv (buf @ f) q s \<and> verdict_ok q (Some w)"
    using parse_inv [OF qs parser_inv_append [OF Cons.prems(2)]] .
  show ?case
  proof (cases "w = Incomplete")
    case True
    then have "feed (buf @ f) q s fs = (p', r', v)" using qs Cons.prems by simp
    then show ?thesis using Cons.IH [of "buf @ f" q s] inv True by (simp add: verdict_ok_def)
  next
    case False
    then have "p' = q" "r' = s" "v = w" using qs Cons.prems by (cases w; simp)+
    then show ?thesis using inv parser_inv_append [of "buf @ f" q s "concat fs"] by simp
  qed
qed

section \<open>Verdicts are final\<close>

lemma parse_Complete_final: "state p = StComplete \<Longrightarrow> parse d p r = (p, r, Complete)"
  by (rule parse_Some) (simp add: parser_step_def)

lemma parse_Error_final: "state p = StError \<Longrightarrow> parse d p r = (p, r, Invalid)"
  by (rule parse_Some) (simp add: parser_step_def)

lemma parser_step_state:
  assumes "parser_step d p r = (p', r', v)"
  shows "v = Some Invalid \<Longrightarrow> state p' = StError" and "v = Some Complete \<Longrightarrow> state p' = StComplete"
  using assms
  by (cases "state p"; auto simp: parser_step_def handler_defs select_framing_def parser_fail_def Let_def
      split: if_splits option.splits prod.splits ParseResult.splits)+

lemma parse_state:
  assumes "parse d p r = (p', r', v)"
  shows "(v = Invalid \<longrightarrow> state p' = StError) \<and> (v = Complete \<longrightarrow> state p' = StComplete)"
  using assms by (induction rule: parse_run_induct) (auto dest: parser_step_state)

end
