(* ===== verification/Http_Roundtrip.thy ===== *)
theory Http_Roundtrip
  imports Http_Parser
begin

text \<open>
  The parser inverts the wire format. The printers of this theory write a request the way a peer
  does (request line, header fields, body with \<open>Content-Length\<close> or in chunks); they are the
  reference the parser is compared with, not part of the program. The lemmas follow the parser
  state by state: the request line, the header section, the length-delimited body, each chunk and
  the last chunk.
\<close>

section \<open>Printing a request\<close>

fun method_name :: "HttpMethod \<Rightarrow> string" where
  "method_name GET = ''GET''"
| "method_name POST = ''POST''"
| "method_name PUT = ''PUT''"
| "method_name PATCH = ''PATCH''"
| "method_name DELETE = ''DELETE''"
| "method_name HEAD = ''HEAD''"
| "method_name OPTIONS = ''OPTIONS''"
| "method_name CONNECT = ''CONNECT''"
| "method_name TRACE = ''TRACE''"
| "method_name UNKNOWN = []"

definition request_line :: "HttpMethod \<Rightarrow> string \<Rightarrow> string" where
  "request_line m target = method_name m @ '' '' @ target @ '' HTTP/1.1''"

definition request_head :: "HttpMethod \<Rightarrow> string \<Rightarrow> (string \<times> string) list \<Rightarrow> string" where
  "request_head m target fs =
     request_line m target @ CRLF @ crlf_lines (map field_line fs) @ CRLF"

definition encode_chunk :: "string \<Rightarrow> string" where
  "encode_chunk c = to_hex (length c) @ CRLF @ c @ CRLF"

definition chunked_body :: "string list \<Rightarrow> string" where
  "chunked_body cs = concat (map encode_chunk cs) @ ''0'' @ CRLF @ CRLF"

text \<open>A request the limits of the parser admit.\<close>

definition printable_head :: "HttpMethod \<Rightarrow> string \<Rightarrow> (string \<times> string) list \<Rightarrow> bool" where
  "printable_head m target fs \<longleftrightarrow> m \<noteq> UNKNOWN \<and> target \<noteq> [] \<and> CHR '' '' \<notin> set target \<and>
     CR \<notin> set target \<and> length (request_line m target) \<le> MAX_REQUEST_LINE \<and>
     fs \<noteq> [] \<and> list_all valid_field fs \<and> length fs \<le> MAX_HEADERS \<and>
     length (crlf_lines (map field_line fs)) \<le> MAX_HEADER_SIZE"

definition request_with :: "HttpMethod \<Rightarrow> string \<Rightarrow> (string \<times> string) list \<Rightarrow> string \<Rightarrow> 'j HttpRequest" where
  "request_with m target fs b =
     req_setBody (add_fields (store_request_line m target ''HTTP/1.1'') fs) b"

section \<open>The request line\<close>

lemma parseMethod_name: "m \<noteq> UNKNOWN \<Longrightarrow> parseMethod (method_name m) = m"
  by (cases m) (simp_all add: parseMethod_def)

lemma method_name_clean: "CHR '' '' \<notin> set (method_name m)" "CR \<notin> set (method_name m)"
  "m \<noteq> UNKNOWN \<Longrightarrow> method_name m \<noteq> []"
  by (cases m; simp)+

lemma parseRequestLine_print:
  assumes "m \<noteq> UNKNOWN" "target \<noteq> []" "CHR '' '' \<notin> set target" "CR \<notin> set target"
    "length (request_line m target) \<le> MAX_REQUEST_LINE"
  shows "parseRequestLine (request_line m target @ CRLF @ x) r =
    (Complete, store_request_line m target ''HTTP/1.1'')"
proof -
  define line where "line = request_line m target"
  define k where "k = length (method_name m)"
  have split: "line = method_name m @ CHR '' '' # target @ CHR '' '' # ''HTTP/1.1''"
    by (simp add: line_def request_line_def)
  have 1: "sv_find CRLF (line @ CRLF @ x) = Some (length line)"
  proof -
    have "CR \<notin> set line" using assms method_name_clean by (simp add: split)
    then show ?thesis using sv_find_CRLF [of line x] by simp
  qed
  have 2: "sv_find '' '' line = Some k"
    using method_name_clean by (simp add: split k_def sv_find_char_append)
  have 3: "sv_find_from '' '' line (k + 1) = Some (k + 1 + length target)"
    using assms by (simp add: split k_def sv_find_from_def sv_find_char_append)
  have 4: "sv_find_from '' '' line (k + 1 + length target + 1) = None"
    by (simp add: split k_def sv_find_from_def)
  have "sv_substr (line @ CRLF @ x) 0 (length line) = line" by (simp add: sv_substr_def)
  moreover have "sv_substr line 0 k = method_name m"
    "sv_substr line (k + 1) (k + 1 + length target - k - 1) = target"
    "drop (k + 1 + length target + 1) line = ''HTTP/1.1''"
    by (simp_all add: split k_def sv_substr_def)
  ultimately show ?thesis
    using assms method_name_clean(3) [of m] parseMethod_name [of m] 1 2 3 4
    unfolding parseRequestLine_def line_def [symmetric] by (simp add: Let_def)
qed

lemma step_request_line:
  assumes "m \<noteq> UNKNOWN" "target \<noteq> []" "CHR '' '' \<notin> set target" "CR \<notin> set target"
    "length (request_line m target) \<le> MAX_REQUEST_LINE"
  shows "parser_step (request_line m target @ CRLF @ x) new_parser r =
    (new_parser\<lparr>consumed := length (request_line m target) + 2, state := StHeaders\<rparr>,
     store_request_line m target ''HTTP/1.1'', None)"
proof -
  have "CR \<notin> set (request_line m target)"
    using assms method_name_clean by (simp add: request_line_def)
  then have "sv_find CRLF (request_line m target @ CRLF @ x) = Some (length (request_line m target))"
    by (simp add: sv_find_CRLF)
  then show ?thesis
    using assms parseRequestLine_print [OF assms, of x r]
    by (simp add: parser_step_def new_parser_def handleRequestLine_def)
qed

section \<open>The header section\<close>

lemma field_line_nonempty [simp]: "field_line f \<noteq> []"
  by (simp add: field_line_def)

lemma field_line_clean: "valid_field f \<Longrightarrow> CR \<notin> set (field_line f)"
  by (auto simp: valid_field_def field_line_def dest: valid_name_clean valid_value_clean)

lemma trimOws_space: "ows_trimmed v \<Longrightarrow> trimOws (CHR '' '' # v) = v"
  using trimOws_surround [of "'' ''" "[]" v] by (simp add: is_ows_def)

text \<open>All \<open>Content-Length\<close> fields agree with each other and with what is stored.\<close>

definition cl_agree :: "string \<Rightarrow> (string \<times> string) list \<Rightarrow> bool" where
  "cl_agree v fs \<longleftrightarrow> (\<forall>f \<in> set fs. equalsIgnoreCase (fst f) ''Content-Length'' \<longrightarrow> snd f = v)"

lemma req_header_addHeader_cases:
  "req_header (req_addHeader r n v) m = req_header r m \<or>
     equalsIgnoreCase n m \<and> req_header (req_addHeader r n v) m = v"
  by (cases "hdr_contains (rq_headers r) m")
    (auto simp: message_header_defs hs.get_add_present hs.get_add_absent hs.get_absent)

lemma parseHeaders_loop_lines:
  assumes "list_all valid_field fs" "n + length fs \<le> MAX_HEADERS" "cl_agree v fs"
    "req_header r ''Content-Length'' = [] \<or> req_header r ''Content-Length'' = v"
  shows "parseHeaders_loop (pre @ crlf_lines (map field_line fs) @ CRLF @ x) (length pre) n r =
    (Complete, add_fields r fs)"
  using assms
proof (induction fs arbitrary: pre n r)
  case Nil
  have "sv_find_from CRLF (pre @ CRLF @ x) (length pre) = Some (length pre)"
    by (simp add: sv_find_from_def)
  then show ?case by (subst parseHeaders_loop.simps) simp
next
  case (Cons f fs)
  obtain name w where f: "f = (name, w)" by (cases f)
  have vf: "isValidHeaderName name" "isValidHeaderValue w" "ows_trimmed w"
    using Cons.prems by (simp_all add: f valid_field_def)
  define line where "line = field_line f"
  define d where "d = pre @ crlf_lines (map field_line (f # fs)) @ CRLF @ x"
  define pre' where "pre' = pre @ line @ CRLF"
  have d: "d = pre @ line @ CRLF @ crlf_lines (map field_line fs) @ CRLF @ x"
    "d = pre' @ crlf_lines (map field_line fs) @ CRLF @ x"
    by (simp_all add: d_def line_def pre'_def crlf_lines_Cons)
  have line: "line \<noteq> []" "CR \<notin> set line" "line = name @ CHR '':'' # CHR '' '' # w"
    using Cons.prems field_line_clean [of f] by (simp_all add: line_def f field_line_def)
  have find: "sv_find_from CRLF d (length pre) = Some (length pre + length line)"
    using sv_find_CRLF [OF line(2)] by (simp add: d(1) sv_find_from_def)
  have colon: "sv_find '':'' line = Some (length name)"
    using valid_name_clean(2) [OF vf(1)] by (simp add: line(3) sv_find_char_append)
  have sub: "sv_substr d (length pre) (length pre + length line - length pre) = line"
    by (simp add: d(1) sv_substr_def)
  have nv: "sv_substr line 0 (length name) = name" "trimOws (drop (length name + 1) line) = w"
    using vf by (simp_all add: line(3) sv_substr_def trimOws_space)
  have lt: "length pre < length d" by (simp add: d(1))
  have agree: "equalsIgnoreCase name ''Content-Length'' \<longrightarrow> w = v" "cl_agree v fs"
    using Cons.prems by (auto simp: cl_agree_def f)
  have "parseHeaders_loop d (length pre) n r =
      parseHeaders_loop d (length pre + length line + 2) (n + 1) (req_addHeader r name w)"
    using lt find colon sub nv vf line Cons.prems agree(1)
    by (subst parseHeaders_loop.simps) (auto simp: Let_def)
  also have "length pre + length line + 2 = length pre'" by (simp add: pre'_def)
  also have "parseHeaders_loop d (length pre') (n + 1) (req_addHeader r name w) =
      (Complete, add_fields (req_addHeader r name w) fs)"
    unfolding d(2)
    using Cons.prems agree req_header_addHeader_cases [of r name w "''Content-Length''"]
    by (intro Cons.IH) auto
  finally show ?case by (simp add: d_def add_fields_addHeader f)
qed

lemma step_headers:
  assumes "fs \<noteq> []" "list_all valid_field fs" "length fs \<le> MAX_HEADERS" "cl_agree v fs"
    "length (crlf_lines (map field_line fs)) \<le> MAX_HEADER_SIZE"
    "req_header r ''Content-Length'' = []" "state p = StHeaders" "consumed p = length pre"
  shows "parser_step (pre @ crlf_lines (map field_line fs) @ CRLF @ x) p r =
    select_framing (p\<lparr>consumed := length pre + length (crlf_lines (map field_line fs)) + 2\<rparr>)
      (add_fields r fs)"
proof -
  define ls where "ls = crlf_lines (map field_line fs)"
  obtain f gs where fs: "fs = f # gs" using assms by (cases fs) auto
  have "sv_find CRLF2 (ls @ CRLF @ x) = Some (length ls - 2)"
    unfolding ls_def fs list.map using assms(2)
    by (intro sv_find_CRLF2_lines) (auto simp: fs list_all_iff field_line_clean)
  moreover have "length ls - 2 + 4 = length ls + 2"
    by (simp add: ls_def fs crlf_lines_Cons)
  moreover have "sv_substr (ls @ CRLF @ x) 0 (length ls + 2) = ls @ CRLF"
    by (simp add: sv_substr_def)
  moreover have "parseHeaders (ls @ CRLF) r = (Complete, add_fields r fs)"
    using parseHeaders_loop_lines [of fs 0 v r "[]" "[]"] assms
    by (simp add: parseHeaders_def ls_def)
  ultimately show ?thesis
    using assms(5,7,8) unfolding ls_def [symmetric]
    by (simp add: parser_step_def handleHeaders_def add.assoc)
qed

lemma parse_head:
  assumes "printable_head m target fs" "cl_agree v fs"
  shows "parse (request_head m target fs @ x) new_parser r =
    (case select_framing (new_parser\<lparr>state := StHeaders, consumed := length (request_head m target fs)\<rparr>)
        (add_fields (store_request_line m target ''HTTP/1.1'') fs) of
       (p', r', Some result) \<Rightarrow> (p', r', result)
     | (p', r', None) \<Rightarrow> parse (request_head m target fs @ x) p' r')"
proof -
  define pre where "pre = request_line m target @ CRLF"
  define d where "d = request_head m target fs @ x"
  define r1 :: "'a HttpRequest" where "r1 = store_request_line m target ''HTTP/1.1''"
  have d: "d = pre @ crlf_lines (map field_line fs) @ CRLF @ x"
    by (simp add: d_def pre_def request_head_def)
  have s1: "parser_step d new_parser r =
      (new_parser\<lparr>consumed := length pre, state := StHeaders\<rparr>, r1, None)"
    using assms step_request_line [of m target "crlf_lines (map field_line fs) @ CRLF @ x" r]
    by (simp add: printable_head_def d pre_def r1_def)
  have "req_header r1 ''Content-Length'' = []"
    using store_request_line_ok(5) [OF r1_def]
    by (simp add: req_header_def empty_headers_def hdr_get_def)
  then have s2: "parser_step d (new_parser\<lparr>consumed := length pre, state := StHeaders\<rparr>) r1 =
      select_framing (new_parser\<lparr>state := StHeaders, consumed := length (request_head m target fs)\<rparr>)
        (add_fields r1 fs)"
    using assms step_headers [of fs v r1 "new_parser\<lparr>consumed := length pre, state := StHeaders\<rparr>" pre x]
    by (simp add: printable_head_def d request_head_def pre_def)
  show ?thesis
    unfolding d_def [symmetric] r1_def [symmetric]
    by (subst parse_None [OF s1], subst parse.simps) (simp add: s2)
qed

section \<open>A body with a declared length\<close>

lemma req_header_add_fields:
  "rq_headers r = empty_headers \<Longrightarrow> req_header (add_fields r fs) h = hdr_get_loop fs h"
  by (simp add: req_header_def add_fields_def hdr_get_def empty_headers_def)

lemma req_header_printed:
  "req_header (add_fields (store_request_line m t v) fs) h = hdr_get_loop fs h"
  by (rule req_header_add_fields) (rule store_request_line_ok(5) [OF refl])

lemma add_fields_setBody: "add_fields (req_setBody r b) fs = req_setBody (add_fields r fs) b"
  by (simp add: add_fields_def req_setBody_def)

lemma MAX_BODY_SIZE_less: "n \<le> MAX_BODY_SIZE \<Longrightarrow> n < 2 ^ 64"
  by (simp add: MAX_BODY_SIZE_def)

lemma size_of_small:
  assumes "n \<le> MAX_BODY_SIZE"
  shows "\<exists>w. w = (of_nat n :: size_t) \<and> unat w = n \<and> (w = 0 \<longleftrightarrow> n = 0)"
proof -
  have n: "n < 2 ^ 64" using assms by (rule MAX_BODY_SIZE_less)
  have "of_nat n = (0 :: size_t) \<longleftrightarrow> n = 0" using of_nat_eq_size_iff [OF n, of 0] by auto
  then show ?thesis using unat_of_nat_size [OF n] by blast
qed

lemma parse_length_request:
  assumes head: "printable_head m target fs"
    and cl: "cl_agree (to_string (length b)) fs"
      "hdr_get_loop fs ''Content-Length'' = to_string (length b)"
    and te: "hdr_get_loop fs ''Transfer-Encoding'' = []"
    and b: "length b \<le> MAX_BODY_SIZE"
  shows "\<exists>p'. parse (request_head m target fs @ b @ x) new_parser r =
      (p', request_with m target fs b, Complete) \<and>
    consumedBytes p' = length (request_head m target fs @ b)"
proof -
  define d where "d = request_head m target fs @ b @ x"
  define p0 where
    "p0 = new_parser\<lparr>state := StHeaders, consumed := length (request_head m target fs)\<rparr>"
  define r0 :: "'a HttpRequest" where
    "r0 = add_fields (store_request_line m target ''HTTP/1.1'') fs"
  obtain w where w: "w = (of_nat (length b) :: size_t)" "unat w = length b" "w = 0 \<longleftrightarrow> b = []"
    using size_of_small [OF b] by auto
  have pc: "parseContentLength (to_string (length b)) 0 = (True, w)"
    unfolding w(1) using b by (intro parseContentLength_to_string MAX_BODY_SIZE_less)
  have sf: "select_framing p0 r0 =
      (if b = [] then (p0\<lparr>bodySize := w, state := StComplete\<rparr>, req_setBody r0 [], Some Complete)
       else (p0\<lparr>bodySize := w, state := StBody\<rparr>, r0, None))"
    using cl te b pc by (simp add: select_framing_def r0_def req_header_printed w(2,3))
  have run: "parse d new_parser r =
      (case select_framing p0 r0 of (p', r', Some result) \<Rightarrow> (p', r', result)
       | (p', r', None) \<Rightarrow> parse d p' r')"
    using parse_head [OF head cl(1), of "b @ x" r] unfolding d_def p0_def r0_def .
  show ?thesis
  proof (cases "b = []")
    case True
    then show ?thesis
      using run sf by (auto simp: d_def r0_def request_with_def consumedBytes_def p0_def)
  next
    case False
    have "parser_step d (p0\<lparr>bodySize := w, state := StBody\<rparr>) r0 =
        (p0\<lparr>bodySize := w, consumed := consumed p0 + length b, state := StComplete\<rparr>,
         req_setBody r0 b, Some Complete)"
      by (simp add: parser_step_def handleBody_def p0_def d_def sv_substr_def w(2))
    then have "parse d (p0\<lparr>bodySize := w, state := StBody\<rparr>) r0 =
        (p0\<lparr>bodySize := w, consumed := consumed p0 + length b, state := StComplete\<rparr>,
         req_setBody r0 b, Complete)"
      by (rule parse_Some)
    then show ?thesis
      using run sf False by (auto simp: d_def r0_def request_with_def consumedBytes_def p0_def)
  qed
qed

section \<open>A body in chunks\<close>

lemma length_to_base: "1 < b \<Longrightarrow> n < b ^ Suc k \<Longrightarrow> length (to_base b n) \<le> Suc k"
proof (induction k arbitrary: n)
  case 0
  then show ?case by (subst to_base.simps) simp
next
  case (Suc k)
  have "n div b < b ^ Suc k"
    using Suc.prems by (intro less_mult_imp_div_less) (simp add: mult.commute)
  then show ?case using Suc by (subst to_base.simps) auto
qed

lemma length_to_hex: "n \<le> MAX_BODY_SIZE \<Longrightarrow> length (to_hex n) \<le> MAX_CHUNK_LINE_SIZE"
proof -
  assume "n \<le> MAX_BODY_SIZE"
  then have "n < 16 ^ Suc 5" by (simp add: MAX_BODY_SIZE_def)
  then have "length (to_hex n) \<le> Suc 5" unfolding to_hex_def by (intro length_to_base) auto
  then show ?thesis by (simp add: MAX_CHUNK_LINE_SIZE_def)
qed

lemma is_hex_not:
  "\<not> is_hex CR" "\<not> is_hex (CHR '';'')" "is_hex c \<Longrightarrow> \<not> is_ows c"
  by (auto simp: is_hex_def hex_digit_def is_ows_def)

lemma to_hex_clean: "CR \<notin> set (to_hex n)" "CHR '';'' \<notin> set (to_hex n)" "trimOws (to_hex n) = to_hex n"
proof -
  have hex: "\<forall>c \<in> set (to_hex n). is_hex c" using is_hex_to_hex by (simp add: list_all_iff)
  then show "CR \<notin> set (to_hex n)" "CHR '';'' \<notin> set (to_hex n)" using is_hex_not(1,2) by metis+
  have "ows_trimmed (to_hex n)" using hex is_hex_not(3) by (simp add: ows_trimmed_def)
  then show "trimOws (to_hex n) = to_hex n" by (rule trimOws_id)
qed

lemma step_chunk_size:
  assumes st: "state p = StChunkSize" "consumed p = length pre"
    and n: "n \<le> MAX_BODY_SIZE" "length (body p) + n \<le> MAX_BODY_SIZE"
  shows "parser_step (pre @ to_hex n @ CRLF @ x) p r =
    (p\<lparr>chunkSize := of_nat n, consumed := length pre + length (to_hex n) + 2, chunkBytesRead := 0,
       state := (if n = 0 then StChunkTrailer else StChunkData)\<rparr>, r, None)"
proof -
  obtain w where w: "w = (of_nat n :: size_t)" "unat w = n" "w = 0 \<longleftrightarrow> n = 0"
    using n size_of_small by blast
  have "parseChunkSize (to_hex n) (chunkSize p) = (True, w)"
    unfolding w(1) using n by (intro parseChunkSize_to_hex MAX_BODY_SIZE_less)
  moreover have "sv_find CRLF (to_hex n @ CRLF @ x) = Some (length (to_hex n))"
    using sv_find_CRLF [OF to_hex_clean(1), of n x] by simp
  moreover have "sv_find '';'' (to_hex n) = None" using to_hex_clean by (simp add: sv_find_char_None)
  moreover have "\<not> MAX_BODY_SIZE - n < length (body p)" using n by simp
  ultimately show ?thesis
    using st n(1) length_to_hex [OF n(1)] to_hex_clean(3) [of n]
    unfolding w(1) [symmetric]
    by (simp add: parser_step_def handleChunkSize_def sv_substr_def w(2,3))
qed

text \<open>One chunk: its size line, its bytes and the line end after them.\<close>

lemma parse_chunk:
  assumes st: "state p = StChunkSize" "consumed p = length pre"
    and c: "c \<noteq> []" "length (body p) + length c \<le> MAX_BODY_SIZE"
  shows "parse (pre @ encode_chunk c @ x) p r =
    parse (pre @ encode_chunk c @ x)
      (p\<lparr>chunkSize := of_nat (length c), consumed := length (pre @ encode_chunk c),
         chunkBytesRead := length c, body := body p @ c\<rparr>) r"
proof -
  define n where "n = length c"
  define d where "d = pre @ encode_chunk c @ x"
  define pre1 where "pre1 = pre @ to_hex n @ CRLF"
  define p1 where "p1 = p\<lparr>chunkSize := of_nat n, consumed := length pre1, chunkBytesRead := 0,
    state := StChunkData\<rparr>"
  define p2 where "p2 = p1\<lparr>body := body p @ c, consumed := length pre1 + n, chunkBytesRead := n,
    state := StChunkDataCrlf\<rparr>"
  have d: "d = pre @ to_hex n @ CRLF @ c @ CRLF @ x" "d = pre1 @ c @ CRLF @ x"
    by (simp_all add: d_def encode_chunk_def n_def pre1_def)
  have n: "0 < n" "n \<le> MAX_BODY_SIZE" "length (body p) + n \<le> MAX_BODY_SIZE"
    using c by (simp_all add: n_def)
  have un: "unat (of_nat n :: size_t) = n" using size_of_small [OF n(2)] by auto
  have s1: "parser_step d p r = (p1, r, None)"
    using step_chunk_size [OF st n(2,3), of "c @ CRLF @ x" r] n
    by (simp add: d(1) p1_def pre1_def)
  have s2: "parser_step d p1 r = (p2, r, None)"
    using n un by (simp add: parser_step_def p1_def p2_def handleChunkData_def Let_def d(2)
        sv_substr_def n_def)
  have s3: "parser_step d p2 r = (p2\<lparr>consumed := length pre1 + n + 2, state := StChunkSize\<rparr>, r, None)"
    by (simp add: parser_step_def p2_def p1_def handleChunkDataCrlf_def d(2) n_def nth_append)
  have "parse d p r = parse d (p2\<lparr>consumed := length pre1 + n + 2, state := StChunkSize\<rparr>) r"
    using parse_None [OF s1] parse_None [OF s2] parse_None [OF s3] by simp
  moreover have "p2\<lparr>consumed := length pre1 + n + 2, state := StChunkSize\<rparr> =
      p\<lparr>chunkSize := of_nat n, consumed := length (pre @ encode_chunk c), chunkBytesRead := n,
        body := body p @ c\<rparr>"
    using st by (simp add: p2_def p1_def pre1_def encode_chunk_def n_def)
  ultimately show ?thesis by (simp add: d_def n_def)
qed

lemma parse_last_chunk:
  assumes "state p = StChunkSize" "consumed p = length pre" "length (body p) \<le> MAX_BODY_SIZE"
  shows "\<exists>p'. parse (pre @ ''0'' @ CRLF @ CRLF @ x) p r = (p', req_setBody r (body p), Complete) \<and>
    consumedBytes p' = length pre + 5"
proof -
  have "char_of (48 :: nat) = CHR ''0''" by (simp add: char_of_eq_iff)
  then have h0: "''0'' = to_hex 0" by (simp add: to_hex_def to_base.simps digit_char_def)
  define p1 where "p1 = p\<lparr>chunkSize := 0, consumed := length pre + 3, chunkBytesRead := 0,
    state := StChunkTrailer\<rparr>"
  define d where "d = pre @ ''0'' @ CRLF @ CRLF @ x"
  have s1: "parser_step d p r = (p1, r, None)"
    using step_chunk_size [OF assms(1,2), of 0 "CRLF @ x" r] assms(3)
    unfolding h0 [symmetric] by (simp add: d_def p1_def)
  have "parser_step d p1 r = (p1\<lparr>consumed := length pre + 5, body := [], state := StComplete\<rparr>,
      req_setBody r (body p), Some Complete)"
    by (simp add: parser_step_def p1_def handleChunkTrailer_def d_def)
  then show ?thesis
    using parse_None [OF s1] parse_Some [of d p1 r] by (simp add: d_def consumedBytes_def)
qed

lemma parse_chunks:
  assumes "state p = StChunkSize" "consumed p = length pre"
    "list_all (\<lambda>c. c \<noteq> []) cs" "length (body p) + length (concat cs) \<le> MAX_BODY_SIZE"
  shows "\<exists>p'. parse (pre @ chunked_body cs @ x) p r =
      (p', req_setBody r (body p @ concat cs), Complete) \<and>
    consumedBytes p' = length (pre @ chunked_body cs)"
  using assms
proof (induction cs arbitrary: pre p)
  case Nil
  then show ?case
    using parse_last_chunk [of p pre x r] by (simp add: chunked_body_def eval_nat_numeral)
next
  case (Cons c cs)
  define p1 where "p1 = p\<lparr>chunkSize := of_nat (length c), consumed := length (pre @ encode_chunk c),
    chunkBytesRead := length c, body := body p @ c\<rparr>"
  have "\<exists>p'. parse ((pre @ encode_chunk c) @ chunked_body cs @ x) p1 r =
      (p', req_setBody r (body p1 @ concat cs), Complete) \<and>
      consumedBytes p' = length ((pre @ encode_chunk c) @ chunked_body cs)"
    using Cons.prems by (intro Cons.IH) (simp_all add: p1_def)
  moreover have "parse (pre @ encode_chunk c @ chunked_body cs @ x) p r =
      parse (pre @ encode_chunk c @ chunked_body cs @ x) p1 r"
    unfolding p1_def using Cons.prems by (intro parse_chunk) auto
  ultimately show ?case by (simp add: chunked_body_def p1_def)
qed

lemma parse_chunked_request:
  assumes head: "printable_head m target fs"
    and cl: "hdr_get_loop fs ''Content-Length'' = []" "cl_agree [] fs"
    and te: "hdr_get_loop fs ''Transfer-Encoding'' = ''chunked''"
    and cs: "list_all (\<lambda>c. c \<noteq> []) cs" "length (concat cs) \<le> MAX_BODY_SIZE"
  shows "\<exists>p'. parse (request_head m target fs @ chunked_body cs @ x) new_parser r =
      (p', request_with m target fs (concat cs), Complete) \<and>
    consumedBytes p' = length (request_head m target fs @ chunked_body cs)"
proof -
  define p0 where
    "p0 = new_parser\<lparr>state := StHeaders, consumed := length (request_head m target fs)\<rparr>"
  define r0 :: "'a HttpRequest" where
    "r0 = add_fields (store_request_line m target ''HTTP/1.1'') fs"
  define p1 where "p1 = p0\<lparr>body := [], chunkSize := 0, chunkBytesRead := 0, state := StChunkSize\<rparr>"
  have "trimOws ''chunked'' = ''chunked''" by (rule trimOws_id) (simp add: ows_trimmed_def is_ows_def)
  then have "select_framing p0 r0 = (p1, r0, None)"
    using cl te by (simp add: select_framing_def r0_def req_header_printed p1_def)
  then have "parse (request_head m target fs @ chunked_body cs @ x) new_parser r =
      parse (request_head m target fs @ chunked_body cs @ x) p1 r0"
    using parse_head [OF head cl(2), of "chunked_body cs @ x" r] by (simp add: p0_def r0_def)
  moreover have "\<exists>p'. parse (request_head m target fs @ chunked_body cs @ x) p1 r0 =
      (p', req_setBody r0 (body p1 @ concat cs), Complete) \<and>
      consumedBytes p' = length (request_head m target fs @ chunked_body cs)"
    using cs by (intro parse_chunks) (simp_all add: p1_def p0_def)
  ultimately show ?thesis by (simp add: request_with_def r0_def p1_def)
qed

section \<open>Requests of every framing\<close>

lemma parse_bare_request:
  assumes head: "printable_head m target fs"
    and cl: "hdr_get_loop fs ''Content-Length'' = []" "cl_agree [] fs"
    and te: "hdr_get_loop fs ''Transfer-Encoding'' = []"
  shows "\<exists>p'. parse (request_head m target fs @ x) new_parser r =
      (p', request_with m target fs [], Complete) \<and> consumedBytes p' = length (request_head m target fs)"
  using parse_head [OF head cl(2), of x r] cl(1) te
  by (simp add: select_framing_def req_header_printed request_with_def consumedBytes_def)

datatype wire_body = NoBody | LengthBody string | ChunkedBody "string list"

record wire_request =
  wr_method :: HttpMethod
  wr_target :: string
  wr_fields :: "(string \<times> string) list"
  wr_body :: wire_body

fun body_bytes :: "wire_body \<Rightarrow> string" where
  "body_bytes NoBody = []"
| "body_bytes (LengthBody b) = b"
| "body_bytes (ChunkedBody cs) = chunked_body cs"

fun body_content :: "wire_body \<Rightarrow> string" where
  "body_content NoBody = []"
| "body_content (LengthBody b) = b"
| "body_content (ChunkedBody cs) = concat cs"

text \<open>The fields declare the framing of the body, once and consistently.\<close>

fun framing_declared :: "(string \<times> string) list \<Rightarrow> wire_body \<Rightarrow> bool" where
  "framing_declared fs NoBody \<longleftrightarrow>
     hdr_get_loop fs ''Content-Length'' = [] \<and> cl_agree [] fs \<and> hdr_get_loop fs ''Transfer-Encoding'' = []"
| "framing_declared fs (LengthBody b) \<longleftrightarrow>
     hdr_get_loop fs ''Content-Length'' = to_string (length b) \<and> cl_agree (to_string (length b)) fs \<and>
     hdr_get_loop fs ''Transfer-Encoding'' = []"
| "framing_declared fs (ChunkedBody cs) \<longleftrightarrow>
     hdr_get_loop fs ''Content-Length'' = [] \<and> cl_agree [] fs \<and>
     hdr_get_loop fs ''Transfer-Encoding'' = ''chunked'' \<and> list_all (\<lambda>c. c \<noteq> []) cs"

definition wire_valid :: "wire_request \<Rightarrow> bool" where
  "wire_valid wr \<longleftrightarrow> printable_head (wr_method wr) (wr_target wr) (wr_fields wr) \<and>
     framing_declared (wr_fields wr) (wr_body wr) \<and> length (body_content (wr_body wr)) \<le> MAX_BODY_SIZE"

definition wire_bytes :: "wire_request \<Rightarrow> string" where
  "wire_bytes wr = request_head (wr_method wr) (wr_target wr) (wr_fields wr) @ body_bytes (wr_body wr)"

definition wire_view :: "wire_request \<Rightarrow> 'j HttpRequest" where
  "wire_view wr = request_with (wr_method wr) (wr_target wr) (wr_fields wr) (body_content (wr_body wr))"

lemma parse_wire_request:
  assumes "wire_valid wr"
  shows "\<exists>p'. parse (wire_bytes wr @ x) new_parser r = (p', wire_view wr, Complete) \<and>
    consumedBytes p' = length (wire_bytes wr)"
proof -
  let ?m = "wr_method wr" and ?t = "wr_target wr" and ?fs = "wr_fields wr"
  have h: "printable_head ?m ?t ?fs" "framing_declared ?fs (wr_body wr)"
    "length (body_content (wr_body wr)) \<le> MAX_BODY_SIZE"
    using assms by (simp_all add: wire_valid_def)
  show ?thesis
  proof (cases "wr_body wr")
    case NoBody
    then show ?thesis using parse_bare_request [OF h(1), of x r] h(2) by (simp add: wire_bytes_def wire_view_def)
  next
    case (LengthBody b)
    then show ?thesis using parse_length_request [OF h(1), of b x r] h(2,3)
      by (simp add: wire_bytes_def wire_view_def)
  next
    case (ChunkedBody cs)
    then show ?thesis using parse_chunked_request [OF h(1), of cs x r] h(2,3)
      by (simp add: wire_bytes_def wire_view_def)
  qed
qed

lemma wire_bytes_nonempty: "wire_bytes wr \<noteq> []"
  by (simp add: wire_bytes_def request_head_def)

section \<open>Two sample requests\<close>

text \<open>A length-delimited and a chunked request, on which the general statements are exercised.\<close>

definition sample_fields :: "(string \<times> string) list" where
  "sample_fields = [(''Host'', ''a''), (''Content-Length'', ''2'')]"

definition sample_chunked_fields :: "(string \<times> string) list" where
  "sample_chunked_fields = [(''Host'', ''a''), (''Transfer-Encoding'', ''chunked'')]"

definition sample_request :: string where
  "sample_request = request_head POST ''/a?x=1'' sample_fields @ ''hi''"

lemmas validity_defs = valid_field_def isValidHeaderName_def header_name_char_def isValidHeaderValue_def
  header_value_char_def ows_trimmed_def is_ows_def isalnum_def isdigit_def

lemma to_string_2: "to_string (Suc (Suc 0)) = ''2''"
  by (simp add: to_string_def to_base.simps digit_char_def char_of_def bit_0)

lemma sample_fields_ok: "list_all valid_field sample_fields" "cl_agree ''2'' sample_fields"
  "hdr_get_loop sample_fields ''Content-Length'' = ''2''"
  "hdr_get_loop sample_fields ''Transfer-Encoding'' = []"
  by (simp_all add: sample_fields_def validity_defs cl_agree_def equalsIgnoreCase_iff tolower_def)

lemma sample_printable: "printable_head POST ''/a?x=1'' sample_fields"
  using sample_fields_ok(1)
  by (simp add: printable_head_def request_line_def sample_fields_def MAX_REQUEST_LINE_def
      MAX_HEADERS_def MAX_HEADER_SIZE_def crlf_lines_def field_line_def)

lemma sample_chunked_fields_ok: "list_all valid_field sample_chunked_fields"
  "cl_agree [] sample_chunked_fields"
  "hdr_get_loop sample_chunked_fields ''Content-Length'' = []"
  "hdr_get_loop sample_chunked_fields ''Transfer-Encoding'' = ''chunked''"
  by (simp_all add: sample_chunked_fields_def validity_defs cl_agree_def equalsIgnoreCase_iff
      tolower_def)

lemma sample_chunked_printable: "printable_head POST ''/a'' sample_chunked_fields"
  using sample_chunked_fields_ok(1)
  by (simp add: printable_head_def request_line_def sample_chunked_fields_def MAX_REQUEST_LINE_def
      MAX_HEADERS_def MAX_HEADER_SIZE_def crlf_lines_def field_line_def)

lemma sample_parse:
  "\<exists>p'. parse (sample_request @ x) new_parser r =
      (p', request_with POST ''/a?x=1'' sample_fields ''hi'', Complete) \<and>
    consumedBytes p' = length sample_request"
  using parse_length_request [OF sample_printable, of "''hi''" x r] sample_fields_ok
  by (simp add: sample_request_def MAX_BODY_SIZE_def to_string_2)

lemma sample_part: "parse (take 4 sample_request) new_parser r = (new_parser, r, Incomplete)"
  by (rule parse_Some) (simp add: sample_request_def request_head_def request_line_def
      parser_step_def new_parser_def handleRequestLine_def MAX_REQUEST_LINE_def)

lemma sample_feed:
  "feed [] new_parser r [take 4 sample_request, drop 4 sample_request] =
     parse sample_request new_parser r"
  by (simp add: sample_part split: prod.splits ParseResult.splits)

section \<open>Serialized responses are read back\<close>

lemma to_string_field_valid: "valid_field (''Content-Length'', to_string n)"
  by (simp add: valid_field_def to_string_valid_value to_string_trimmed isValidHeaderName_def
      header_name_char_def isalnum_def)

lemma parse_wire_fields:
  assumes "list_all valid_field (hdr_all (rs_headers rs))" "hdr_size (rs_headers rs) < MAX_HEADERS"
    and r: "rq_headers r = empty_headers"
  shows "parseHeaders (crlf_lines (map field_line (wire_fields rs)) @ CRLF) r =
    (Complete, add_fields r (wire_fields rs))"
proof -
  have "list_all valid_field (wire_fields rs)"
    using assms(1) by (auto simp: wire_fields_def list_all_iff to_string_field_valid)
  moreover have "0 + length (wire_fields rs) \<le> MAX_HEADERS"
    using assms(2) by (auto simp: wire_fields_def hdr_size_def hdr_all_def Suc_le_eq
      intro: le_less_trans [OF length_filter_le])
  moreover have "cl_agree (to_string (length (rs_body rs))) (wire_fields rs)"
    by (auto simp: cl_agree_def wire_fields_def)
  moreover have "req_header r ''Content-Length'' = []"
    using r by (simp add: req_header_def hdr_get_def empty_headers_def)
  ultimately show ?thesis
    using parseHeaders_loop_lines [of "wire_fields rs" 0 _ r "[]" "[]"] by (simp add: parseHeaders_def)
qed

lemma wire_fields_length:
  assumes "rq_headers r = empty_headers"
  shows "req_headers (add_fields r (wire_fields rs)) ''Content-Length'' =
    [to_string (length (rs_body rs))]"
  using assms
  by (simp add: req_headers_def hdr_values_def add_fields_def wire_fields_def empty_headers_def
      hdr_values_loop_append hdr_values_loop_filter)

end
