(* ===== verification/Read_Buffer.thy ===== *)
theory Read_Buffer
  imports Http_Prelude
begin

text \<open>
  \<^verbatim>\<open>src/src/network/ReadBuffer.cpp\<close>: the bytes received on a connection and not yet consumed.

  The connection relies on the buffer as on a byte queue, the locale \<open>byte_queue\<close>: what was
  appended comes out in order, a prefix can be consumed, and consuming more than there is raises an
  exception and changes nothing. The class is its interpretation.
\<close>

section \<open>The class\<close>

record ReadBuffer =
  buffer :: string

text \<open>The capacity argument of the constructor only reserves memory.\<close>

definition new_ReadBuffer :: ReadBuffer where
  "new_ReadBuffer = \<lparr>buffer = []\<rparr>"

definition rb_append :: "ReadBuffer \<Rightarrow> string \<Rightarrow> ReadBuffer" where
  "rb_append b data = b\<lparr>buffer := buffer b @ data\<rparr>"

definition rb_size :: "ReadBuffer \<Rightarrow> nat" where
  "rb_size b = length (buffer b)"

definition rb_empty :: "ReadBuffer \<Rightarrow> bool" where
  "rb_empty b = (buffer b = [])"

definition rb_data :: "ReadBuffer \<Rightarrow> string" where
  "rb_data b = buffer b"

definition rb_consume :: "ReadBuffer \<Rightarrow> nat \<Rightarrow> std_exception + ReadBuffer" where
  "rb_consume b n =
     (if length (buffer b) < n
      then Inl (out_of_range ''Cannot consume more data than buffer contains'')
      else Inr (b\<lparr>buffer := drop n (buffer b)\<rparr>))"

definition rb_clear :: "ReadBuffer \<Rightarrow> ReadBuffer" where
  "rb_clear b = b\<lparr>buffer := []\<rparr>"

section \<open>The interface\<close>

locale byte_queue =
  fixes empty :: 'b
    and append :: "'b \<Rightarrow> string \<Rightarrow> 'b"
    and contents :: "'b \<Rightarrow> string"
    and consume :: "'b \<Rightarrow> nat \<Rightarrow> 'e + 'b"
  assumes contents_empty: "contents empty = []"
    and contents_append: "contents (append b s) = contents b @ s"
    and consume_ok: "n \<le> length (contents b) \<Longrightarrow>
      \<exists>b'. consume b n = Inr b' \<and> contents b' = drop n (contents b)"
    and consume_too_much: "length (contents b) < n \<Longrightarrow> \<exists>e. consume b n = Inl e"
begin

lemma consume_bound: "consume b n = Inr b' \<Longrightarrow> n \<le> length (contents b)"
  using consume_too_much [of b n] by (cases "length (contents b) < n") auto

lemma consume_contents: "consume b n = Inr b' \<Longrightarrow> contents b' = drop n (contents b)"
  using consume_ok [OF consume_bound [of b n b']] by auto

lemma consume_split:
  "consume b n = Inr b' \<Longrightarrow> contents b = take n (contents b) @ contents b'"
  by (simp add: consume_contents)

lemma consume_append:
  assumes "consume b n = Inr b'"
  shows "\<exists>c. consume (append b s) n = Inr c \<and> contents c = contents b' @ s"
  using consume_bound [OF assms] consume_contents [OF assms] consume_ok [of n "append b s"]
  by (auto simp: contents_append)

end

interpretation rb: byte_queue new_ReadBuffer rb_append rb_data rb_consume
  by unfold_locales (auto simp: new_ReadBuffer_def rb_append_def rb_data_def rb_consume_def)

lemma rb_size_data: "rb_size b = length (rb_data b)" and rb_empty_data: "rb_empty b \<longleftrightarrow> rb_data b = []"
  by (simp_all add: rb_size_def rb_empty_def rb_data_def)

end
