(* ===== verification/Client_Connection.thy ===== *)
theory Client_Connection
  imports Http_Parser Read_Buffer "HOL-Library.Signed_Division"
begin

text \<open>
  \<^verbatim>\<open>src/src/network/ClientConnection.cpp\<close>: one TLS connection with its read buffer, its HTTP/1.1
  parser, its WebSocket state and its HTTP/2 session.

  OpenSSL and nghttp2 are libraries: their functions are the fields of two records of parameters
  that the operations take. An \<open>SSL*\<close> is a value of the parameter type \<open>'s\<close> that every call
  returns updated; an \<open>nghttp2_session*\<close> is a value of the type \<open>'h\<close>. The callbacks the code
  registers with nghttp2 are definitions, and the functions that call them back
  (\<open>nghttp2_session_mem_recv\<close>, \<open>nghttp2_session_send\<close>) take them as arguments. The references
  \<open>router_\<close> and \<open>thread_pool_\<close> are not part of the state: a task that a callback enqueues is
  returned as a value.
\<close>

section \<open>WebSocket frames\<close>

text \<open>An enumeration with a fixed underlying type holds any value of it.\<close>

datatype WebSocketOpcode = WsContinuation | WsText | WsBinary | WsClose | WsPing | WsPong
  | WsReserved "8 word"

definition opcode_of :: "8 word \<Rightarrow> WebSocketOpcode" where
  "opcode_of b =
     (if b = 0 then WsContinuation else if b = 1 then WsText else if b = 2 then WsBinary
      else if b = 8 then WsClose else if b = 9 then WsPing else if b = 10 then WsPong
      else WsReserved b)"

fun opcode_byte :: "WebSocketOpcode \<Rightarrow> 8 word" where
  "opcode_byte WsContinuation = 0"
| "opcode_byte WsText = 1"
| "opcode_byte WsBinary = 2"
| "opcode_byte WsClose = 8"
| "opcode_byte WsPing = 9"
| "opcode_byte WsPong = 10"
| "opcode_byte (WsReserved b) = b"

record WebSocketFrame =
  fin :: bool
  opcode :: WebSocketOpcode
  payload :: string

text \<open>The byte at a position of the buffer, and the character with a given byte.\<close>

definition byte :: "char \<Rightarrow> 8 word" where
  "byte c = of_nat (of_char c)"

definition char8 :: "8 word \<Rightarrow> char" where
  "char8 b = char_of (unat b)"

text \<open>The actual payload length and the size of the header so far, \<open>None\<close> while bytes are missing.\<close>

fun be_bytes :: "string \<Rightarrow> size_t \<Rightarrow> size_t" where
  "be_bytes [] n = n"
| "be_bytes (c # cs) n = be_bytes cs (push_bit 8 n OR ucast (byte c))"

definition ws_length :: "string \<Rightarrow> size_t \<Rightarrow> (size_t \<times> nat) option" where
  "ws_length data len =
     (if len = 126 then
        (if length data < 4 then None
         else Some (push_bit 8 (ucast (byte (data ! 2))) OR ucast (byte (data ! 3)), 4))
      else if len = 127 then
        (if length data < 10 then None else Some (be_bytes (take 8 (drop 2 data)) 0, 10))
      else Some (len, 2))"

definition ws_mask :: "string \<Rightarrow> bool \<Rightarrow> nat \<Rightarrow> (string \<times> nat) option" where
  "ws_mask data masked header_len =
     (if masked then
        (if length data < header_len + 4 then None
         else Some (take 4 (drop header_len data), header_len + 4))
      else Some (replicate 4 (char8 0), header_len))"

definition ws_unmask :: "bool \<Rightarrow> string \<Rightarrow> string \<Rightarrow> string" where
  "ws_unmask masked key raw =
     map (\<lambda>i. char8 (byte (raw ! i) XOR (if masked then byte (key ! (i mod 4)) else 0))) [0..<length raw]"

text \<open>
  \<open>std::string::resize\<close> throws above \<open>max_size()\<close>. Lengths that can pass the check before it are
  either at most the number of bytes in the buffer or so close to \<open>2 ^ 64\<close> that the sum of the check
  wrapped around.
\<close>

definition string_max_size :: nat where "string_max_size = 2 ^ 63 - 1"

section \<open>State\<close>

datatype SslError = SSL_ERROR_ZERO_RETURN | SSL_ERROR_WANT_READ | SSL_ERROR_WANT_WRITE
  | SSL_ERROR_SYSCALL | SSL_ERROR_OTHER nat

record 's openssl =
  SSL_accept :: "'s \<Rightarrow> int \<times> 's"
  SSL_read :: "'s \<Rightarrow> nat \<Rightarrow> int \<times> string \<times> 's"
  SSL_write :: "'s \<Rightarrow> string \<Rightarrow> int \<times> 's"
  SSL_get_error :: "'s \<Rightarrow> int \<Rightarrow> SslError"
  SSL_get0_alpn_selected :: "'s \<Rightarrow> string option"

datatype h2_frame_type = NGHTTP2_DATA | NGHTTP2_HEADERS | NGHTTP2_PUSH_PROMISE | NGHTTP2_OTHER nat

type_synonym stream_id = "32 word"

datatype h2_event =
    H2_begin_headers h2_frame_type stream_id
  | H2_header stream_id string string
  | H2_frame_recv h2_frame_type "8 word" stream_id

text \<open>What the nghttp2 callbacks change: the table of streams, the tasks given to the pool.\<close>

record 'j h2_user =
  u_streams :: "stream_id \<rightharpoonup> 'j HttpRequest"
  u_tasks :: "(stream_id \<times> 'j HttpRequest) list"

record ('j, 's, 'h) nghttp2 =
  nghttp2_session_server_new :: 'h
  nghttp2_submit_settings :: "'h \<Rightarrow> nat \<Rightarrow> 'h"
  nghttp2_session_mem_recv ::
    "'h \<Rightarrow> string \<Rightarrow> (h2_event \<Rightarrow> 'j h2_user \<Rightarrow> int \<times> 'j h2_user) \<Rightarrow> 'j h2_user \<Rightarrow>
     int \<times> 'h \<times> 'j h2_user"
  nghttp2_session_send :: "'h \<Rightarrow> (string \<Rightarrow> 's \<Rightarrow> int \<times> 's) \<Rightarrow> 's \<Rightarrow> int \<times> 'h \<times> 's"
  nghttp2_submit_response :: "'h \<Rightarrow> stream_id \<Rightarrow> (string \<times> string) list \<Rightarrow> string \<Rightarrow> 'h"

record ('j, 's, 'h) ClientConnection =
  cc_socket :: int
  cc_ssl :: 's
  handshakeComplete :: bool
  is_websocket :: bool
  ws_path :: string
  is_http2 :: bool
  h2_session :: "'h option"
  h2_streams :: "stream_id \<rightharpoonup> 'j HttpRequest"
  readBuffer :: ReadBuffer
  parser :: HttpParser
  lastActivity :: int

definition new_connection :: "int \<Rightarrow> 's \<Rightarrow> int \<Rightarrow> ('j, 's, 'h) ClientConnection" where
  "new_connection fd ssl now =
     \<lparr>cc_socket = fd, cc_ssl = ssl, handshakeComplete = False, is_websocket = False, ws_path = [],
      is_http2 = False, h2_session = None, h2_streams = Map.empty, readBuffer = new_ReadBuffer,
      parser = new_parser, lastActivity = now\<rparr>"

section \<open>Reading and sending\<close>

text \<open>The loop ends when \<open>SSL_read\<close> returns no bytes; that it does is a property of the peer.\<close>

partial_function (option) conn_read ::
  "'s openssl \<Rightarrow> ('j, 's, 'h) ClientConnection \<Rightarrow>
   (('j, 's, 'h) ClientConnection \<times> (std_exception + bool)) option" where
  "conn_read api c =
     (case SSL_read api (cc_ssl c) 8192 of
        (bytesReceived, temporaryBuffer, ssl') \<Rightarrow>
          if 0 < bytesReceived then
            conn_read api (c\<lparr>cc_ssl := ssl',
              readBuffer := rb_append (readBuffer c) (take (nat bytesReceived) temporaryBuffer)\<rparr>)
          else
            Some (c\<lparr>cc_ssl := ssl'\<rparr>,
              (case SSL_get_error api ssl' bytesReceived of
                 SSL_ERROR_ZERO_RETURN \<Rightarrow> Inr False
               | SSL_ERROR_WANT_READ \<Rightarrow> Inr True
               | SSL_ERROR_WANT_WRITE \<Rightarrow> Inr True
               | SSL_ERROR_SYSCALL \<Rightarrow> Inr False
               | SSL_ERROR_OTHER _ \<Rightarrow> Inl (runtime_error ''SSL_read failed''))))"

declare conn_read.simps [code]

function conn_send_loop :: "'s openssl \<Rightarrow> 's \<Rightarrow> string \<Rightarrow> 's \<times> (std_exception + unit)" where
  "conn_send_loop api ssl remaining =
     (if remaining = [] then (ssl, Inr ())
      else
        (case SSL_write api ssl remaining of
           (bytesSent, ssl') \<Rightarrow>
             if 0 < bytesSent then conn_send_loop api ssl' (drop (nat bytesSent) remaining)
             else
               (case SSL_get_error api ssl' bytesSent of
                  SSL_ERROR_WANT_WRITE \<Rightarrow> (ssl', Inr ())
                | SSL_ERROR_WANT_READ \<Rightarrow> (ssl', Inr ())
                | SSL_ERROR_SYSCALL \<Rightarrow> (ssl', Inr ())
                | _ \<Rightarrow> (ssl', Inl (runtime_error ''SSL_write failed'')))))"
  by pat_completeness auto
termination
  by (relation "measure (\<lambda>(api, ssl, remaining). length remaining)") auto

declare conn_send_loop.simps [simp del]

definition conn_send ::
  "'s openssl \<Rightarrow> ('j, 's, 'h) ClientConnection \<Rightarrow> string \<Rightarrow>
   ('j, 's, 'h) ClientConnection \<times> (std_exception + unit)" where
  "conn_send api c data =
     (case conn_send_loop api (cc_ssl c) data of (ssl', res) \<Rightarrow> (c\<lparr>cc_ssl := ssl'\<rparr>, res))"

definition conn_data :: "('j, 's, 'h) ClientConnection \<Rightarrow> string" where
  "conn_data c = rb_data (readBuffer c)"

definition parseRequest ::
  "('j, 's, 'h) ClientConnection \<Rightarrow> 'j HttpRequest \<Rightarrow>
   ('j, 's, 'h) ClientConnection \<times> 'j HttpRequest \<times> ParseResult" where
  "parseRequest c request =
     (case parse (rb_data (readBuffer c)) (parser c) request of
        (p, r, v) \<Rightarrow> (c\<lparr>parser := p\<rparr>, r, v))"

text \<open>An exception of \<open>consume\<close> leaves the parser as it is.\<close>

definition consumeParsedRequest ::
  "('j, 's, 'h) ClientConnection \<Rightarrow> ('j, 's, 'h) ClientConnection \<times> (std_exception + unit)" where
  "consumeParsedRequest c =
     (case rb_consume (readBuffer c) (consumedBytes (parser c)) of
        Inl e \<Rightarrow> (c, Inl e)
      | Inr b \<Rightarrow> (c\<lparr>readBuffer := b, parser := parser_reset (parser c)\<rparr>, Inr ()))"

section \<open>Activity\<close>

text \<open>Time points of the steady clock are integers that count nanoseconds.\<close>

definition updateActivity :: "int \<Rightarrow> ('j, 's, 'h) ClientConnection \<Rightarrow> ('j, 's, 'h) ClientConnection" where
  "updateActivity now c = c\<lparr>lastActivity := now\<rparr>"

definition isIdle :: "int \<Rightarrow> ('j, 's, 'h) ClientConnection \<Rightarrow> int \<Rightarrow> bool" where
  "isIdle now c timeoutSeconds \<longleftrightarrow> timeoutSeconds < (now - lastActivity c) sdiv 1000000000"

section \<open>TLS handshake\<close>

definition EPOLLIN :: "32 word" where "EPOLLIN = 1"
definition EPOLLOUT :: "32 word" where "EPOLLOUT = 4"
definition EPOLLONESHOT :: "32 word" where "EPOLLONESHOT = 2 ^ 30"
definition EPOLLET :: "32 word" where "EPOLLET = 2 ^ 31"

definition setupHttp2Session ::
  "('j, 's, 'h) nghttp2 \<Rightarrow> ('j, 's, 'h) ClientConnection \<Rightarrow> ('j, 's, 'h) ClientConnection" where
  "setupHttp2Session h2 c =
     c\<lparr>h2_session := Some (nghttp2_submit_settings h2 (nghttp2_session_server_new h2) 100)\<rparr>"

definition doHandshake ::
  "'s openssl \<Rightarrow> ('j, 's, 'h) nghttp2 \<Rightarrow> ('j, 's, 'h) ClientConnection \<Rightarrow> 32 word \<Rightarrow>
   ('j, 's, 'h) ClientConnection \<times> 32 word \<times> (std_exception + bool)" where
  "doHandshake api h2 c out_epoll_events =
     (if handshakeComplete c then (c, out_epoll_events, Inr True)
      else
        (case SSL_accept api (cc_ssl c) of
           (ret, ssl') \<Rightarrow>
             if ret = 1 then
               (let c1 = c\<lparr>cc_ssl := ssl', handshakeComplete := True\<rparr>;
                    c2 = (if SSL_get0_alpn_selected api ssl' = Some ''h2''
                          then setupHttp2Session h2 (c1\<lparr>is_http2 := True\<rparr>) else c1) in
                (c2, out_epoll_events, Inr True))
             else
               (case SSL_get_error api ssl' ret of
                  SSL_ERROR_WANT_READ \<Rightarrow>
                    (c\<lparr>cc_ssl := ssl'\<rparr>, EPOLLIN OR EPOLLET OR EPOLLONESHOT, Inr False)
                | SSL_ERROR_WANT_WRITE \<Rightarrow>
                    (c\<lparr>cc_ssl := ssl'\<rparr>, EPOLLOUT OR EPOLLET OR EPOLLONESHOT, Inr False)
                | _ \<Rightarrow>
                    (c\<lparr>cc_ssl := ssl'\<rparr>, out_epoll_events, Inl (runtime_error ''SSL_accept failed'')))))"

section \<open>WebSocket operations\<close>

definition upgradeToWebSocket ::
  "('j, 's, 'h) ClientConnection \<Rightarrow> string \<Rightarrow> ('j, 's, 'h) ClientConnection" where
  "upgradeToWebSocket c path =
     c\<lparr>is_websocket := True, ws_path := path, parser := parser_reset (parser c)\<rparr>"

definition parseWebSocketFrame ::
  "('j, 's, 'h) ClientConnection \<Rightarrow> WebSocketFrame \<Rightarrow>
   ('j, 's, 'h) ClientConnection \<times> WebSocketFrame \<times> (std_exception + ParseResult)" where
  "parseWebSocketFrame c out_frame =
     (let data = rb_data (readBuffer c) in
      if length data < 2 then (c, out_frame, Inr Incomplete)
      else
        (let is_fin = (byte (data ! 0) AND 0x80 \<noteq> 0);
             op = byte (data ! 0) AND 0x0F;
             masked = (byte (data ! 1) AND 0x80 \<noteq> 0) in
         case ws_length data (ucast (byte (data ! 1) AND 0x7F)) of
           None \<Rightarrow> (c, out_frame, Inr Incomplete)
         | Some (payload_len, header_len0) \<Rightarrow>
             (case ws_mask data masked header_len0 of
                None \<Rightarrow> (c, out_frame, Inr Incomplete)
              | Some (masking_key, header_len) \<Rightarrow>
                  if of_nat (length data) < of_nat header_len + payload_len
                  then (c, out_frame, Inr Incomplete)
                  else if string_max_size < unat payload_len
                  then (c, out_frame, Inl (length_error ''basic_string::_M_replace_aux''))
                  else
                    (let frame = \<lparr>fin = is_fin, opcode = opcode_of op,
                           payload = ws_unmask masked masking_key
                             (sv_substr data header_len (unat payload_len))\<rparr> in
                     case rb_consume (readBuffer c) (unat (of_nat header_len + payload_len)) of
                       Inl e \<Rightarrow> (c, frame, Inl e)
                     | Inr b \<Rightarrow> (c\<lparr>readBuffer := b\<rparr>, frame, Inr Complete)))))"

text \<open>The frame \<open>sendWebSocketMessage\<close> puts together.\<close>

definition ws_len_byte :: "size_t \<Rightarrow> nat \<Rightarrow> char" where
  "ws_len_byte len i = char8 (ucast (drop_bit (i * 8) len AND 0xFF))"

definition ws_frame :: "string \<Rightarrow> WebSocketOpcode \<Rightarrow> string" where
  "ws_frame msg op =
     (let len = of_nat (length msg) :: size_t in
      [char8 (0x80 OR opcode_byte op)] @
      (if len < 126 then [char8 (ucast len)]
       else if len \<le> 65535 then [char8 126, ws_len_byte len 1, ws_len_byte len 0]
       else [char8 127] @ map (ws_len_byte len) [7, 6, 5, 4, 3, 2, 1, 0]) @ msg)"

definition sendWebSocketMessage ::
  "'s openssl \<Rightarrow> ('j, 's, 'h) ClientConnection \<Rightarrow> string \<Rightarrow> WebSocketOpcode \<Rightarrow>
   ('j, 's, 'h) ClientConnection \<times> (std_exception + unit)" where
  "sendWebSocketMessage api c msg op = conn_send api c (ws_frame msg op)"

section \<open>HTTP/2\<close>

definition NGHTTP2_ERR_WOULDBLOCK :: int where "NGHTTP2_ERR_WOULDBLOCK = - 504"
definition NGHTTP2_ERR_CALLBACK_FAILURE :: int where "NGHTTP2_ERR_CALLBACK_FAILURE = - 902"
definition NGHTTP2_FLAG_END_STREAM :: "8 word" where "NGHTTP2_FLAG_END_STREAM = 1"

definition h2_send_cb :: "'s openssl \<Rightarrow> string \<Rightarrow> 's \<Rightarrow> int \<times> 's" where
  "h2_send_cb api data ssl =
     (case SSL_write api ssl data of
        (bytes_sent, ssl') \<Rightarrow>
          if bytes_sent \<le> 0 then
            (case SSL_get_error api ssl' bytes_sent of
               SSL_ERROR_WANT_WRITE \<Rightarrow> (NGHTTP2_ERR_WOULDBLOCK, ssl')
             | SSL_ERROR_WANT_READ \<Rightarrow> (NGHTTP2_ERR_WOULDBLOCK, ssl')
             | _ \<Rightarrow> (NGHTTP2_ERR_CALLBACK_FAILURE, ssl'))
          else (bytes_sent, ssl'))"

definition h2_on_begin_headers_cb ::
  "h2_frame_type \<Rightarrow> stream_id \<Rightarrow> 'j h2_user \<Rightarrow> int \<times> 'j h2_user" where
  "h2_on_begin_headers_cb ty sid u =
     (0, if ty = NGHTTP2_HEADERS \<or> ty = NGHTTP2_PUSH_PROMISE
         then u\<lparr>u_streams := (u_streams u)(sid \<mapsto> new_request)\<rparr> else u)"

text \<open>\<open>operator[]\<close> of the table: a default-constructed request when the key is absent.\<close>

definition stream_req :: "'j h2_user \<Rightarrow> stream_id \<Rightarrow> 'j HttpRequest" where
  "stream_req u sid = (case u_streams u sid of None \<Rightarrow> new_request | Some r \<Rightarrow> r)"

definition h2_method :: "string \<Rightarrow> HttpMethod" where
  "h2_method v =
     (if v = ''POST'' then POST else if v = ''PUT'' then PUT else if v = ''DELETE'' then DELETE
      else if v = ''PATCH'' then PATCH else if v = ''OPTIONS'' then OPTIONS
      else if v = ''HEAD'' then HEAD else GET)"

definition h2_on_header_cb ::
  "stream_id \<Rightarrow> string \<Rightarrow> string \<Rightarrow> 'j h2_user \<Rightarrow> int \<times> 'j h2_user" where
  "h2_on_header_cb sid name v u =
     (let r = stream_req u sid;
          r' = (if name = '':method'' then req_setMethod r (h2_method v)
                else if name = '':path'' then req_setPath r v
                else req_setHeader r name v) in
      (0, u\<lparr>u_streams := (u_streams u)(sid \<mapsto> r')\<rparr>))"

definition h2_on_frame_recv_cb ::
  "h2_frame_type \<Rightarrow> 8 word \<Rightarrow> stream_id \<Rightarrow> 'j h2_user \<Rightarrow> int \<times> 'j h2_user" where
  "h2_on_frame_recv_cb ty flags sid u =
     (0, if (ty = NGHTTP2_HEADERS \<or> ty = NGHTTP2_DATA) \<and> flags AND NGHTTP2_FLAG_END_STREAM \<noteq> 0
         then u\<lparr>u_streams := (u_streams u)(sid := None), u_tasks := u_tasks u @ [(sid, stream_req u sid)]\<rparr>
         else u)"

text \<open>The callbacks registered by \<open>setupHttp2Session\<close>.\<close>

fun h2_callback :: "h2_event \<Rightarrow> 'j h2_user \<Rightarrow> int \<times> 'j h2_user" where
  "h2_callback (H2_begin_headers ty sid) u = h2_on_begin_headers_cb ty sid u"
| "h2_callback (H2_header sid name v) u = h2_on_header_cb sid name v u"
| "h2_callback (H2_frame_recv ty flags sid) u = h2_on_frame_recv_cb ty flags sid u"

text \<open>
  A null session is only used when \<open>is_http2\<close> is set without a session, which \<open>http2_ready\<close> below
  rules out.
\<close>

definition processHttp2 ::
  "'s openssl \<Rightarrow> ('j, 's, 'h) nghttp2 \<Rightarrow> ('j, 's, 'h) ClientConnection \<Rightarrow>
   ('j, 's, 'h) ClientConnection \<times> (stream_id \<times> 'j HttpRequest) list \<times> (std_exception + unit)" where
  "processHttp2 api h2 c =
     (case h2_session c of
        None \<Rightarrow> (c, [], Inl (other_exception ''null session''))
      | Some h \<Rightarrow>
          (let data = rb_data (readBuffer c);
               send_all = (\<lambda>c h tasks.
                 case nghttp2_session_send h2 h (h2_send_cb api) (cc_ssl c) of
                   (rv, h', ssl') \<Rightarrow> (c\<lparr>h2_session := Some h', cc_ssl := ssl'\<rparr>, tasks, Inr ())) in
           if data = [] then send_all c h []
           else
             (case nghttp2_session_mem_recv h2 h data h2_callback
                     \<lparr>u_streams = h2_streams c, u_tasks = []\<rparr> of
                (rv, h', u) \<Rightarrow>
                  let c' = c\<lparr>h2_session := Some h', h2_streams := u_streams u\<rparr> in
                  if rv < 0
                  then (c', u_tasks u, Inl (runtime_error ''nghttp2_session_mem_recv failed''))
                  else
                    (case rb_consume (readBuffer c') (nat rv) of
                       Inl e \<Rightarrow> (c', u_tasks u, Inl e)
                     | Inr b \<Rightarrow> send_all (c'\<lparr>readBuffer := b\<rparr>) h' (u_tasks u)))))"

definition submitHttp2Response ::
  "'s openssl \<Rightarrow> ('j, 's, 'h) nghttp2 \<Rightarrow> ('j, 's, 'h) ClientConnection \<Rightarrow> stream_id \<Rightarrow> HttpResponse \<Rightarrow>
   ('j, 's, 'h) ClientConnection" where
  "submitHttp2Response api h2 c sid response =
     (case h2_session c of
        None \<Rightarrow> c
      | Some h \<Rightarrow>
          (case nghttp2_session_send h2
                  (nghttp2_submit_response h2 h sid
                     [('':status'', to_string (status_code (rs_status response)))] (rs_body response))
                  (h2_send_cb api) (cc_ssl c) of
             (rv, h', ssl') \<Rightarrow> c\<lparr>h2_session := Some h', cc_ssl := ssl'\<rparr>))"

text \<open>
  The data source of a response: \<open>None\<close> once the string behind \<open>source->ptr\<close> is deleted. A call
  returns the bytes copied, whether it set the end-of-file flag, and the source.
\<close>

definition h2_response_read_cb :: "string \<Rightarrow> nat \<Rightarrow> string \<times> bool \<times> string option" where
  "h2_response_read_cb response_body len =
     (if response_body = [] then ([], True, None)
      else
        (let copy_len = min len (length response_body);
             rest = drop copy_len response_body in
         (take copy_len response_body, rest = [], if rest = [] then None else Some rest)))"

text \<open>nghttp2 asks for more until the end-of-file flag; the lengths are its frame sizes.\<close>

fun h2_read_all :: "string option \<Rightarrow> nat list \<Rightarrow> string \<times> string option" where
  "h2_read_all None lens = ([], None)"
| "h2_read_all src [] = ([], src)"
| "h2_read_all (Some b) (n # lens) =
     (case h2_response_read_cb b n of
        (out, eof, src) \<Rightarrow> (case h2_read_all src lens of (outs, src') \<Rightarrow> (out @ outs, src')))"

section \<open>Bytes\<close>

lemma byte_char8 [simp]: "byte (char8 b) = b"
  using unsigned_less [of b, where ?'a = nat] by (simp add: byte_def char8_def)

lemma of_char_less: "(of_char c :: nat) < 256"
  by (metis char_of_char of_char_of mod_less_divisor zero_less_numeral)

lemma char8_byte [simp]: "char8 (byte c) = c"
  using of_char_less [of c] by (simp add: byte_def char8_def unat_of_nat take_bit_eq_mod)

lemma byte_mask_id: "unat w < 2 ^ n \<Longrightarrow> n < 8 \<Longrightarrow> (w :: 8 word) AND mask n = w"
proof (rule iffD2 [OF word_eq_iff_unsigned])
  assume "unat w < 2 ^ n" "n < 8"
  then have "take_bit n (unat w) = unat w" by (intro take_bit_nat_eq_self)
  then show "unat (w AND mask n) = unat w"
    using \<open>n < 8\<close> by (simp flip: take_bit_eq_mask add: unsigned_take_bit_eq)
qed

lemma low7: "(w :: 8 word) < 128 \<Longrightarrow> w AND 0x7F = w" and low4: "w < 16 \<Longrightarrow> w AND 0x0F = w"
  using byte_mask_id [of w 7] byte_mask_id [of w 4]
  by (simp_all add: mask_eq_exp_minus_1 word_less_nat_alt)

lemma low7_or: "(w :: 8 word) < 128 \<Longrightarrow> (0x80 OR w) AND 0x7F = w"
  and low4_or: "w < 16 \<Longrightarrow> (0x80 OR w) AND 0x0F = w"
  using low7 [of w] low4 [of w] by (simp_all add: bit.conj_disj_distrib2)

lemma high_or: "(0x80 OR w) AND 0x80 = (0x80 :: 8 word)"
  by (simp add: bit.conj_disj_distrib2 bit.conj_disj_distrib)

lemma high_small: "(w :: 8 word) < 128 \<Longrightarrow> w AND 0x80 = 0"
proof -
  assume "w < 128"
  then have "w AND 0x80 = (w AND 0x7F) AND 0x80" by (simp add: low7)
  also have "\<dots> = 0" by (simp add: and.assoc)
  finally show ?thesis .
qed

lemmas byte_masks = low7 low4 low7_or low4_or high_or high_small

section \<open>The length field\<close>

lemma ucast_len_byte: "ucast (byte (ws_len_byte len i)) = take_bit 8 (drop_bit (i * 8) len)"
proof -
  have "(0xFF :: size_t) = mask 8" by (simp add: mask_eq_exp_minus_1)
  show ?thesis unfolding ws_len_byte_def \<open>0xFF = mask 8\<close>
    by (rule bit_eqI) (auto simp: bit_simps)
qed

lemma len_byte_step:
  "push_bit 8 (drop_bit (Suc i * 8) len) OR ucast (byte (ws_len_byte len i)) = drop_bit (i * 8) (len :: size_t)"
  unfolding ucast_len_byte by (rule bit_eqI) (auto simp: bit_simps add.commute)

lemma be_bytes_len:
  "be_bytes (map (ws_len_byte len) (rev [0..<k])) (drop_bit (k * 8) len) = len"
  by (induction k) (simp_all add: len_byte_step [simplified])

lemma be_bytes_8: "be_bytes (map (ws_len_byte len) [7, 6, 5, 4, 3, 2, 1, 0]) 0 = len"
  using be_bytes_len [of len 8] by (simp add: upt_conv_Cons numeral_eq_Suc)

section \<open>Frames on the wire\<close>

text \<open>
  A frame as a peer writes it (RFC 6455, section 5.2): flag and opcode, mask bit and length,
  extended length, masking key, payload. The server's own frames are the unmasked final ones.
\<close>

definition mask_bit :: "string option \<Rightarrow> 8 word" where
  "mask_bit key = (if key = None then 0 else 0x80)"

definition wire_length :: "string option \<Rightarrow> nat \<Rightarrow> string" where
  "wire_length key n =
     (if n < 126 then [char8 (mask_bit key OR of_nat n)]
      else if n \<le> 65535 then char8 (mask_bit key OR 126) # map (ws_len_byte (of_nat n)) [1, 0]
      else char8 (mask_bit key OR 127) # map (ws_len_byte (of_nat n)) [7, 6, 5, 4, 3, 2, 1, 0])"

definition wire_payload :: "string option \<Rightarrow> string \<Rightarrow> string" where
  "wire_payload key msg = (case key of None \<Rightarrow> msg | Some k \<Rightarrow> k @ ws_unmask True k msg)"

definition wire_frame :: "bool \<Rightarrow> WebSocketOpcode \<Rightarrow> string option \<Rightarrow> string \<Rightarrow> string" where
  "wire_frame f op key msg =
     char8 ((if f then 0x80 else 0) OR opcode_byte op) #
     wire_length key (length msg) @ wire_payload key msg"

text \<open>A frame that can be written: the opcode has four bits, the key four bytes.\<close>

definition wire_ok :: "WebSocketOpcode \<Rightarrow> string option \<Rightarrow> string \<Rightarrow> bool" where
  "wire_ok op key msg \<longleftrightarrow> opcode_byte op < 16 \<and> opcode_of (opcode_byte op) = op \<and>
     (\<forall>k. key = Some k \<longrightarrow> length k = 4) \<and> length msg < 2 ^ 62"

lemma ws_frame_wire: "length msg < 2 ^ 62 \<Longrightarrow> ws_frame msg op = wire_frame True op None msg"
  by (auto simp: ws_frame_def wire_frame_def wire_length_def wire_payload_def mask_bit_def Let_def
      word_less_nat_alt word_le_nat_alt unat_of_nat take_bit_eq_mod unsigned_of_nat)

lemma ws_unmask_length [simp]: "length (ws_unmask m k raw) = length raw"
  by (simp add: ws_unmask_def)

lemma ws_unmask_mask: "ws_unmask True k (ws_unmask True k msg) = msg"
  by (rule nth_equalityI) (simp_all add: ws_unmask_def xor.assoc)

lemma ws_unmask_plain: "ws_unmask False k msg = msg"
  by (rule nth_equalityI) (simp_all add: ws_unmask_def)

lemma mask_bit_props:
  "w < 128 \<Longrightarrow> (mask_bit key OR w) AND 0x7F = w"
  "w < 128 \<Longrightarrow> ((mask_bit key OR w) AND 0x80 \<noteq> 0) = (key \<noteq> None)"
  by (auto simp: mask_bit_def byte_masks)

lemma unat_small: "n < 2 ^ 62 \<Longrightarrow> unat (of_nat n :: size_t) = n"
  by (rule unat_of_nat_size) simp

lemma be_bytes_2: "n \<le> 65535 \<Longrightarrow>
    push_bit 8 (ucast (byte (ws_len_byte (of_nat n) 1))) OR ucast (byte (ws_len_byte (of_nat n) 0)) =
    (of_nat n :: size_t)"
proof -
  assume n: "n \<le> 65535"
  have "drop_bit 16 (of_nat n :: size_t) = 0"
  proof -
    have "unat (drop_bit 16 (of_nat n :: size_t)) = drop_bit 16 (take_bit 64 (unat (of_nat n :: size_t)))"
      by (simp only: unsigned_drop_bit_eq) simp
    also have "\<dots> = 0" using n by (simp add: unat_of_nat take_bit_eq_mod drop_bit_eq_div)
    finally show ?thesis by (simp only: unsigned_eq_0_iff)
  qed
  then show ?thesis
    using be_bytes_len [of "of_nat n" 2] by (simp add: upt_conv_Cons numeral_2_eq_2)
qed

text \<open>What the parser reads from the length field.\<close>

definition ext_len :: "nat \<Rightarrow> nat" where
  "ext_len n = (if n < 126 then 2 else if n \<le> 65535 then 4 else 10)"

lemma wire_length_length: "length (wire_length key n) = ext_len n - 1"
  by (simp add: wire_length_def ext_len_def)

lemma ws_length_wire:
  assumes "n < 2 ^ 62"
  shows "ws_length (c # wire_length key n @ x) (ucast (byte ((wire_length key n @ x) ! 0) AND 0x7F)) =
    Some (of_nat n, ext_len n)"
proof -
  consider "n < 126" | "\<not> n < 126" "n \<le> 65535" | "\<not> n \<le> 65535" by linarith
  then show ?thesis
  proof cases
    case 1
    then have w: "(of_nat n :: 8 word) < 128" "(ucast (of_nat n :: 8 word) :: size_t) = of_nat n"
      by (simp_all add: word_less_nat_alt unat_of_nat take_bit_eq_mod unsigned_of_nat)
    have "(of_nat n :: size_t) \<noteq> 126" "(of_nat n :: size_t) \<noteq> 127"
      using 1 by (simp_all add: of_nat_eq_size_iff)
    then show ?thesis using 1
      by (simp add: wire_length_def ext_len_def ws_length_def mask_bit_props [OF w(1)] w(2))
  next
    case 2
    then show ?thesis
      by (simp add: wire_length_def ext_len_def ws_length_def mask_bit_props be_bytes_2 [simplified])
  next
    case 3
    then show ?thesis
      using be_bytes_8 [of "of_nat n"]
      by (simp add: wire_length_def ext_len_def ws_length_def mask_bit_props)
  qed
qed

lemma ws_masked_wire:
  "(byte ((wire_length key n @ x) ! 0) AND 0x80 \<noteq> 0) = (key \<noteq> None)"
proof (cases "n < 126")
  case True
  then have "(of_nat n :: 8 word) < 128"
    by (simp add: word_less_nat_alt unat_of_nat take_bit_eq_mod)
  then show ?thesis using True by (simp add: wire_length_def mask_bit_props)
qed (auto simp: wire_length_def mask_bit_props)

lemma ws_mask_wire:
  assumes "wire_ok op key msg" and h: "length h = n"
  shows "ws_mask (h @ wire_payload key msg @ x) (key \<noteq> None) n =
    Some (case key of None \<Rightarrow> (replicate 4 (char8 0), n) | Some k \<Rightarrow> (k, n + 4))"
  using assms by (cases key) (auto simp: ws_mask_def wire_payload_def wire_ok_def)

lemma unmask_wire:
  assumes "wire_ok op key msg"
  shows "ws_unmask (key \<noteq> None) (case key of None \<Rightarrow> z | Some k \<Rightarrow> k)
    (sv_substr (h @ wire_payload key msg @ x)
       (length h + (case key of None \<Rightarrow> 0 | Some k \<Rightarrow> 4)) (length msg)) = msg"
  using assms
  by (cases key) (auto simp: sv_substr_def wire_payload_def wire_ok_def ws_unmask_mask ws_unmask_plain)

lemma wire_payload_length:
  "wire_ok op key msg \<Longrightarrow>
     length (wire_payload key msg) = (case key of None \<Rightarrow> 0 | Some k \<Rightarrow> 4) + length msg"
  by (cases key) (auto simp: wire_payload_def wire_ok_def)

lemma first_byte_wire:
  assumes "opcode_byte op < 16"
  shows "(((if f then 0x80 else 0) OR opcode_byte op) AND 0x80 \<noteq> 0) = f"
    and "((if f then 0x80 else 0) OR opcode_byte op) AND 0x0F = opcode_byte op"
  using assms less_trans [of "opcode_byte op" 16 128]
  by (auto simp: byte_masks)

text \<open>The length of a frame, and what the parser does on a buffer that starts with one.\<close>

lemma wire_frame_length:
  "wire_ok op key msg \<Longrightarrow> length (wire_frame f op key msg) =
     ext_len (length msg) + (case key of None \<Rightarrow> 0 | Some k \<Rightarrow> 4) + length msg"
  by (simp add: wire_frame_def wire_length_length wire_payload_length)
    (simp add: ext_len_def)

lemma unat_size_sum:
  "a \<le> 14 \<Longrightarrow> n < 2 ^ 62 \<Longrightarrow> unat (of_nat a + of_nat n :: size_t) = a + n"
  using unat_of_nat_size [of "a + n"] by simp

lemma parse_wire_frame:
  assumes ok: "wire_ok op key msg" and d: "rb_data (readBuffer c) = wire_frame f op key msg @ x"
    and len: "length x < 2 ^ 62"
  shows "\<exists>b. parseWebSocketFrame c fr =
      (c\<lparr>readBuffer := b\<rparr>, \<lparr>fin = f, opcode = op, payload = msg\<rparr>, Inr Complete) \<and> rb_data b = x"
proof -
  define kl :: nat where "kl = (case key of None \<Rightarrow> 0 | Some k \<Rightarrow> 4)"
  define n where "n = length msg"
  define c0 where "c0 = char8 ((if f then 0x80 else 0) OR opcode_byte op)"
  define h where "h = c0 # wire_length key n"
  define d where "d = rb_data (readBuffer c)"
  have n: "n < 2 ^ 62" and op: "opcode_byte op < 16" "opcode_of (opcode_byte op) = op"
    using ok by (simp_all add: wire_ok_def n_def)
  have h: "length h = ext_len n" by (simp add: h_def wire_length_length) (simp add: ext_len_def)
  have dh: "d = h @ wire_payload key msg @ x"
    using d by (simp add: d_def h_def wire_frame_def c0_def n_def)
  have d1: "d ! 1 = (wire_length key n @ wire_payload key msg @ x) ! 0" "d ! 0 = c0"
    by (simp_all add: dh h_def)
  have ln: "length d = ext_len n + kl + n + length x"
    using wire_payload_length [OF ok] h by (simp add: dh kl_def n_def)
  have small: "ext_len n + kl \<le> 14" "2 \<le> ext_len n"
    by (simp_all add: ext_len_def kl_def split: option.splits)
  have wl: "ws_length d (ucast (byte (d ! 1) AND 0x7F)) = Some (of_nat n, ext_len n)"
    using ws_length_wire [OF n, of c0 key "wire_payload key msg @ x"] d1(1) by (simp add: dh h_def)
  have masked: "(byte (d ! 1) AND 0x80 \<noteq> 0) = (key \<noteq> None)"
    using ws_masked_wire [of key n "wire_payload key msg @ x"] d1(1) by simp
  obtain hl where hl: "hl = ext_len n + kl" by blast
  have wm: "ws_mask d (key \<noteq> None) (ext_len n) =
      Some (case key of None \<Rightarrow> replicate 4 (char8 0) | Some k \<Rightarrow> k, hl)"
    using ws_mask_wire [OF ok h] by (auto simp: dh kl_def hl split: option.splits)
  have pl: "ws_unmask (key \<noteq> None) (case key of None \<Rightarrow> replicate 4 (char8 0) | Some k \<Rightarrow> k)
      (sv_substr d hl n) = msg"
    using unmask_wire [OF ok, of _ h x] h by (simp add: dh kl_def n_def hl)
  obtain L P T :: size_t where w: "of_nat (length d) = L" "of_nat n = P" "of_nat hl + P = T" by blast
  have u: "unat L = length d" "unat P = n" "unat T = hl + n"
    using unat_size_sum [of hl n] unat_small [OF n] unat_of_nat_size [of "length d"] n len small(1) ln
    by (simp_all add: hl flip: w)
  obtain b where b: "rb_consume (readBuffer c) (hl + n) = Inr b" "rb_data b = drop (hl + n) d"
    using rb.consume_ok [of "hl + n" "readBuffer c"] ln by (auto simp: d_def hl)
  have "\<not> L < T" "\<not> length d < 2" using u ln small(2) by (simp_all add: word_less_nat_alt hl)
  moreover have "\<not> string_max_size < unat P" using n u(2) by (simp add: string_max_size_def)
  moreover have "(byte (d ! 0) AND 0x80 \<noteq> 0) = f" "opcode_of (byte (d ! 0) AND 0x0F) = op"
    using first_byte_wire [OF op(1), of f] op(2) by (simp_all add: d1(2) c0_def)
  ultimately have "parseWebSocketFrame c fr =
      (c\<lparr>readBuffer := b\<rparr>, \<lparr>fin = f, opcode = op, payload = msg\<rparr>, Inr Complete)"
    using wl wm pl b(1)
    unfolding parseWebSocketFrame_def Let_def d_def [symmetric] masked
    by (simp add: w u(2,3) del: not_None_eq)
  moreover have "rb_data b = x"
    using b(2) wire_payload_length [OF ok] h by (simp add: dh kl_def n_def hl)
  ultimately show ?thesis by blast
qed

section \<open>Frames and fragments\<close>

lemma ws_length_append: "ws_length d n = Some r \<Longrightarrow> ws_length (d @ e) n = Some r"
  by (auto simp: ws_length_def nth_append split: if_splits)

lemma ws_length_header: "ws_length d n = Some (l, h) \<Longrightarrow> 2 \<le> length d \<Longrightarrow> 2 \<le> h \<and> h \<le> 10 \<and> h \<le> length d"
  by (auto simp: ws_length_def split: if_splits)

lemma ws_mask_append: "ws_mask d m h = Some r \<Longrightarrow> ws_mask (d @ e) m h = Some r"
  by (auto simp: ws_mask_def split: if_splits)

lemma ws_mask_header:
  "ws_mask d m h = Some (k, h') \<Longrightarrow> h \<le> length d \<Longrightarrow> h \<le> h' \<and> h' \<le> h + 4 \<and> h' \<le> length d"
  by (auto simp: ws_mask_def split: if_splits)

text \<open>
  The length check of the parser, on words. When it passes, either the frame is in the buffer or the
  declared length is within 14 of \<open>2 ^ 64\<close> and \<open>resize\<close> throws.
\<close>

lemma length_check:
  fixes p :: size_t
  assumes "\<not> of_nat (length d) < of_nat h + p" and "length d < 2 ^ 63" and "h \<le> 14"
  shows "if string_max_size < unat p then 2 ^ 64 \<le> unat p + 14
    else unat (of_nat h + p) = h + unat p \<and> h + unat p \<le> length d"
proof -
  have p: "unat p < 2 ^ 64" by (rule unat_size_less)
  have h: "unat (of_nat h :: size_t) = h" and d: "unat (of_nat (length d) :: size_t) = length d"
    using assms by (simp_all add: unat_of_nat_size)
  have s: "unat (of_nat h + p) = (h + unat p) mod 2 ^ 64"
    by (simp add: unat_word_ariths h)
  have "unat (of_nat h + p) \<le> length d"
    using assms(1) d by (simp add: word_less_nat_alt)
  then show ?thesis
  proof (cases "h + unat p < 2 ^ 64")
    case True
    then have "unat (of_nat h + p) = h + unat p" using s by simp
    moreover from this have "h + unat p < 2 ^ 63" using \<open>unat (of_nat h + p) \<le> length d\<close> assms(2) by simp
    ultimately show ?thesis
      using \<open>unat (of_nat h + p) \<le> length d\<close> by (simp add: string_max_size_def)
  next
    case False
    then have "2 ^ 64 \<le> unat p + 14" using assms(3) by simp
    moreover from this have "string_max_size < unat p" by (simp add: string_max_size_def)
    ultimately show ?thesis by simp
  qed
qed

text \<open>The result of the parser, spelled out for a buffer that fits the address space.\<close>

definition declared :: "string \<Rightarrow> (size_t \<times> bool \<times> string \<times> nat) option" where
  "declared data =
     (if length data < 2 then None
      else
        (case ws_length data (ucast (byte (data ! 1) AND 0x7F)) of
           None \<Rightarrow> None
         | Some (n, h0) \<Rightarrow>
             (let masked = (byte (data ! 1) AND 0x80 \<noteq> 0) in
              case ws_mask data masked h0 of
                None \<Rightarrow> None
              | Some (key, h) \<Rightarrow>
                  if of_nat (length data) < of_nat h + n then None else Some (n, masked, key, h))))"

lemma declared_bounds:
  assumes "declared d = Some (n, m, k, h)" "length d < 2 ^ 63"
  shows "2 \<le> h \<and> h \<le> 14 \<and> (if string_max_size < unat n then 2 ^ 64 \<le> unat n + 14
    else unat (of_nat h + n) = h + unat n \<and> h + unat n \<le> length d)"
proof -
  obtain h0 where h0: "ws_length d (ucast (byte (d ! 1) AND 0x7F)) = Some (n, h0)" "2 \<le> length d"
    "ws_mask d m h0 = Some (k, h)" "\<not> of_nat (length d) < of_nat h + n"
    using assms(1) by (auto simp: declared_def Let_def split: if_splits option.splits)
  have "2 \<le> h" "h \<le> 14"
    using ws_length_header [OF h0(1,2)] ws_mask_header [OF h0(3)] by auto
  then show ?thesis using length_check [OF h0(4) assms(2)] by simp
qed

lemma declared_append:
  assumes "declared d = Some (n, m, k, h)" "length (d @ e) < 2 ^ 63"
  shows "declared (d @ e) = Some (n, m, k, h)"
proof -
  obtain h0 where h0: "ws_length d (ucast (byte (d ! 1) AND 0x7F)) = Some (n, h0)" "2 \<le> length d"
    "ws_mask d m h0 = Some (k, h)" "\<not> of_nat (length d) < of_nat h + n"
    "m = (byte (d ! 1) AND 0x80 \<noteq> 0)"
    using assms(1) by (auto simp: declared_def Let_def split: if_splits option.splits)
  have "(d @ e) ! 1 = d ! 1" using h0(2) by (simp add: nth_append)
  moreover have "\<not> (of_nat (length (d @ e)) :: size_t) < of_nat h + n"
    using h0(4) assms(2) unat_of_nat_size [of "length d"] unat_of_nat_size [of "length (d @ e)"]
    by (simp add: word_less_nat_alt)
  ultimately show ?thesis
    using h0(2) ws_length_append [OF h0(1)] ws_mask_append [OF h0(3)]
    by (simp add: declared_def Let_def h0(5))
qed

lemma parseWebSocketFrame_declared:
  assumes "length (rb_data (readBuffer c)) < 2 ^ 63"
  shows "parseWebSocketFrame c fr =
    (let d = rb_data (readBuffer c) in
     case declared d of
       None \<Rightarrow> (c, fr, Inr Incomplete)
     | Some (n, m, k, h) \<Rightarrow>
         if string_max_size < unat n
         then (c, fr, Inl (length_error ''basic_string::_M_replace_aux''))
         else (c\<lparr>readBuffer := (readBuffer c)\<lparr>buffer := drop (h + unat n) d\<rparr>\<rparr>,
               \<lparr>fin = byte (d ! 0) AND 0x80 \<noteq> 0, opcode = opcode_of (byte (d ! 0) AND 0x0F),
                payload = ws_unmask m k (sv_substr d h (unat n))\<rparr>, Inr Complete))"
proof (cases "declared (rb_data (readBuffer c))")
  case None
  then show ?thesis
    by (auto simp: parseWebSocketFrame_def declared_def Let_def split: if_splits option.splits)
next
  case (Some r)
  obtain n m k h where r: "r = (n, m, k, h)" by (cases r)
  note b = declared_bounds [OF Some [unfolded r] assms]
  show ?thesis
    using Some b
    by (auto simp: r parseWebSocketFrame_def declared_def Let_def rb_consume_def rb_data_def
        split: if_splits option.splits)
qed

lemma parseWebSocketFrame_append:
  assumes p: "parseWebSocketFrame c fr = (c1, f1, res)" "res \<noteq> Inr Incomplete"
    and d: "rb_data (readBuffer c') = rb_data (readBuffer c) @ e"
      "length (rb_data (readBuffer c')) < 2 ^ 63"
  shows "\<exists>c2. parseWebSocketFrame c' fr = (c2, f1, res) \<and>
    rb_data (readBuffer c2) = rb_data (readBuffer c1) @ e"
proof -
  define D where "D = rb_data (readBuffer c)"
  have l: "length D < 2 ^ 63" using d by (simp add: D_def)
  obtain n m k h where dec: "declared D = Some (n, m, k, h)"
    using p parseWebSocketFrame_declared [of c fr] l
    by (cases "declared D") (auto simp: D_def)
  note b = declared_bounds [OF dec l]
  have dec': "declared (D @ e) = Some (n, m, k, h)"
    using declared_append [OF dec] d by (simp add: D_def)
  have "2 \<le> length D" using dec by (auto simp: declared_def split: if_splits)
  then have "(D @ e) ! 0 = D ! 0" by (cases D) auto
  moreover have buf: "buffer (readBuffer c) = D" "buffer (readBuffer c') = D @ e"
    using d(1) by (simp_all add: D_def rb_data_def)
  moreover have "parseWebSocketFrame c fr =
      (if string_max_size < unat n then (c, fr, Inl (length_error ''basic_string::_M_replace_aux''))
       else (c\<lparr>readBuffer := (readBuffer c)\<lparr>buffer := drop (h + unat n) D\<rparr>\<rparr>,
         \<lparr>fin = byte (D ! 0) AND 0x80 \<noteq> 0, opcode = opcode_of (byte (D ! 0) AND 0x0F),
          payload = ws_unmask m k (sv_substr D h (unat n))\<rparr>, Inr Complete))"
    using parseWebSocketFrame_declared [of c fr] l by (simp add: rb_data_def buf dec Let_def)
  moreover have "parseWebSocketFrame c' fr =
      (if string_max_size < unat n then (c', fr, Inl (length_error ''basic_string::_M_replace_aux''))
       else (c'\<lparr>readBuffer := (readBuffer c')\<lparr>buffer := drop (h + unat n) (D @ e)\<rparr>\<rparr>,
         \<lparr>fin = byte ((D @ e) ! 0) AND 0x80 \<noteq> 0, opcode = opcode_of (byte ((D @ e) ! 0) AND 0x0F),
          payload = ws_unmask m k (sv_substr (D @ e) h (unat n))\<rparr>, Inr Complete))"
    using parseWebSocketFrame_declared [of c' fr] d(2) by (simp add: rb_data_def buf dec' Let_def)
  ultimately show ?thesis
    using p(1) b by (auto simp: rb_data_def sv_substr_def split: if_splits)
qed

lemma parse_wire_prefix:
  assumes ok: "wire_ok op key msg"
    and d: "wire_frame f op key msg = rb_data (readBuffer c) @ e" "e \<noteq> []"
  shows "parseWebSocketFrame c fr = (c, fr, Inr Incomplete)"
proof (rule ccontr)
  assume ne: "\<not> ?thesis"
  have len: "length (wire_frame f op key msg) < 2 ^ 63"
    using ok wire_frame_length [OF ok, of f]
    by (auto simp: wire_ok_def ext_len_def split: option.splits)
  then have l: "length (rb_data (readBuffer c)) < 2 ^ 63" by (simp add: d(1))
  obtain c1 f1 res where p: "parseWebSocketFrame c fr = (c1, f1, res)"
    using prod_cases3 by blast
  have res: "res \<noteq> Inr Incomplete"
    using ne p parseWebSocketFrame_declared [OF l, of fr]
    by (auto simp: Let_def split: option.splits if_splits prod.splits)
  define c' where "c' = c\<lparr>readBuffer := \<lparr>buffer = wire_frame f op key msg\<rparr>\<rparr>"
  have d': "rb_data (readBuffer c') = rb_data (readBuffer c) @ e"
    "rb_data (readBuffer c') = wire_frame f op key msg @ []"
    by (simp_all add: c'_def rb_data_def d(1) [unfolded rb_data_def])
  obtain c2 where c2: "parseWebSocketFrame c' fr = (c2, f1, res)"
    "rb_data (readBuffer c2) = rb_data (readBuffer c1) @ e"
    using parseWebSocketFrame_append [OF p res d'(1)] len by (auto simp: d'(2))
  obtain b where "parseWebSocketFrame c' fr =
      (c'\<lparr>readBuffer := b\<rparr>, \<lparr>fin = f, opcode = op, payload = msg\<rparr>, Inr Complete)" "rb_data b = []"
    using parse_wire_frame [OF ok d'(2)] by auto
  then show False using c2 d(2) by simp
qed

section \<open>Reading\<close>

text \<open>
  Documented behaviour of \<open>SSL_read\<close> on a non-blocking socket: while decrypted bytes are available
  (\<open>avail\<close>) it returns a positive number of them, in order, and otherwise no bytes.
\<close>

definition ssl_read_ok :: "'s openssl \<Rightarrow> ('s \<Rightarrow> string) \<Rightarrow> bool" where
  "ssl_read_ok api avail \<longleftrightarrow>
     (\<forall>s n bytes s'. SSL_read api s 8192 = (n, bytes, s') \<longrightarrow>
        (if avail s = [] then n \<le> 0 \<and> avail s' = []
         else 0 < n \<and> n \<le> 8192 \<and> avail s = take (nat n) bytes @ avail s' \<and> nat n \<le> length bytes))"

definition read_verdict :: "SslError \<Rightarrow> std_exception + bool" where
  "read_verdict e =
     (case e of SSL_ERROR_ZERO_RETURN \<Rightarrow> Inr False | SSL_ERROR_WANT_READ \<Rightarrow> Inr True
      | SSL_ERROR_WANT_WRITE \<Rightarrow> Inr True | SSL_ERROR_SYSCALL \<Rightarrow> Inr False
      | SSL_ERROR_OTHER k \<Rightarrow> Inl (runtime_error ''SSL_read failed''))"

lemma conn_read_returns:
  assumes ok: "ssl_read_ok api avail"
  shows "\<exists>n ssl' b. conn_read api c =
      Some (c\<lparr>cc_ssl := ssl', readBuffer := b\<rparr>, read_verdict (SSL_get_error api ssl' n)) \<and>
    rb_data b = rb_data (readBuffer c) @ avail (cc_ssl c) \<and> avail ssl' = [] \<and> n \<le> 0"
proof (induction "length (avail (cc_ssl c))" arbitrary: c rule: less_induct)
  case less
  obtain n bytes s' where r: "SSL_read api (cc_ssl c) 8192 = (n, bytes, s')"
    using prod_cases3 by blast
  have law: "if avail (cc_ssl c) = [] then n \<le> 0 \<and> avail s' = []
      else 0 < n \<and> n \<le> 8192 \<and> avail (cc_ssl c) = take (nat n) bytes @ avail s' \<and> nat n \<le> length bytes"
    using ok r by (simp add: ssl_read_ok_def)
  show ?case
  proof (cases "avail (cc_ssl c) = []")
    case True
    then have "n \<le> 0" "avail s' = []" using law by simp_all
    then have "conn_read api c =
        Some (c\<lparr>cc_ssl := s', readBuffer := readBuffer c\<rparr>, read_verdict (SSL_get_error api s' n))"
      by (subst conn_read.simps) (simp add: r read_verdict_def)
    then show ?thesis using True \<open>avail s' = []\<close> \<open>n \<le> 0\<close> by (metis append_Nil2)
  next
    case False
    then have n: "0 < n" "avail (cc_ssl c) = take (nat n) bytes @ avail s'" "nat n \<le> length bytes"
      using law by simp_all
    define c1 where "c1 = c\<lparr>cc_ssl := s', readBuffer := rb_append (readBuffer c) (take (nat n) bytes)\<rparr>"
    have "length (avail (cc_ssl c1)) < length (avail (cc_ssl c))"
      using n by (simp add: c1_def)
    from less [OF this] obtain k ssl' b where
      "conn_read api c1 = Some (c1\<lparr>cc_ssl := ssl', readBuffer := b\<rparr>, read_verdict (SSL_get_error api ssl' k))"
      "rb_data b = rb_data (readBuffer c1) @ avail (cc_ssl c1)" "avail ssl' = []" "k \<le> 0"
      by blast
    moreover have "conn_read api c = conn_read api c1"
      using n(1) by (subst conn_read.simps) (simp add: r c1_def)
    ultimately have "conn_read api c =
        Some (c\<lparr>cc_ssl := ssl', readBuffer := b\<rparr>, read_verdict (SSL_get_error api ssl' k)) \<and>
      rb_data b = rb_data (readBuffer c) @ avail (cc_ssl c) \<and> avail ssl' = [] \<and> k \<le> 0"
      by (simp add: c1_def n(2) rb.contents_append)
    then show ?thesis by blast
  qed
qed

section \<open>Sending\<close>

text \<open>
  Documented behaviour of \<open>SSL_write\<close>: a positive result is the number of leading bytes that went
  out (\<open>wire\<close>), any other result means that none did.
\<close>

definition ssl_write_ok :: "'s openssl \<Rightarrow> ('s \<Rightarrow> string) \<Rightarrow> bool" where
  "ssl_write_ok api wire \<longleftrightarrow>
     (\<forall>s d n s'. SSL_write api s d = (n, s') \<longrightarrow>
        (if 0 < n then nat n \<le> length d \<and> wire s' = wire s @ take (nat n) d else wire s' = wire s))"

lemma conn_send_loop_prefix:
  assumes "ssl_write_ok api wire" and "conn_send_loop api s d = (s', res)"
  shows "\<exists>k \<le> length d. wire s' = wire s @ take k d"
  using assms
proof (induction api s d rule: conn_send_loop.induct)
  case (1 api s d)
  obtain n s1 where w: "SSL_write api s d = (n, s1)" by fastforce
  have law: "if 0 < n then nat n \<le> length d \<and> wire s1 = wire s @ take (nat n) d else wire s1 = wire s"
    using "1.prems"(1) w by (simp add: ssl_write_ok_def)
  show ?case
  proof (cases "d \<noteq> [] \<and> 0 < n")
    case True
    then have "conn_send_loop api s1 (drop (nat n) d) = (s', res)"
      using "1.prems"(2) w by (simp add: conn_send_loop.simps [of api s d])
    then obtain k where "k \<le> length (drop (nat n) d)" "wire s' = wire s1 @ take k (drop (nat n) d)"
      using "1.IH" [OF _ w [symmetric]] True "1.prems"(1) by auto
    then show ?thesis
      using law True by (intro exI [of _ "nat n + k"]) (auto simp: take_add)
  next
    case False
    then have "s' = s1 \<and> \<not> 0 < n \<or> s' = s"
      using "1.prems"(2) w
      by (auto simp: conn_send_loop.simps [of api s d] split: if_splits SslError.splits)
    then show ?thesis using False law by (intro exI [of _ 0]) auto
  qed
qed

lemma conn_send_loop_all:
  assumes "ssl_write_ok api wire" and "\<forall>s d. d \<noteq> [] \<longrightarrow> 0 < fst (SSL_write api s d)"
  shows "\<exists>s'. conn_send_loop api s d = (s', Inr ()) \<and> wire s' = wire s @ d"
  using assms
proof (induction api s d rule: conn_send_loop.induct)
  case (1 api s d)
  obtain n s1 where w: "SSL_write api s d = (n, s1)" by fastforce
  show ?case
  proof (cases "d = []")
    case False
    then have n: "0 < n" "nat n \<le> length d" "wire s1 = wire s @ take (nat n) d"
      using "1.prems" w by (auto simp: ssl_write_ok_def dest!: spec [of _ s] spec [of _ d])
    then obtain s' where "conn_send_loop api s1 (drop (nat n) d) = (s', Inr ())"
      "wire s' = wire s1 @ drop (nat n) d"
      using "1.IH" [OF False w [symmetric]] "1.prems" by auto
    then show ?thesis using False n w by (simp add: conn_send_loop.simps [of api s d])
  qed (simp add: conn_send_loop.simps)
qed

section \<open>The connection invariant\<close>

text \<open>
  What the other operations rely on, for any request object: the parser's position lies within the
  buffer, the subtraction of \<open>handleChunkData\<close> does not wrap, and an HTTP/2 connection has a session.
\<close>

definition parser_wf :: "string \<Rightarrow> HttpParser \<Rightarrow> bool" where
  "parser_wf d p \<longleftrightarrow> consumed p \<le> length d \<and>
     (state p = StChunkData \<longrightarrow> chunkBytesRead p \<le> unat (chunkSize p))"

definition http2_ready :: "('j, 's, 'h) ClientConnection \<Rightarrow> bool" where
  "http2_ready c \<longleftrightarrow> (is_http2 c \<longrightarrow> h2_session c \<noteq> None)"

text \<open>A connection that does not speak HTTP/1.1 (yet, or any more) has a fresh parser.\<close>

definition conn_inv :: "('j, 's, 'h) ClientConnection \<Rightarrow> bool" where
  "conn_inv c \<longleftrightarrow> parser_wf (rb_data (readBuffer c)) (parser c) \<and> http2_ready c \<and>
     (is_websocket c \<or> is_http2 c \<or> \<not> handshakeComplete c \<longrightarrow> parser c = new_parser)"

lemma parser_step_wf:
  assumes s: "parser_step d p r = (p', r', v)" and wf: "parser_wf d p"
  shows "parser_wf d p'"
proof -
  have le: "consumed p \<le> length d" using wf by (simp add: parser_wf_def)
  note find = drop_find_bound [OF _ le]
  have sf: "select_framing (p\<lparr>consumed := consumed p + i + 4\<rparr>) q = (p', r', v) \<Longrightarrow>
      sv_find CRLF2 (drop (consumed p) d) = Some i \<Longrightarrow> parser_wf d p'" for i q
    using find [of CRLF2 i]
    by (auto simp: select_framing_def parser_fail_def parser_wf_def Let_def split: if_splits prod.splits)
  show ?thesis
  proof (cases "state p")
    case StHeaders
    then show ?thesis using s wf sf
      by (auto simp: parser_step_def handleHeaders_def parser_fail_def parser_wf_def Let_def
          split: if_splits option.splits prod.splits ParseResult.splits)
  qed (use s wf in \<open>auto simp: parser_step_def handleRequestLine_def handleBody_def handleChunkSize_def
      handleChunkData_def handleChunkDataCrlf_def handleChunkTrailer_def parser_fail_def parser_wf_def Let_def
      split: if_splits option.splits prod.splits ParseResult.splits dest!: find dest: prefix_length_le\<close>)
qed

lemma parse_wf:
  assumes "parse d p r = (p', r', v)" "parser_wf d p"
  shows "parser_wf d p'"
  using assms by (induction rule: parse_run_induct) (auto dest: parser_step_wf)

lemma parser_wf_new: "parser_wf d new_parser"
  by (simp add: parser_wf_def new_parser_def)

lemma parser_wf_append: "parser_wf d p \<Longrightarrow> parser_wf (d @ e) p"
  by (auto simp: parser_wf_def)

named_theorems conn_inv_intros

lemma conn_inv_new [conn_inv_intros]: "conn_inv (new_connection fd ssl now)"
  by (simp add: conn_inv_def new_connection_def parser_wf_new http2_ready_def)

lemma conn_inv_cong: "conn_inv c \<Longrightarrow> conn_inv (c\<lparr>cc_ssl := s\<rparr>)"
  by (simp add: conn_inv_def http2_ready_def)

lemma conn_read_frame:
  fixes api :: "'s openssl" and c :: "('j, 's, 'h) ClientConnection"
  assumes "conn_read api c = Some r"
  shows "\<exists>s b x. fst r = c\<lparr>cc_ssl := s, readBuffer := b\<rparr> \<and> rb_data b = rb_data (readBuffer c) @ x"
  using assms
proof (rule conn_read.raw_induct [where P = "\<lambda>api c r. \<exists>s b x. fst r = c\<lparr>cc_ssl := s, readBuffer := b\<rparr> \<and>
    rb_data b = rb_data (readBuffer c) @ x", rotated])
  fix f :: "'s openssl \<Rightarrow> ('j, 's, 'h) ClientConnection \<Rightarrow>
      (('j, 's, 'h) ClientConnection \<times> (std_exception + bool)) option"
    and api :: "'s openssl" and c :: "('j, 's, 'h) ClientConnection" and r
  assume IH: "\<And>api c r. f api c = Some r \<Longrightarrow>
      \<exists>s b x. fst r = c\<lparr>cc_ssl := s, readBuffer := b\<rparr> \<and> rb_data b = rb_data (readBuffer c) @ x"
    and eq: "(case SSL_read api (cc_ssl c) 8192 of
        (bytesReceived, temporaryBuffer, ssl') \<Rightarrow>
          if 0 < bytesReceived then
            f api (c\<lparr>cc_ssl := ssl',
              readBuffer := rb_append (readBuffer c) (take (nat bytesReceived) temporaryBuffer)\<rparr>)
          else Some (c\<lparr>cc_ssl := ssl'\<rparr>,
              (case SSL_get_error api ssl' bytesReceived of
                 SSL_ERROR_ZERO_RETURN \<Rightarrow> Inr False
               | SSL_ERROR_WANT_READ \<Rightarrow> Inr True
               | SSL_ERROR_WANT_WRITE \<Rightarrow> Inr True
               | SSL_ERROR_SYSCALL \<Rightarrow> Inr False
               | SSL_ERROR_OTHER _ \<Rightarrow> Inl (runtime_error ''SSL_read failed'')))) = Some r"
  obtain n bytes s' where rd: "SSL_read api (cc_ssl c) 8192 = (n, bytes, s')"
    using prod_cases3 by blast
  show "\<exists>s b x. fst r = c\<lparr>cc_ssl := s, readBuffer := b\<rparr> \<and> rb_data b = rb_data (readBuffer c) @ x"
  proof (cases "0 < n")
    case True
    with eq rd obtain s b x where
      "fst r = c\<lparr>cc_ssl := s, readBuffer := b\<rparr>"
      "rb_data b = rb_data (rb_append (readBuffer c) (take (nat n) bytes)) @ x"
      using IH by (auto dest!: IH)
    then show ?thesis by (auto simp: rb.contents_append)
  next
    case False
    with eq rd have "fst r = c\<lparr>cc_ssl := s', readBuffer := readBuffer c\<rparr>" by auto
    then show ?thesis by (metis append_Nil2)
  qed
qed

lemma conn_read_inv [conn_inv_intros]:
  assumes "conn_read api c = Some (c', res)" "conn_inv c"
  shows "conn_inv c'"
  using conn_read_frame [OF assms(1)] assms(2)
  by (auto simp: conn_inv_def http2_ready_def parser_wf_append)

lemma conn_send_inv [conn_inv_intros]:
  "conn_send api c data = (c', res) \<Longrightarrow> conn_inv c \<Longrightarrow> conn_inv c'"
  by (auto simp: conn_send_def conn_inv_cong split: prod.splits)

lemma parseRequest_inv [conn_inv_intros]:
  assumes "parseRequest c r = (c', r', v)" "conn_inv c"
    and "\<not> is_websocket c" "\<not> is_http2 c" "handshakeComplete c"
  shows "conn_inv c'"
  using assms by (auto simp: parseRequest_def conn_inv_def http2_ready_def parse_wf split: prod.splits)

lemma consumeParsedRequest_inv [conn_inv_intros]:
  assumes "conn_inv c"
  shows "\<exists>b. consumeParsedRequest c = (c\<lparr>readBuffer := b, parser := new_parser\<rparr>, Inr ()) \<and>
      rb_data b = drop (consumedBytes (parser c)) (rb_data (readBuffer c)) \<and>
      conn_inv (c\<lparr>readBuffer := b, parser := new_parser\<rparr>)"
proof -
  have "consumedBytes (parser c) \<le> length (rb_data (readBuffer c))"
    using assms by (simp add: conn_inv_def parser_wf_def consumedBytes_def)
  then obtain b where "rb_consume (readBuffer c) (consumedBytes (parser c)) = Inr b"
    "rb_data b = drop (consumedBytes (parser c)) (rb_data (readBuffer c))"
    using rb.consume_ok by blast
  then show ?thesis
    using assms by (auto simp: consumeParsedRequest_def parser_reset_new conn_inv_def http2_ready_def
        parser_wf_new)
qed

lemma updateActivity_inv [conn_inv_intros]: "conn_inv c \<Longrightarrow> conn_inv (updateActivity now c)"
  by (simp add: updateActivity_def conn_inv_def http2_ready_def)

lemma doHandshake_inv [conn_inv_intros]:
  assumes "doHandshake api h2 c ev = (c', ev', res)" "conn_inv c"
  shows "conn_inv c'"
  using assms
  by (auto simp: doHandshake_def setupHttp2Session_def conn_inv_def http2_ready_def Let_def
      split: prod.splits if_splits SslError.splits)

lemma upgradeToWebSocket_inv [conn_inv_intros]: "conn_inv c \<Longrightarrow> conn_inv (upgradeToWebSocket c p)"
  by (simp add: upgradeToWebSocket_def conn_inv_def http2_ready_def parser_reset_new parser_wf_new)

lemma parseWebSocketFrame_inv [conn_inv_intros]:
  assumes "parseWebSocketFrame c f = (c', f', res)" "conn_inv c" "is_websocket c"
  shows "conn_inv c'"
proof -
  have "c' = c \<or> (\<exists>b. c' = c\<lparr>readBuffer := b\<rparr>)"
    using assms(1) by (auto simp: parseWebSocketFrame_def Let_def
        split: if_splits option.splits prod.splits sum.splits)
  then show ?thesis
    using assms(2,3) by (auto simp: conn_inv_def http2_ready_def parser_wf_new)
qed

lemma processHttp2_inv [conn_inv_intros]:
  assumes "processHttp2 api h2 c = (c', tasks, res)" "conn_inv c" "is_http2 c"
  shows "conn_inv c'"
  using assms
  by (auto simp: processHttp2_def conn_inv_def http2_ready_def parser_wf_new Let_def
      split: if_splits option.splits prod.splits sum.splits)

lemma submitHttp2Response_inv [conn_inv_intros]:
  "conn_inv c \<Longrightarrow> conn_inv (submitHttp2Response api h2 c sid resp)"
  by (auto simp: submitHttp2Response_def conn_inv_def http2_ready_def
      split: option.splits prod.splits)

section \<open>HTTP/2 streams\<close>

text \<open>A response body is handed to nghttp2 completely and in order, and its storage is released once.\<close>

lemma h2_response_read_cb_split:
  assumes "h2_response_read_cb b n = (out, eof, src)" "0 < n"
  shows "b = out @ (case src of None \<Rightarrow> [] | Some r \<Rightarrow> r) \<and> eof = (src = None) \<and>
    (\<forall>r. src = Some r \<longrightarrow> r \<noteq> [] \<and> length r < length b) \<and> length out \<le> n"
  using assms by (auto simp: h2_response_read_cb_def Let_def split: if_splits)

lemma h2_read_all_prefix:
  "h2_read_all (Some b) lens = (out, src) \<Longrightarrow> list_all (\<lambda>n. 0 < n) lens \<Longrightarrow>
     b = out @ (case src of None \<Rightarrow> [] | Some r \<Rightarrow> r)"
proof (induction lens arbitrary: b out)
  case (Cons n lens)
  obtain o1 eof s1 where r: "h2_response_read_cb b n = (o1, eof, s1)" using prod_cases3 by blast
  obtain o2 s2 where r2: "h2_read_all s1 lens = (o2, s2)" by fastforce
  have split: "b = o1 @ (case s1 of None \<Rightarrow> [] | Some r \<Rightarrow> r)"
    using h2_response_read_cb_split [OF r] Cons.prems by simp
  have o: "out = o1 @ o2" "src = s2" using Cons.prems r r2 by simp_all
  show ?case
  proof (cases s1)
    case None
    then show ?thesis using split r2 o by simp
  next
    case (Some r')
    then show ?thesis using split o Cons.IH [of r' o2] r2 Cons.prems(2) by simp
  qed
qed auto

lemma h2_read_all_done:
  assumes "list_all (\<lambda>n. 0 < n) lens" "length b < length lens"
  shows "h2_read_all (Some b) lens = (b, None)"
  using assms
proof (induction lens arbitrary: b)
  case (Cons n lens)
  obtain o1 eof s1 where r: "h2_response_read_cb b n = (o1, eof, s1)" using prod_cases3 by blast
  note sp = h2_response_read_cb_split [OF r]
  show ?case
  proof (cases s1)
    case None
    then show ?thesis using r sp Cons.prems by simp
  next
    case (Some r')
    then have "length r' < length b" "b = o1 @ r'" using sp Cons.prems(1) by auto
    moreover from this have "length r' < length lens"
      using Cons.prems(2) by (cases o1) simp_all
    then have "h2_read_all (Some r') lens = (r', None)" using Cons.IH [of r'] Cons.prems(1) by simp
    ultimately show ?thesis using r Some by simp
  qed
qed simp

text \<open>The callbacks of a connection run one after the other over the same user data.\<close>

definition h2_run :: "h2_event list \<Rightarrow> 'j h2_user \<Rightarrow> 'j h2_user" where
  "h2_run evs u = fold (\<lambda>e u. snd (h2_callback e u)) evs u"

fun event_stream :: "h2_event \<Rightarrow> stream_id" where
  "event_stream (H2_begin_headers ty sid) = sid"
| "event_stream (H2_header sid name v) = sid"
| "event_stream (H2_frame_recv ty flags sid) = sid"

definition stream_view :: "stream_id \<Rightarrow> 'j h2_user \<Rightarrow> 'j HttpRequest option \<times> 'j HttpRequest list" where
  "stream_view sid u = (u_streams u sid, map snd (filter (\<lambda>t. fst t = sid) (u_tasks u)))"

lemmas h2_cb_defs = h2_on_begin_headers_cb_def h2_on_header_cb_def h2_on_frame_recv_cb_def stream_req_def

lemma h2_callback_other:
  "event_stream e \<noteq> sid \<Longrightarrow> stream_view sid (snd (h2_callback e u)) = stream_view sid u"
  by (cases e) (auto simp: h2_cb_defs stream_view_def Let_def)

lemma h2_callback_same:
  "event_stream e = sid \<Longrightarrow> stream_view sid u = stream_view sid v \<Longrightarrow>
     stream_view sid (snd (h2_callback e u)) = stream_view sid (snd (h2_callback e v))"
  by (cases e) (auto simp: h2_cb_defs stream_view_def Let_def)

lemma h2_run_isolated:
  "stream_view sid u = stream_view sid v \<Longrightarrow>
     stream_view sid (h2_run evs u) =
     stream_view sid (h2_run (filter (\<lambda>e. event_stream e = sid) evs) v)"
proof (induction evs arbitrary: u v)
  case (Cons e evs)
  show ?case
  proof (cases "event_stream e = sid")
    case True
    then show ?thesis
      using Cons.IH [OF h2_callback_same [OF True Cons.prems]] by (simp add: h2_run_def)
  next
    case False
    then show ?thesis
      using Cons.IH [of "snd (h2_callback e u)" v] Cons.prems h2_callback_other [OF False, of u]
      by (simp add: h2_run_def)
  qed
qed (simp add: h2_run_def)

text \<open>A stream that announces its headers and ends becomes exactly one task with those headers.\<close>

fun h2_apply :: "'j HttpRequest \<Rightarrow> string \<times> string \<Rightarrow> 'j HttpRequest" where
  "h2_apply r (name, v) =
     (if name = '':method'' then req_setMethod r (h2_method v)
      else if name = '':path'' then req_setPath r v else req_setHeader r name v)"

lemma h2_run_headers:
  "u_streams u sid = Some r \<Longrightarrow>
     stream_view sid (h2_run (map (\<lambda>(n, v). H2_header sid n v) hs) u) =
     (Some (foldl h2_apply r hs), snd (stream_view sid u))"
proof (induction hs arbitrary: r u)
  case (Cons h hs)
  obtain n v where h: "h = (n, v)" by (cases h)
  define u' where "u' = snd (h2_on_header_cb sid n v u)"
  have "u_streams u' sid = Some (h2_apply r h)" "snd (stream_view sid u') = snd (stream_view sid u)"
    using Cons.prems by (simp_all add: u'_def h h2_cb_defs stream_view_def Let_def)
  then show ?case using Cons.IH [of u' "h2_apply r h"] by (simp add: h2_run_def h u'_def)
qed (simp add: h2_run_def stream_view_def)

lemma h2_run_append: "h2_run (xs @ ys) u = h2_run ys (h2_run xs u)"
  by (simp add: h2_run_def)

text \<open>Frames that do not end the stream are not handed on.\<close>

lemma h2_run_unended:
  "\<forall>(t, fl) \<in> set fs. fl AND NGHTTP2_FLAG_END_STREAM = 0 \<Longrightarrow> h2_run (map (\<lambda>(t, fl). H2_frame_recv t fl sid) fs) u = u"
  by (induction fs arbitrary: u) (auto simp: h2_run_def h2_on_frame_recv_cb_def)

lemma h2_request_complete:
  assumes "ty = NGHTTP2_HEADERS \<or> ty = NGHTTP2_DATA" and "flags AND NGHTTP2_FLAG_END_STREAM \<noteq> 0"
    and "\<forall>(t, fl) \<in> set fs. fl AND NGHTTP2_FLAG_END_STREAM = 0"
  shows "stream_view sid (h2_run (H2_begin_headers NGHTTP2_HEADERS sid # map (\<lambda>(n, v). H2_header sid n v) hs @
      map (\<lambda>(t, fl). H2_frame_recv t fl sid) fs @ [H2_frame_recv ty flags sid]) u) =
    (None, snd (stream_view sid u) @ [foldl h2_apply new_request hs])"
proof -
  define u1 where "u1 = snd (h2_on_begin_headers_cb NGHTTP2_HEADERS sid u)"
  define u2 where "u2 = h2_run (map (\<lambda>(n, v). H2_header sid n v) hs) u1"
  have "u_streams u1 sid = Some new_request" "snd (stream_view sid u1) = snd (stream_view sid u)"
    by (simp_all add: u1_def h2_cb_defs stream_view_def)
  then have "stream_view sid u2 = (Some (foldl h2_apply new_request hs), snd (stream_view sid u))"
    unfolding u2_def by (simp add: h2_run_headers)
  then have ends: "stream_view sid (snd (h2_on_frame_recv_cb ty flags sid u2)) =
      (None, snd (stream_view sid u) @ [foldl h2_apply new_request hs])"
    using assms(1,2) by (simp add: stream_view_def h2_cb_defs)
  have "h2_run (H2_begin_headers NGHTTP2_HEADERS sid # map (\<lambda>(n, v). H2_header sid n v) hs @
      map (\<lambda>(t, fl). H2_frame_recv t fl sid) fs @ [H2_frame_recv ty flags sid]) u =
    h2_run [H2_frame_recv ty flags sid] (h2_run (map (\<lambda>(t, fl). H2_frame_recv t fl sid) fs) u2)"
    by (simp add: u1_def u2_def h2_run_def)
  also have "\<dots> = snd (h2_on_frame_recv_cb ty flags sid u2)"
    unfolding h2_run_unended [OF assms(3)] by (simp add: h2_run_def)
  finally show ?thesis using ends by simp
qed

section \<open>All operations, in any order the server uses them\<close>

text \<open>
  The server calls the operations under these conditions: requests are parsed on a connection that
  finished its handshake and speaks HTTP/1.1, frames on an upgraded one, HTTP/2 data on one that
  negotiated it.
\<close>

inductive conn_step ::
  "'s openssl \<Rightarrow> ('j, 's, 'h) nghttp2 \<Rightarrow> ('j, 's, 'h) ClientConnection \<Rightarrow> ('j, 's, 'h) ClientConnection \<Rightarrow> bool"
  for api :: "'s openssl" and h2 :: "('j, 's, 'h) nghttp2" where
  handshake: "doHandshake api h2 c ev = (c', ev', res) \<Longrightarrow> conn_step api h2 c c'"
| read: "conn_read api c = Some (c', res) \<Longrightarrow> conn_step api h2 c c'"
| send: "conn_send api c data = (c', ok) \<Longrightarrow> conn_step api h2 c c'"
| request: "handshakeComplete c \<Longrightarrow> \<not> is_http2 c \<Longrightarrow> \<not> is_websocket c \<Longrightarrow>
    parseRequest c r = (c', r', v) \<Longrightarrow> conn_step api h2 c c'"
| consume: "consumeParsedRequest c = (c', ok) \<Longrightarrow> conn_step api h2 c c'"
| upgrade: "conn_step api h2 c (upgradeToWebSocket c path)"
| frame: "is_websocket c \<Longrightarrow> parseWebSocketFrame c f = (c', f', out) \<Longrightarrow> conn_step api h2 c c'"
| message: "sendWebSocketMessage api c msg op = (c', ok) \<Longrightarrow> conn_step api h2 c c'"
| http2: "is_http2 c \<Longrightarrow> processHttp2 api h2 c = (c', tasks, ok) \<Longrightarrow> conn_step api h2 c c'"
| respond: "conn_step api h2 c (submitHttp2Response api h2 c sid resp)"
| touch: "conn_step api h2 c (updateActivity now c)"

definition conn_init :: "('j, 's, 'h) ClientConnection \<Rightarrow> bool" where
  "conn_init c \<longleftrightarrow> (\<exists>fd ssl now. c = new_connection fd ssl now)"

lemma conn_inv_step: "conn_inv c \<Longrightarrow> conn_step api h2 c c' \<Longrightarrow> conn_inv c'"
proof (erule conn_step.cases, goal_cases)
  case 5
  then show ?case using consumeParsedRequest_inv [of c] by auto
next
  case 8
  then show ?case by (auto simp: sendWebSocketMessage_def intro: conn_send_inv)
qed (auto intro: conn_inv_intros)

interpretation conn: invariant_system conn_init "conn_step api h2" conn_inv for api h2
  by unfold_locales (auto simp: conn_init_def conn_inv_new conn_inv_step)

end
