(* ===== verification/Router.thy ===== *)
theory Router
  imports Client_Connection
begin

text \<open>
  \<^verbatim>\<open>src/src/http/Router.cpp\<close>: path matching, registration of routes and middlewares, dispatch, the
  static file handler and the WebSocket routes.

  A handler or middleware is a \<open>std::function\<close> that may touch anything outside the router (the
  database, the clock, the file system): that is the world \<open>'w\<close>, passed through. A handler that
  throws ends the dispatch with its exception. The file system is a record of parameters.
\<close>

section \<open>Paths\<close>

definition getMimeType :: "string \<Rightarrow> string" where
  "getMimeType ext =
     (if ext = ''.html'' \<or> ext = ''.htm'' then ''text/html''
      else if ext = ''.css'' then ''text/css''
      else if ext = ''.js'' then ''application/javascript''
      else if ext = ''.png'' then ''image/png''
      else if ext = ''.jpg'' \<or> ext = ''.jpeg'' then ''image/jpeg''
      else if ext = ''.svg'' then ''image/svg+xml''
      else if ext = ''.json'' then ''application/json''
      else if ext = ''.txt'' then ''text/plain''
      else ''application/octet-stream'')"

function splitPath_loop :: "string \<Rightarrow> char \<Rightarrow> nat \<Rightarrow> string list \<Rightarrow> string list" where
  "splitPath_loop s delim start result =
     (if start < length s then
        (case sv_find_from [delim] s start of
           None \<Rightarrow>
             if start < length s \<and> drop start s \<noteq> [] then result @ [drop start s] else result
         | Some e \<Rightarrow>
             splitPath_loop s delim (e + 1)
               (if start < e then result @ [sv_substr s start (e - start)] else result))
      else result)"
  by pat_completeness auto
termination
  by (relation "measure (\<lambda>(s, delim, start, result). length s - start)") (auto dest: sv_find_from_ge)

declare splitPath_loop.simps [simp del]

definition splitPath :: "string \<Rightarrow> char \<Rightarrow> string list" where
  "splitPath s delim = splitPath_loop s delim 0 []"

text \<open>The loop over the segments; both lists have the same length when it runs.\<close>

fun match_segs :: "string list \<Rightarrow> string list \<Rightarrow> (string \<times> string) list \<Rightarrow> (string \<times> string) list option" where
  "match_segs (r # rs) (q # qs) extracted =
     (if r \<noteq> [] \<and> r ! 0 = CHR '':'' then match_segs rs qs (extracted @ [(drop 1 r, q)])
      else if r \<noteq> q then None
      else match_segs rs qs extracted)"
| "match_segs _ _ extracted = Some extracted"

definition set_params :: "'j HttpRequest \<Rightarrow> (string \<times> string) list \<Rightarrow> 'j HttpRequest" where
  "set_params req kvs = foldl (\<lambda>r (k, v). req_setParam r k v) req kvs"

definition matchDynamicPath :: "string \<Rightarrow> string \<Rightarrow> 'j HttpRequest \<Rightarrow> bool \<times> 'j HttpRequest" where
  "matchDynamicPath route_path req_path req =
     (if route_path = req_path then (True, req)
      else if sv_find '':'' route_path = None then (False, req)
      else
        (let route_segs = splitPath route_path (CHR ''/'');
             req_segs = splitPath req_path (CHR ''/'') in
         if length route_segs \<noteq> length req_segs then (False, req)
         else
           (case match_segs route_segs req_segs [] of
              None \<Rightarrow> (False, req)
            | Some kvs \<Rightarrow> (True, set_params req kvs))))"

section \<open>The class\<close>

text \<open>
  Handlers and middlewares act on a world of type \<open>'w\<close>. A WebSocket handler gets a \<open>shared_ptr\<close>: the
  identity of the connection and the connection itself, which it returns changed.
\<close>

type_synonym ('j, 'w) Handler = "'j HttpRequest \<Rightarrow> HttpResponse \<Rightarrow> ('w, 'j HttpRequest \<times> HttpResponse) effect"

type_synonym ('j, 'w) Middleware =
  "'j HttpRequest \<Rightarrow> HttpResponse \<Rightarrow> ('w, bool \<times> 'j HttpRequest \<times> HttpResponse) effect"

type_synonym ('j, 's, 'h, 'w) WsHandler =
  "nat \<Rightarrow> ('j, 's, 'h) ClientConnection \<Rightarrow> WebSocketFrame \<Rightarrow> 'w \<Rightarrow>
   ('w \<times> ('j, 's, 'h) ClientConnection) \<times> (std_exception + unit)"

record ('j, 'w) Route =
  rt_method :: HttpMethod
  rt_path :: string
  rt_handler :: "('j, 'w) Handler"
  rt_isPrefix :: bool
  rt_middlewares :: "('j, 'w) Middleware list"

record ('j, 's, 'h, 'w) Router =
  routes :: "('j, 'w) Route list"
  global_middlewares :: "('j, 'w) Middleware list"
  ws_routes :: "string \<rightharpoonup> ('j, 's, 'h, 'w) WsHandler"

definition new_Router :: "('j, 's, 'h, 'w) Router" where
  "new_Router = \<lparr>routes = [], global_middlewares = [], ws_routes = Map.empty\<rparr>"

text \<open>
  The twelve registration functions differ in the method; the overload without middlewares leaves
  the list empty.
\<close>

definition add_route ::
  "HttpMethod \<Rightarrow> ('j, 's, 'h, 'w) Router \<Rightarrow> string \<Rightarrow> ('j, 'w) Middleware list \<Rightarrow> ('j, 'w) Handler \<Rightarrow>
   ('j, 's, 'h, 'w) Router" where
  "add_route m rt path mws handler =
     rt\<lparr>routes := routes rt @ [\<lparr>rt_method = m, rt_path = path, rt_handler = handler,
       rt_isPrefix = False, rt_middlewares = mws\<rparr>]\<rparr>"

definition router_get where "router_get rt path mws handler = add_route GET rt path mws handler"
definition router_post where "router_post rt path mws handler = add_route POST rt path mws handler"
definition router_put where "router_put rt path mws handler = add_route PUT rt path mws handler"
definition router_patch where "router_patch rt path mws handler = add_route PATCH rt path mws handler"
definition router_del where "router_del rt path mws handler = add_route DELETE rt path mws handler"
definition router_head where "router_head rt path mws handler = add_route HEAD rt path mws handler"

definition router_use :: "('j, 's, 'h, 'w) Router \<Rightarrow> ('j, 'w) Middleware \<Rightarrow> ('j, 's, 'h, 'w) Router" where
  "router_use rt mw = rt\<lparr>global_middlewares := global_middlewares rt @ [mw]\<rparr>"

definition router_ws ::
  "('j, 's, 'h, 'w) Router \<Rightarrow> string \<Rightarrow> ('j, 's, 'h, 'w) WsHandler \<Rightarrow> ('j, 's, 'h, 'w) Router" where
  "router_ws rt path handler = rt\<lparr>ws_routes := (ws_routes rt)(path \<mapsto> handler)\<rparr>"

section \<open>Dispatch\<close>

text \<open>A loop over middlewares stops at the first one that returns false or throws.\<close>

fun run_middlewares :: "('j, 'w) Middleware list \<Rightarrow> ('j, 'w) Middleware" where
  "run_middlewares [] req res w = (w, Inr (True, req, res))"
| "run_middlewares (m # ms) req res w =
     (case m req res w of
        (w', Inl e) \<Rightarrow> (w', Inl e)
      | (w', Inr (ok, req', res')) \<Rightarrow>
          if \<not> ok then (w', Inr (False, req', res')) else run_middlewares ms req' res' w')"

definition route_matches :: "('j, 'w) Route \<Rightarrow> 'j HttpRequest \<Rightarrow> bool \<times> 'j HttpRequest" where
  "route_matches route req =
     (if rt_isPrefix route then (prefix (rt_path route) (rq_path req), req)
      else matchDynamicPath (rt_path route) (rq_path req) req)"

definition run_route :: "('j, 'w) Route \<Rightarrow> ('j, 'w) Handler" where
  "run_route route req res w =
     (case run_middlewares (rt_middlewares route) req res w of
        (w', Inl e) \<Rightarrow> (w', Inl e)
      | (w', Inr (passed, req', res')) \<Rightarrow>
          if passed then rt_handler route req' res' w' else (w', Inr (req', res')))"

fun route_loop :: "('j, 'w) Route list \<Rightarrow> bool \<Rightarrow> ('j, 'w) Handler" where
  "route_loop [] pathFound req res w =
     (w, Inr (req,
       if pathFound then res_setBody (res_setStatus res MethodNotAllowed) ''Method Not Allowed''
       else res_setBody (res_setStatus res NotFound) ''Not Found''))"
| "route_loop (route # rest) pathFound req res w =
     (case route_matches route req of
        (matches, req') \<Rightarrow>
          if \<not> matches then route_loop rest pathFound req' res w
          else if rt_method route \<noteq> rq_method req' then route_loop rest True req' res w
          else run_route route req' res w)"

definition router_handle ::
  "('j, 's, 'h, 'w) Router \<Rightarrow> 'j HttpRequest \<Rightarrow> ('w, 'j HttpRequest \<times> HttpResponse) effect" where
  "router_handle rt req w =
     (case run_middlewares (global_middlewares rt) req new_response w of
        (w', Inl e) \<Rightarrow> (w', Inl e)
      | (w', Inr (passed, req', res')) \<Rightarrow>
          if \<not> passed then (w', Inr (req', res')) else route_loop (routes rt) False req' res' w')"

text \<open>Without a handler for the path only a warning is logged.\<close>

definition handleWs ::
  "('j, 's, 'h, 'w) Router \<Rightarrow> nat \<Rightarrow> ('j, 's, 'h) ClientConnection \<Rightarrow> WebSocketFrame \<Rightarrow> 'w \<Rightarrow>
   ('w \<times> ('j, 's, 'h) ClientConnection) \<times> (std_exception + unit)" where
  "handleWs rt cid c frame w =
     (case ws_routes rt (ws_path c) of
        Some handler \<Rightarrow> handler cid c frame w
      | None \<Rightarrow> ((w, c), Inr ()))"

section \<open>Static files\<close>

text \<open>
  \<open>std::filesystem::path\<close> on POSIX: \<open>operator/\<close> with an absolute right side yields that side; otherwise
  a separator is put in when the left side ends in a file name. \<open>extension()\<close> is the suffix of the
  file name from its last dot, empty for a leading dot only.
\<close>

definition path_append :: "string \<Rightarrow> string \<Rightarrow> string" where
  "path_append dir p =
     (if p \<noteq> [] \<and> p ! 0 = CHR ''/'' then p
      else if dir \<noteq> [] \<and> last dir \<noteq> CHR ''/'' then dir @ ''/'' @ p
      else dir @ p)"

definition path_filename :: "string \<Rightarrow> string" where
  "path_filename p = rev (takeWhile (\<lambda>c. c \<noteq> CHR ''/'') (rev p))"

definition path_extension :: "string \<Rightarrow> string" where
  "path_extension p =
     (let f = path_filename p;
          suffix = rev (takeWhile (\<lambda>c. c \<noteq> CHR ''.'') (rev f)) in
      if f = ''.'' \<or> f = ''..'' \<or> CHR ''.'' \<notin> set f \<or> length suffix + 1 = length f then []
      else ''.'' @ suffix)"

text \<open>
  What the handler asks the operating system: whether a path exists (the call may throw), whether it
  is a regular file, and to open it; an open file has a size from \<open>tellg\<close> and a read of that many
  bytes that may fail.
\<close>

record 'w filesystem =
  fs_exists :: "'w \<Rightarrow> string \<Rightarrow> std_exception + bool"
  fs_is_regular_file :: "'w \<Rightarrow> string \<Rightarrow> std_exception + bool"
  fs_open :: "'w \<Rightarrow> string \<Rightarrow> (int \<times> (nat \<Rightarrow> string option)) option"

definition respond :: "HttpResponse \<Rightarrow> HttpStatus \<Rightarrow> string \<Rightarrow> HttpResponse" where
  "respond res st b = res_setBody (res_setStatus res st) b"

definition serve_path :: "'w filesystem \<Rightarrow> string \<Rightarrow> HttpResponse \<Rightarrow> 'w \<Rightarrow> std_exception + HttpResponse" where
  "serve_path fs fullPath res w =
     (let not_found = respond res NotFound ''404 File Not Found'';
          failed = respond res InternalServerError ''500 Internal Server Error'';
          present = (case fs_exists fs w fullPath of
                       Inl e \<Rightarrow> Inl e
                     | Inr False \<Rightarrow> Inr False
                     | Inr True \<Rightarrow> fs_is_regular_file fs w fullPath) in
      case present of
        Inl e \<Rightarrow> Inl e
      | Inr False \<Rightarrow> Inr not_found
      | Inr True \<Rightarrow>
          (case fs_open fs w fullPath of
             None \<Rightarrow> Inr not_found
           | Some (fsize, read) \<Rightarrow>
               if fsize < 0 then Inr failed
               else
                 (case read (nat fsize) of
                    Some bytes \<Rightarrow>
                      Inr (res_setBody (res_setHeader (res_setStatus res OK) ''Content-Type''
                             (getMimeType (path_extension fullPath))) bytes)
                  | None \<Rightarrow> Inr failed)))"

definition fileHandler :: "'w filesystem \<Rightarrow> string \<Rightarrow> string \<Rightarrow> ('j, 'w) Handler" where
  "fileHandler fs mountPoint directory req res w =
     (if length (rq_path req) < length mountPoint
      then (w, Inr (req, respond res NotFound ''404 File Not Found''))
      else
        (let rel0 = drop (length mountPoint) (rq_path req);
             relativePath = (if rel0 = [] \<or> rel0 = ''/'' then ''index.html'' else rel0) in
         if sv_find ''..'' relativePath \<noteq> None
         then (w, Inr (req, respond res Forbidden ''403 Forbidden''))
         else
           (case serve_path fs (path_append directory relativePath) res w of
              Inl e \<Rightarrow> (w, Inl e)
            | Inr res' \<Rightarrow> (w, Inr (req, res')))))"

text \<open>\<open>mountPoint.back()\<close> needs a nonempty mount point; the code only mounts such.\<close>

definition serveFiles ::
  "'w filesystem \<Rightarrow> ('j, 's, 'h, 'w) Router \<Rightarrow> string \<Rightarrow> string \<Rightarrow> ('j, 's, 'h, 'w) Router" where
  "serveFiles fs rt mountPoint directory =
     (let mp = (if last mountPoint \<noteq> CHR ''/'' then mountPoint @ ''/'' else mountPoint) in
      rt\<lparr>routes := routes rt @ [\<lparr>rt_method = GET, rt_path = mp,
        rt_handler = fileHandler fs mp directory, rt_isPrefix = True, rt_middlewares = []\<rparr>]\<rparr>)"

section \<open>Splitting a path\<close>

text \<open>Reference: cut at every delimiter, then drop the empty pieces.\<close>

fun split_on :: "char \<Rightarrow> string \<Rightarrow> string list" where
  "split_on d [] = [[]]"
| "split_on d (c # s) =
     (if c = d then [] # split_on d s
      else (case split_on d s of [] \<Rightarrow> [[c]] | x # xs \<Rightarrow> (c # x) # xs))"

lemma split_on_none: "d \<notin> set s \<Longrightarrow> split_on d s = [s]"
  by (induction s) auto

lemma split_on_append: "d \<notin> set s \<Longrightarrow> split_on d (s @ d # t) = s # split_on d t"
  by (induction s) auto

lemma split_on_pieces: "x \<in> set (split_on d s) \<Longrightarrow> d \<notin> set x"
  by (induction s arbitrary: x) (auto split: if_splits list.splits)

lemma sv_find_from_char:
  assumes "sv_find_from [c] s n = Some i"
  shows "n \<le> i \<and> i < length s \<and> c \<notin> set (sv_substr s n (i - n)) \<and>
    drop n s = sv_substr s n (i - n) @ c # drop (i + 1) s"
proof -
  obtain k where k: "sv_find [c] (drop n s) = Some k" "i = n + k" "n \<le> length s"
    using assms by (auto simp: sv_find_from_def split: if_splits)
  then have t: "c \<notin> set (take k (drop n s))" "k < length (drop n s)" "drop n s ! k = c"
    using sv_find_char_take by blast+
  then have "drop n s = take k (drop n s) @ c # drop (Suc k) (drop n s)"
    by (metis id_take_nth_drop)
  then show ?thesis using k t by (simp add: sv_substr_def add.commute)
qed

lemma splitPath_loop_spec:
  "splitPath_loop s d start result =
     result @ filter (\<lambda>x. x \<noteq> []) (split_on d (drop start s))"
proof (induction s d start result rule: splitPath_loop.induct)
  case (1 s d start result)
  show ?case
  proof (cases "start < length s")
    case False
    then show ?thesis by (subst splitPath_loop.simps) simp
  next
    case True
    show ?thesis
    proof (cases "sv_find_from [d] s start")
      case None
      then have "d \<notin> set (drop start s)"
        using True by (auto simp: sv_find_from_def sv_find_char_None split: if_splits)
      then show ?thesis
        using None True by (subst splitPath_loop.simps) (simp add: split_on_none)
    next
      case (Some e)
      note f = sv_find_from_char [OF Some]
      have "split_on d (drop start s) = sv_substr s start (e - start) # split_on d (drop (e + 1) s)"
        using f split_on_append by metis
      moreover have "sv_substr s start (e - start) = [] \<longleftrightarrow> \<not> start < e"
        using f by (auto simp: sv_substr_def)
      ultimately show ?thesis
        using Some True "1.IH" [OF True Some]
        by (subst splitPath_loop.simps) auto
    qed
  qed
qed

lemma splitPath_spec: "splitPath s d = filter (\<lambda>x. x \<noteq> []) (split_on d s)"
  by (simp add: splitPath_def splitPath_loop_spec)

section \<open>Matching\<close>

definition is_param :: "string \<Rightarrow> bool" where
  "is_param r \<longleftrightarrow> r \<noteq> [] \<and> r ! 0 = CHR '':''"

definition seg_params :: "string list \<Rightarrow> string list \<Rightarrow> (string \<times> string) list" where
  "seg_params rs qs = map (\<lambda>(r, q). (drop 1 r, q)) (filter (\<lambda>(r, q). is_param r) (zip rs qs))"

lemma match_segs_spec:
  "length rs = length qs \<Longrightarrow>
     match_segs rs qs acc =
     (if list_all2 (\<lambda>r q. is_param r \<or> r = q) rs qs then Some (acc @ seg_params rs qs) else None)"
  by (induction rs qs acc rule: match_segs.induct) (auto simp: is_param_def seg_params_def)

text \<open>When a dynamic route matches a path, and the parameters the match yields.\<close>

definition segs_match :: "string \<Rightarrow> string \<Rightarrow> bool" where
  "segs_match route path \<longleftrightarrow> CHR '':'' \<in> set route \<and>
     list_all2 (\<lambda>r q. is_param r \<or> r = q) (splitPath route (CHR ''/'')) (splitPath path (CHR ''/''))"

lemma matchDynamicPath_spec:
  "matchDynamicPath route path req =
     (if route = path then (True, req)
      else if segs_match route path
      then (True, set_params req (seg_params (splitPath route (CHR ''/'')) (splitPath path (CHR ''/''))))
      else (False, req))"
  by (auto simp: matchDynamicPath_def segs_match_def Let_def match_segs_spec sv_find_char_None
      dest: list_all2_lengthD split: option.splits)

lemma set_params_frame [simp]:
  "rq_path (set_params req kvs) = rq_path req" "rq_method (set_params req kvs) = rq_method req"
  "rq_body (set_params req kvs) = rq_body req" "rq_headers (set_params req kvs) = rq_headers req"
  by (induction kvs arbitrary: req) (auto simp: set_params_def req_setParam_def)

lemma set_params_map: "rq_params (set_params req kvs) = rq_params req ++ map_of (rev kvs)"
  by (induction kvs arbitrary: req) (auto simp: set_params_def req_setParam_def map_add_def fun_eq_iff
      split: option.splits)

lemma set_params_lookup:
  assumes "distinct (map fst kvs)" "(k, v) \<in> set kvs"
  shows "req_param (set_params req kvs) k = v"
proof -
  have "map_of (rev kvs) k = Some v"
    using assms by (simp add: map_of_eq_Some_iff rev_map [symmetric])
  then show ?thesis by (simp add: req_param_def set_params_map)
qed

section \<open>Dispatch\<close>

definition accepts :: "('j, 'w) Route \<Rightarrow> 'j HttpRequest \<Rightarrow> bool" where
  "accepts route req \<longleftrightarrow> fst (route_matches route req) \<and> rt_method route = rq_method req"

definition scan_params :: "('j, 'w) Route list \<Rightarrow> 'j HttpRequest \<Rightarrow> 'j HttpRequest" where
  "scan_params rts req = foldl (\<lambda>r rt. snd (route_matches rt r)) req rts"

lemma route_matches_frame:
  "rq_path (snd (route_matches rt req)) = rq_path req"
  "rq_method (snd (route_matches rt req)) = rq_method req"
  by (simp_all add: route_matches_def matchDynamicPath_spec)

lemma route_matches_path:
  "rq_path r = rq_path s \<Longrightarrow> fst (route_matches rt r) = fst (route_matches rt s)"
  by (simp add: route_matches_def matchDynamicPath_spec)

lemma accepts_cong:
  "rq_path r = rq_path s \<Longrightarrow> rq_method r = rq_method s \<Longrightarrow> accepts rt r = accepts rt s"
  using route_matches_path [of r s rt] by (simp add: accepts_def)

lemma route_loop_skip:
  assumes "\<not> accepts rt req"
  shows "route_loop (rt # rts) pf req res w =
    route_loop rts (pf \<or> fst (route_matches rt req)) (snd (route_matches rt req)) res w"
  using assms route_matches_frame(2) [of rt req]
  by (auto simp: accepts_def split: prod.splits)

lemma route_loop_first:
  assumes "\<forall>q \<in> set pre. \<not> accepts q req" "accepts rt req"
  shows "route_loop (pre @ rt # post) pf req res w = run_route rt (scan_params (pre @ [rt]) req) res w"
  using assms
proof (induction pre arbitrary: req pf)
  case Nil
  then show ?case
    using route_matches_frame(2) [of rt req]
    by (auto simp: accepts_def scan_params_def split: prod.splits)
next
  case (Cons q pre)
  define req' where "req' = snd (route_matches q req)"
  have cong: "accepts x req' = accepts x req" for x
    by (rule accepts_cong) (simp_all add: req'_def route_matches_frame)
  have "route_loop ((q # pre) @ rt # post) pf req res w =
      route_loop (pre @ rt # post) (pf \<or> fst (route_matches q req)) req' res w"
    using Cons.prems route_loop_skip [of q req "pre @ rt # post" pf res w] by (simp add: req'_def)
  also have "\<dots> = run_route rt (scan_params (pre @ [rt]) req') res w"
    using Cons.prems by (intro Cons.IH) (simp_all add: cong)
  finally show ?case by (simp add: scan_params_def req'_def)
qed

lemma route_loop_none:
  assumes "\<forall>q \<in> set rts. \<not> accepts q req"
  shows "route_loop rts pf req res w =
    (w, Inr (scan_params rts req,
      if pf \<or> (\<exists>q \<in> set rts. fst (route_matches q req))
      then respond res MethodNotAllowed ''Method Not Allowed'' else respond res NotFound ''Not Found''))"
  using assms
proof (induction rts arbitrary: req pf)
  case Nil
  then show ?case by (simp add: scan_params_def respond_def)
next
  case (Cons q rts)
  define req' where "req' = snd (route_matches q req)"
  have frame: "rq_path req' = rq_path req" "rq_method req' = rq_method req"
    by (simp_all add: req'_def route_matches_frame)
  have cong: "accepts x req' = accepts x req" "fst (route_matches x req') = fst (route_matches x req)" for x
    using accepts_cong [OF frame] route_matches_path [OF frame(1)] by blast+
  show ?case
    using Cons.prems route_loop_skip [of q req rts pf res w]
      Cons.IH [of req' "pf \<or> fst (route_matches q req)"]
    by (simp add: cong req'_def [symmetric]) (simp add: scan_params_def req'_def)
qed

text \<open>A chain of middlewares is run as one: the first to refuse or to throw decides.\<close>

lemma run_middlewares_append:
  "run_middlewares (ms @ ns) req res w =
     (case run_middlewares ms req res w of
        (w', Inl e) \<Rightarrow> (w', Inl e)
      | (w', Inr (ok, req', res')) \<Rightarrow>
          if ok then run_middlewares ns req' res' w' else (w', Inr (False, req', res')))"
  by (induction ms arbitrary: req res w) (auto split: prod.splits sum.splits)

section \<open>Static files stay below their directory\<close>

definition fs_agree :: "'w filesystem \<Rightarrow> 'w filesystem \<Rightarrow> string set \<Rightarrow> bool" where
  "fs_agree fs fs' P \<longleftrightarrow> (\<forall>p \<in> P. \<forall>w. fs_exists fs w p = fs_exists fs' w p \<and>
     fs_is_regular_file fs w p = fs_is_regular_file fs' w p \<and> fs_open fs w p = fs_open fs' w p)"

definition below :: "string \<Rightarrow> string set" where
  "below dir = {dir @ ''/'' @ rel | rel. sv_find ''..'' rel = None \<and> (rel = [] \<or> hd rel \<noteq> CHR ''/'')}"

lemma serve_path_agree:
  "fs_agree fs fs' P \<Longrightarrow> p \<in> P \<Longrightarrow> serve_path fs p res w = serve_path fs' p res w"
proof -
  assume "fs_agree fs fs' P" "p \<in> P"
  then have "fs_exists fs w p = fs_exists fs' w p"
    "fs_is_regular_file fs w p = fs_is_regular_file fs' w p" "fs_open fs w p = fs_open fs' w p"
    by (simp_all add: fs_agree_def)
  then show ?thesis by (simp only: serve_path_def)
qed

lemma path_append_below:
  assumes "dir \<noteq> []" "last dir \<noteq> CHR ''/''" "rel = [] \<or> hd rel \<noteq> CHR ''/''" "sv_find ''..'' rel = None"
  shows "path_append dir rel \<in> below dir"
  using assms by (auto simp: path_append_def below_def hd_conv_nth)

lemma fileHandler_confined:
  assumes "fs_agree fs fs' (below dir)" "dir \<noteq> []" "last dir \<noteq> CHR ''/''"
    and "prefix mp (rq_path req)" "\<not> prefix (mp @ ''/'') (rq_path req) \<or> rq_path req = mp @ ''/''"
  shows "fileHandler fs mp dir req res w = fileHandler fs' mp dir req res w"
proof -
  obtain rel where rel: "rq_path req = mp @ rel" using assms(4) by (auto simp: prefix_def)
  define r where "r = (if rel = [] \<or> rel = ''/'' then ''index.html'' else rel)"
  have "r = [] \<or> hd r \<noteq> CHR ''/''"
    using assms(5) rel by (cases rel) (auto simp: r_def)
  then have "sv_find ''..'' r = None \<Longrightarrow>
      serve_path fs (path_append dir r) res w = serve_path fs' (path_append dir r) res w"
    using assms(1-3) by (intro serve_path_agree [OF assms(1)] path_append_below) auto
  then show ?thesis by (auto simp: fileHandler_def rel r_def Let_def)
qed

lemma fileHandler_escape:
  assumes "rq_path req = mp @ rel" "rel \<noteq> ''/''" "prefix ''/'' rel" "sv_find ''..'' rel = None"
  shows "fileHandler fs mp dir req res w =
    (case serve_path fs rel res w of Inl e \<Rightarrow> (w, Inl e) | Inr res' \<Rightarrow> (w, Inr (req, res')))"
proof -
  obtain x where x: "rel = CHR ''/'' # x" using assms(3) by (auto simp: prefix_def)
  then have "path_append dir rel = rel" "rel \<noteq> []" by (simp_all add: path_append_def)
  then show ?thesis using assms(1,2,4) by (simp add: fileHandler_def)
qed

lemma fileHandler_dotdot:
  assumes "rq_path req = mp @ rel" "sv_find ''..'' rel \<noteq> None"
  shows "fileHandler fs mp dir req res w = (w, Inr (req, respond res Forbidden ''403 Forbidden''))"
  using assms by (auto simp: fileHandler_def Let_def)

end
