(* ===== verification/Socket_Epoll.thy ===== *)
theory Socket_Epoll
  imports Http_Utils
begin

text \<open>
  \<^verbatim>\<open>src/src/network/Socket.cpp\<close> and \<^verbatim>\<open>src/src/network/Epoll.cpp\<close>: the owner of a socket descriptor and the
  wrapper of an epoll instance.

  The operating system is a record of parameters, one field per system call the code makes: a call
  takes the state of the kernel, of the parameter type \<open>'k\<close>, and returns it updated with the result.
  \<open>posix_ok\<close> states what the manual pages promise about descriptors and interest lists in terms of
  the set of open descriptors and the descriptors an epoll instance watches.

  A C++ object of class \<open>Socket\<close> lives at an address of a heap, so that moves between objects, and
  the self-assignment the code tests for, can be stated.
\<close>

section \<open>System calls\<close>

record sockaddr_in =
  sin_family :: nat
  sin_addr :: "32 word"
  sin_port :: "16 word"

datatype sockopt = SO_REUSEADDR | SO_REUSEPORT

datatype epoll_op = EPOLL_CTL_ADD | EPOLL_CTL_DEL | EPOLL_CTL_MOD

record epoll_event =
  ev_events :: "32 word"
  ev_fd :: int

record 'k os =
  sys_socket :: "'k \<Rightarrow> 'k \<times> int"
  sys_setsockopt :: "int \<Rightarrow> sockopt \<Rightarrow> int \<Rightarrow> 'k \<Rightarrow> 'k \<times> int"
  sys_bind :: "int \<Rightarrow> sockaddr_in \<Rightarrow> 'k \<Rightarrow> 'k \<times> int"
  sys_listen :: "int \<Rightarrow> int \<Rightarrow> 'k \<Rightarrow> 'k \<times> int"
  sys_accept :: "int \<Rightarrow> 'k \<Rightarrow> 'k \<times> int"
  sys_getfl :: "int \<Rightarrow> 'k \<Rightarrow> 'k \<times> int"
  sys_setfl :: "int \<Rightarrow> int \<Rightarrow> 'k \<Rightarrow> 'k \<times> int"
  sys_shutdown :: "int \<Rightarrow> 'k \<Rightarrow> 'k \<times> int"
  sys_close :: "int \<Rightarrow> 'k \<Rightarrow> 'k \<times> int"
  sys_epoll_create :: "'k \<Rightarrow> 'k \<times> int"
  sys_epoll_ctl :: "int \<Rightarrow> epoll_op \<Rightarrow> int \<Rightarrow> epoll_event option \<Rightarrow> 'k \<Rightarrow> 'k \<times> int"
  sys_epoll_wait :: "int \<Rightarrow> nat \<Rightarrow> int \<Rightarrow> 'k \<Rightarrow> 'k \<times> int \<times> epoll_event list"
  sys_errno :: "'k \<Rightarrow> int"
  sys_strerror :: "int \<Rightarrow> string"
  sys_now :: "'k \<Rightarrow> 'k \<times> int"

definition EINTR :: int where "EINTR = 4"
definition EAGAIN :: int where "EAGAIN = 11"
definition EWOULDBLOCK :: int where "EWOULDBLOCK = 11"
definition O_NONBLOCK :: int where "O_NONBLOCK = 2048"
definition AF_INET :: nat where "AF_INET = 2"
definition INADDR_ANY :: "32 word" where "INADDR_ANY = 0"

text \<open>A call whose result \<open>-1\<close> becomes an exception.\<close>

definition checked :: "('k \<Rightarrow> 'k \<times> int) \<Rightarrow> ('k \<Rightarrow> std_exception) \<Rightarrow> ('k, int) effect" where
  "checked call e k = (case call k of (k', r) \<Rightarrow> (k', if r = - 1 then Inl (e k') else Inr r))"

definition fail_with :: "string \<Rightarrow> 'k \<Rightarrow> std_exception" where
  "fail_with msg k = runtime_error msg"

text \<open>\<open>std::to_string(int)\<close>.\<close>

definition int_to_string :: "int \<Rightarrow> string" where
  "int_to_string i = (if i < 0 then ''-'' @ to_string (nat (- i)) else to_string (nat i))"

section \<open>Socket\<close>

record Socket =
  file_descriptor :: int

definition Socket_invalid :: Socket where
  "Socket_invalid = \<lparr>file_descriptor = - 1\<rparr>"

definition Socket_of :: "int \<Rightarrow> Socket" where
  "Socket_of fd = \<lparr>file_descriptor = fd\<rparr>"

definition socket_fd :: "Socket \<Rightarrow> int" where
  "socket_fd s = file_descriptor s"

definition socket_valid :: "Socket \<Rightarrow> bool" where
  "socket_valid s \<longleftrightarrow> file_descriptor s \<noteq> - 1"

definition socket_close :: "'k os \<Rightarrow> Socket \<Rightarrow> 'k \<Rightarrow> 'k \<times> Socket" where
  "socket_close os s k =
     (if file_descriptor s \<noteq> - 1
      then (fst (sys_close os (file_descriptor s) k), s\<lparr>file_descriptor := - 1\<rparr>) else (k, s))"

definition create_tcp :: "'k os \<Rightarrow> ('k, Socket) effect" where
  "create_tcp os =
     eff_bind (checked (sys_socket os) (fail_with ''Failed to create TCP socket''))
       (\<lambda>fd. eff_return (Socket_of fd))"

definition setReuseAddress :: "'k os \<Rightarrow> Socket \<Rightarrow> ('k, unit) effect" where
  "setReuseAddress os s =
     eff_bind (checked (sys_setsockopt os (file_descriptor s) SO_REUSEADDR 1)
                (fail_with ''Failed to set SO_REUSEADDR''))
       (\<lambda>_. eff_return ())"

definition setReusePort :: "'k os \<Rightarrow> Socket \<Rightarrow> ('k, unit) effect" where
  "setReusePort os s =
     eff_bind (checked (sys_setsockopt os (file_descriptor s) SO_REUSEPORT 1)
                (fail_with ''Failed to set SO_REUSEPORT''))
       (\<lambda>_. eff_return ())"

text \<open>The bytes of a port number in network order, on a little-endian host.\<close>

definition htons :: "16 word \<Rightarrow> 16 word" where
  "htons p = push_bit 8 p OR drop_bit 8 p"

definition socket_bind :: "'k os \<Rightarrow> Socket \<Rightarrow> 16 word \<Rightarrow> ('k, unit) effect" where
  "socket_bind os s port =
     eff_bind (checked (sys_bind os (file_descriptor s)
                  \<lparr>sin_family = AF_INET, sin_addr = INADDR_ANY, sin_port = htons port\<rparr>)
                (fail_with ''Failed to bind socket''))
       (\<lambda>_. eff_return ())"

definition socket_listen :: "'k os \<Rightarrow> Socket \<Rightarrow> int \<Rightarrow> ('k, unit) effect" where
  "socket_listen os s backlog =
     eff_bind (checked (sys_listen os (file_descriptor s) backlog)
                (fail_with ''Failed to listen on socket''))
       (\<lambda>_. eff_return ())"

definition socket_accept :: "'k os \<Rightarrow> Socket \<Rightarrow> ('k, Socket) effect" where
  "socket_accept os s k =
     (case sys_accept os (file_descriptor s) k of
        (k', client_fd) \<Rightarrow>
          if client_fd = - 1 then
            if sys_errno os k' = EAGAIN \<or> sys_errno os k' = EWOULDBLOCK then (k', Inr Socket_invalid)
            else (k', Inl (runtime_error ''Failed to accept connection''))
          else (k', Inr (Socket_of client_fd)))"

definition setNonBlocking :: "'k os \<Rightarrow> Socket \<Rightarrow> ('k, unit) effect" where
  "setNonBlocking os s =
     (let fd = file_descriptor s;
          message = (\<lambda>what k. runtime_error (what @ int_to_string fd @ '', Error: '' @
                       sys_strerror os (sys_errno os k))) in
      eff_bind (checked (sys_getfl os fd) (message ''Failed to get socket flags. FD: ''))
        (\<lambda>flags. eff_bind (checked (sys_setfl os fd (flags OR O_NONBLOCK))
             (message ''Failed to set non-blocking flag. FD: ''))
           (\<lambda>_. eff_return ())))"

section \<open>Epoll\<close>

record Epoll =
  epoll_fd :: int

definition MAX_EVENTS :: nat where "MAX_EVENTS = 1024"

definition new_Epoll :: "'k os \<Rightarrow> ('k, Epoll) effect" where
  "new_Epoll os =
     eff_bind (checked (sys_epoll_create os) (fail_with ''Failed to create epoll instance''))
       (\<lambda>fd. eff_return \<lparr>epoll_fd = fd\<rparr>)"

definition delete_Epoll :: "'k os \<Rightarrow> Epoll \<Rightarrow> 'k \<Rightarrow> 'k" where
  "delete_Epoll os ep k = (if epoll_fd ep \<noteq> - 1 then fst (sys_close os (epoll_fd ep) k) else k)"

definition epoll_add :: "'k os \<Rightarrow> Epoll \<Rightarrow> int \<Rightarrow> 32 word \<Rightarrow> ('k, unit) effect" where
  "epoll_add os ep fd events =
     eff_bind (checked (sys_epoll_ctl os (epoll_fd ep) EPOLL_CTL_ADD fd
                  (Some \<lparr>ev_events = events, ev_fd = fd\<rparr>))
                (fail_with ''Failed to add file descriptor to epoll''))
       (\<lambda>_. eff_return ())"

definition epoll_modify :: "'k os \<Rightarrow> Epoll \<Rightarrow> int \<Rightarrow> 32 word \<Rightarrow> ('k, unit) effect" where
  "epoll_modify os ep fd events =
     eff_bind (checked (sys_epoll_ctl os (epoll_fd ep) EPOLL_CTL_MOD fd
                  (Some \<lparr>ev_events = events, ev_fd = fd\<rparr>))
                (fail_with ''Failed to modify file descriptor in epoll''))
       (\<lambda>_. eff_return ())"

definition epoll_remove :: "'k os \<Rightarrow> Epoll \<Rightarrow> int \<Rightarrow> ('k, unit) effect" where
  "epoll_remove os ep fd =
     eff_bind (checked (sys_epoll_ctl os (epoll_fd ep) EPOLL_CTL_DEL fd None)
                (fail_with ''Failed to remove file descriptor from epoll''))
       (\<lambda>_. eff_return ())"

definition epoll_wait :: "'k os \<Rightarrow> Epoll \<Rightarrow> int \<Rightarrow> ('k, epoll_event list) effect" where
  "epoll_wait os ep timeoutMs k =
     (case sys_epoll_wait os (epoll_fd ep) MAX_EVENTS timeoutMs k of
        (k', num_events, events) \<Rightarrow>
          if num_events = - 1 then
            if sys_errno os k' = EINTR then (k', Inr [])
            else (k', Inl (runtime_error ''epoll_wait failed''))
          else (k', Inr (take (nat num_events) events)))"

section \<open>What the kernel promises\<close>

text \<open>
  \<open>opened k\<close> are the descriptors open in state \<open>k\<close>, \<open>watched k e\<close> those on the interest list of the
  epoll instance with descriptor \<open>e\<close>. A call that makes a descriptor returns one that was not open
  and that no instance watches; closing removes a descriptor from both tables; \<open>epoll_ctl\<close> fails
  exactly when a descriptor is not open, already watched (adding) or not watched (changing,
  removing); the other calls leave both tables alone. Watched descriptors are open.
\<close>

definition same_tables ::
  "('k \<Rightarrow> int set) \<Rightarrow> ('k \<Rightarrow> int \<Rightarrow> int set) \<Rightarrow> 'k \<Rightarrow> 'k \<Rightarrow> bool" where
  "same_tables opened watched k k' \<longleftrightarrow> opened k' = opened k \<and> watched k' = watched k"

definition allocates ::
  "('k \<Rightarrow> int set) \<Rightarrow> ('k \<Rightarrow> int \<Rightarrow> int set) \<Rightarrow> ('k \<Rightarrow> 'k \<times> int) \<Rightarrow> bool" where
  "allocates opened watched call \<longleftrightarrow>
     (\<forall>k k' r. call k = (k', r) \<longrightarrow>
        (if r = - 1 then same_tables opened watched k k'
         else 0 \<le> r \<and> r \<notin> opened k \<and> opened k' = insert r (opened k) \<and> watched k' = watched k \<and>
           (\<forall>e. r \<notin> watched k e)))"

definition neutral ::
  "('k \<Rightarrow> int set) \<Rightarrow> ('k \<Rightarrow> int \<Rightarrow> int set) \<Rightarrow> ('k \<Rightarrow> 'k \<times> 'a) \<Rightarrow> bool" where
  "neutral opened watched call \<longleftrightarrow> (\<forall>k. same_tables opened watched k (fst (call k)))"

definition closes ::
  "('k \<Rightarrow> int set) \<Rightarrow> ('k \<Rightarrow> int \<Rightarrow> int set) \<Rightarrow> (int \<Rightarrow> 'k \<Rightarrow> 'k \<times> int) \<Rightarrow> bool" where
  "closes opened watched call \<longleftrightarrow>
     (\<forall>fd k. opened (fst (call fd k)) = opened k - {fd} \<and>
        watched (fst (call fd k)) = (\<lambda>e. watched k e - {fd}))"

definition ctl_ok ::
  "('k \<Rightarrow> int set) \<Rightarrow> ('k \<Rightarrow> int \<Rightarrow> int set) \<Rightarrow>
   (int \<Rightarrow> epoll_op \<Rightarrow> int \<Rightarrow> epoll_event option \<Rightarrow> 'k \<Rightarrow> 'k \<times> int) \<Rightarrow> bool" where
  "ctl_ok opened watched call \<longleftrightarrow>
     (\<forall>e opn fd ev k k' r. call e opn fd ev k = (k', r) \<longrightarrow>
        (let works = (case opn of EPOLL_CTL_ADD \<Rightarrow> fd \<in> opened k \<and> fd \<notin> watched k e
                      | _ \<Rightarrow> fd \<in> opened k \<and> fd \<in> watched k e);
             interest = (case opn of EPOLL_CTL_ADD \<Rightarrow> insert fd (watched k e)
                      | EPOLL_CTL_DEL \<Rightarrow> watched k e - {fd} | EPOLL_CTL_MOD \<Rightarrow> watched k e) in
         if works then r = 0 \<and> opened k' = opened k \<and> watched k' = (watched k)(e := interest)
         else r = - 1 \<and> same_tables opened watched k k'))"

text \<open>Events are reported for watched descriptors, each at most once in a call.\<close>

definition wait_ok ::
  "('k \<Rightarrow> int set) \<Rightarrow> ('k \<Rightarrow> int \<Rightarrow> int set) \<Rightarrow>
   (int \<Rightarrow> nat \<Rightarrow> int \<Rightarrow> 'k \<Rightarrow> 'k \<times> int \<times> epoll_event list) \<Rightarrow> bool" where
  "wait_ok opened watched call \<longleftrightarrow>
     (\<forall>e n t k k' r evs. call e n t k = (k', r, evs) \<longrightarrow>
        same_tables opened watched k k' \<and> - 1 \<le> r \<and> r \<le> int n \<and>
        (let got = take (nat r) evs in
         length got = nat r \<and> distinct (map ev_fd got) \<and> ev_fd ` set got \<subseteq> watched k e))"

definition posix_ok ::
  "'k os \<Rightarrow> ('k \<Rightarrow> int set) \<Rightarrow> ('k \<Rightarrow> int \<Rightarrow> int set) \<Rightarrow> bool" where
  "posix_ok os opened watched \<longleftrightarrow>
     allocates opened watched (sys_socket os) \<and>
     allocates opened watched (sys_epoll_create os) \<and>
     (\<forall>fd. allocates opened watched (sys_accept os fd)) \<and>
     (\<forall>fd opt v. neutral opened watched (sys_setsockopt os fd opt v)) \<and>
     (\<forall>fd a. neutral opened watched (sys_bind os fd a)) \<and>
     (\<forall>fd n. neutral opened watched (sys_listen os fd n)) \<and>
     (\<forall>fd. neutral opened watched (sys_getfl os fd)) \<and>
     (\<forall>fd fl. neutral opened watched (sys_setfl os fd fl)) \<and>
     (\<forall>fd. neutral opened watched (sys_shutdown os fd)) \<and>
     neutral opened watched (sys_now os) \<and>
     closes opened watched (sys_close os) \<and>
     ctl_ok opened watched (sys_epoll_ctl os) \<and>
     wait_ok opened watched (sys_epoll_wait os) \<and>
     (\<forall>k e. watched k e \<subseteq> opened k)"

section \<open>Calls on a kernel that keeps its promises\<close>

lemma same_tables_refl [simp]: "same_tables opened watched k k"
  by (simp add: same_tables_def)

lemma same_tables_trans:
  "same_tables opened watched k k' \<Longrightarrow> same_tables opened watched k' k'' \<Longrightarrow>
   same_tables opened watched k k''"
  by (simp add: same_tables_def)

lemma neutral_fst: "neutral opened watched call \<Longrightarrow> same_tables opened watched k (fst (call k))"
  by (simp add: neutral_def)

lemma fst_checked [simp]: "fst (checked call e k) = fst (call k)"
  by (simp add: checked_def split: prod.splits)

lemma fst_checked_unit [simp]: "fst (eff_bind (checked call e) (\<lambda>_. eff_return ()) k) = fst (call k)"
  by (auto simp: checked_def eff_defs split: prod.splits)

lemma allocatesD:
  assumes "allocates opened watched call" and "call k = (k', r)"
  shows "r = - 1 \<Longrightarrow> same_tables opened watched k k'"
    and "r \<noteq> - 1 \<Longrightarrow> 0 \<le> r \<and> r \<notin> opened k \<and> opened k' = insert r (opened k) \<and>
      watched k' = watched k \<and> (\<forall>e. r \<notin> watched k e)"
  using assms by (force simp: allocates_def split: if_splits)+

lemma ctl_okD:
  assumes "ctl_ok opened watched call"
  shows "fd \<in> opened k \<Longrightarrow> fd \<notin> watched k e \<Longrightarrow> \<exists>k'. call e EPOLL_CTL_ADD fd ev k = (k', 0) \<and>
      opened k' = opened k \<and> watched k' = (watched k)(e := insert fd (watched k e))"
    and "fd \<in> opened k \<Longrightarrow> fd \<in> watched k e \<Longrightarrow> \<exists>k'. call e EPOLL_CTL_MOD fd ev k = (k', 0) \<and>
      same_tables opened watched k k'"
    and "fd \<in> opened k \<Longrightarrow> fd \<in> watched k e \<Longrightarrow> \<exists>k'. call e EPOLL_CTL_DEL fd ev k = (k', 0) \<and>
      opened k' = opened k \<and> watched k' = (watched k)(e := watched k e - {fd})"
    and "fd \<notin> opened k \<or> fd \<in> watched k e \<Longrightarrow> \<exists>k'. call e EPOLL_CTL_ADD fd ev k = (k', - 1) \<and>
      same_tables opened watched k k'"
    and "fd \<notin> opened k \<or> fd \<notin> watched k e \<Longrightarrow> \<exists>k'. call e EPOLL_CTL_MOD fd ev k = (k', - 1) \<and>
      same_tables opened watched k k'"
    and "fd \<notin> opened k \<or> fd \<notin> watched k e \<Longrightarrow> \<exists>k'. call e EPOLL_CTL_DEL fd ev k = (k', - 1) \<and>
      same_tables opened watched k k'"
proof -
  have law: "\<And>opn. \<exists>k' r. call e opn fd ev k = (k', r) \<and>
      (let works = (case opn of EPOLL_CTL_ADD \<Rightarrow> fd \<in> opened k \<and> fd \<notin> watched k e
                      | _ \<Rightarrow> fd \<in> opened k \<and> fd \<in> watched k e);
             interest = (case opn of EPOLL_CTL_ADD \<Rightarrow> insert fd (watched k e)
                      | EPOLL_CTL_DEL \<Rightarrow> watched k e - {fd} | EPOLL_CTL_MOD \<Rightarrow> watched k e) in
         if works then r = 0 \<and> opened k' = opened k \<and> watched k' = (watched k)(e := interest)
         else r = - 1 \<and> same_tables opened watched k k')"
    using assms unfolding ctl_ok_def by (metis surj_pair)
  note add = law [of EPOLL_CTL_ADD] and del = law [of EPOLL_CTL_DEL] and mod = law [of EPOLL_CTL_MOD]
  show "fd \<in> opened k \<Longrightarrow> fd \<notin> watched k e \<Longrightarrow> \<exists>k'. call e EPOLL_CTL_ADD fd ev k = (k', 0) \<and>
      opened k' = opened k \<and> watched k' = (watched k)(e := insert fd (watched k e))"
    using add by (auto simp: Let_def)
  show "fd \<in> opened k \<Longrightarrow> fd \<in> watched k e \<Longrightarrow> \<exists>k'. call e EPOLL_CTL_MOD fd ev k = (k', 0) \<and>
      same_tables opened watched k k'"
    using mod by (auto simp: Let_def same_tables_def)
  show "fd \<in> opened k \<Longrightarrow> fd \<in> watched k e \<Longrightarrow> \<exists>k'. call e EPOLL_CTL_DEL fd ev k = (k', 0) \<and>
      opened k' = opened k \<and> watched k' = (watched k)(e := watched k e - {fd})"
    using del by (auto simp: Let_def)
  show "fd \<notin> opened k \<or> fd \<in> watched k e \<Longrightarrow> \<exists>k'. call e EPOLL_CTL_ADD fd ev k = (k', - 1) \<and>
      same_tables opened watched k k'"
    using add by (auto simp: Let_def)
  show "fd \<notin> opened k \<or> fd \<notin> watched k e \<Longrightarrow> \<exists>k'. call e EPOLL_CTL_MOD fd ev k = (k', - 1) \<and>
      same_tables opened watched k k'"
    using mod by (auto simp: Let_def)
  show "fd \<notin> opened k \<or> fd \<notin> watched k e \<Longrightarrow> \<exists>k'. call e EPOLL_CTL_DEL fd ev k = (k', - 1) \<and>
      same_tables opened watched k k'"
    using del by (auto simp: Let_def)
qed

lemma posix_ok_watched: "posix_ok os opened watched \<Longrightarrow> watched k e \<subseteq> opened k"
  by (simp add: posix_ok_def)

lemma epoll_add_ok:
  assumes "posix_ok os opened watched" "fd \<in> opened k" "fd \<notin> watched k (epoll_fd ep)"
  obtains k' where "epoll_add os ep fd events k = (k', Inr ())" "opened k' = opened k"
    "watched k' = (watched k)(epoll_fd ep := insert fd (watched k (epoll_fd ep)))"
proof -
  have "ctl_ok opened watched (sys_epoll_ctl os)" using assms(1) by (simp add: posix_ok_def)
  from ctl_okD(1) [OF this assms(2,3), of "Some \<lparr>ev_events = events, ev_fd = fd\<rparr>"] that
  show ?thesis by (auto simp: epoll_add_def checked_def eff_defs)
qed

lemma epoll_add_fails:
  assumes "posix_ok os opened watched" "fd \<notin> opened k \<or> fd \<in> watched k (epoll_fd ep)"
  obtains k' where "epoll_add os ep fd events k =
      (k', Inl (runtime_error ''Failed to add file descriptor to epoll''))"
    "same_tables opened watched k k'"
proof -
  have "ctl_ok opened watched (sys_epoll_ctl os)" using assms(1) by (simp add: posix_ok_def)
  from ctl_okD(4) [OF this assms(2), of "Some \<lparr>ev_events = events, ev_fd = fd\<rparr>"] that
  show ?thesis by (auto simp: epoll_add_def checked_def eff_defs fail_with_def)
qed

lemma epoll_modify_same:
  assumes "posix_ok os opened watched"
  shows "same_tables opened watched k (fst (epoll_modify os ep fd events k))"
    and "snd (epoll_modify os ep fd events k) =
      (if fd \<in> opened k \<and> fd \<in> watched k (epoll_fd ep) then Inr ()
       else Inl (runtime_error ''Failed to modify file descriptor in epoll''))"
proof -
  have ctl: "ctl_ok opened watched (sys_epoll_ctl os)" using assms(1) by (simp add: posix_ok_def)
  let ?ev = "Some \<lparr>ev_events = events, ev_fd = fd\<rparr>"
  have "same_tables opened watched k (fst (epoll_modify os ep fd events k)) \<and>
      snd (epoll_modify os ep fd events k) =
      (if fd \<in> opened k \<and> fd \<in> watched k (epoll_fd ep) then Inr ()
       else Inl (runtime_error ''Failed to modify file descriptor in epoll''))"
  proof (cases "fd \<in> opened k \<and> fd \<in> watched k (epoll_fd ep)")
    case True
    with ctl_okD(2) [OF ctl, of fd k "epoll_fd ep" ?ev] show ?thesis
      by (auto simp: epoll_modify_def checked_def eff_defs)
  next
    case False
    with ctl_okD(5) [OF ctl, of fd k "epoll_fd ep" ?ev] show ?thesis
      by (auto simp: epoll_modify_def checked_def eff_defs fail_with_def)
  qed
  then show "same_tables opened watched k (fst (epoll_modify os ep fd events k))"
    and "snd (epoll_modify os ep fd events k) =
      (if fd \<in> opened k \<and> fd \<in> watched k (epoll_fd ep) then Inr ()
       else Inl (runtime_error ''Failed to modify file descriptor in epoll''))"
    by blast+
qed

lemma epoll_remove_ok:
  assumes "posix_ok os opened watched" "fd \<in> opened k" "fd \<in> watched k (epoll_fd ep)"
  obtains k' where "epoll_remove os ep fd k = (k', Inr ())" "opened k' = opened k"
    "watched k' = (watched k)(epoll_fd ep := watched k (epoll_fd ep) - {fd})"
proof -
  have "ctl_ok opened watched (sys_epoll_ctl os)" using assms(1) by (simp add: posix_ok_def)
  from ctl_okD(3) [OF this assms(2,3), of None] that
  show ?thesis by (auto simp: epoll_remove_def checked_def eff_defs)
qed

lemma epoll_remove_fails:
  assumes "posix_ok os opened watched" "fd \<notin> opened k \<or> fd \<notin> watched k (epoll_fd ep)"
  obtains k' where "epoll_remove os ep fd k =
      (k', Inl (runtime_error ''Failed to remove file descriptor from epoll''))"
    "same_tables opened watched k k'"
proof -
  have "ctl_ok opened watched (sys_epoll_ctl os)" using assms(1) by (simp add: posix_ok_def)
  from ctl_okD(6) [OF this assms(2), of None] that
  show ?thesis by (auto simp: epoll_remove_def checked_def eff_defs fail_with_def)
qed

lemma socket_accept_cases:
  assumes "posix_ok os opened watched" and run: "socket_accept os s k = (k', r)"
  obtains (error) e where "r = Inl e" "same_tables opened watched k k'"
    | (none) "r = Inr Socket_invalid" "same_tables opened watched k k'"
    | (accepted) fd where "r = Inr (Socket_of fd)" "0 \<le> fd" "fd \<notin> opened k"
      "opened k' = insert fd (opened k)" "watched k' = watched k" "\<And>e. fd \<notin> watched k e"
proof -
  obtain fd where acc: "sys_accept os (file_descriptor s) k = (k', fd)"
    using run by (auto simp: socket_accept_def split: prod.splits if_splits)
  have "allocates opened watched (sys_accept os (file_descriptor s))"
    using assms(1) by (simp add: posix_ok_def)
  note law = allocatesD [OF this acc]
  show thesis
  proof (cases "fd = - 1")
    case True
    then have "same_tables opened watched k k'" by (rule law)
    with run acc True show thesis
      by (auto simp: socket_accept_def split: if_splits intro: error none)
  next
    case False
    from law(2) [OF this] run acc False show thesis
      by (intro accepted [of fd]) (auto simp: socket_accept_def)
  qed
qed

lemma create_tcp_cases:
  assumes "posix_ok os opened watched" and run: "create_tcp os k = (k', r)"
  obtains (error) e where "r = Inl e" "same_tables opened watched k k'"
    | (created) fd where "r = Inr (Socket_of fd)" "0 \<le> fd" "fd \<notin> opened k"
      "opened k' = insert fd (opened k)" "watched k' = watched k"
proof -
  obtain fd where call: "sys_socket os k = (k', fd)"
    using run by (auto simp: create_tcp_def checked_def eff_defs split: prod.splits if_splits)
  have "allocates opened watched (sys_socket os)" using assms(1) by (simp add: posix_ok_def)
  note law = allocatesD [OF this call]
  show thesis
  proof (cases "fd = - 1")
    case True
    then have "same_tables opened watched k k'" by (rule law)
    with run call True show thesis
      by (auto simp: create_tcp_def checked_def eff_defs intro: error)
  next
    case False
    from law(2) [OF this] run call False show thesis
      by (intro created [of fd]) (auto simp: create_tcp_def checked_def eff_defs)
  qed
qed

lemma setNonBlocking_same:
  assumes "posix_ok os opened watched"
  shows "same_tables opened watched k (fst (setNonBlocking os s k))"
proof -
  have fl: "\<And>k fd. same_tables opened watched k (fst (sys_getfl os fd k))"
    "\<And>k fd v. same_tables opened watched k (fst (sys_setfl os fd v k))"
    using assms by (simp_all add: posix_ok_def neutral_def)
  obtain k1 r1 where g: "sys_getfl os (file_descriptor s) k = (k1, r1)" by fastforce
  have 1: "same_tables opened watched k k1" using fl(1) [of k "file_descriptor s"] g by simp
  obtain k2 r2 where t: "sys_setfl os (file_descriptor s) (r1 OR O_NONBLOCK) k1 = (k2, r2)"
    by fastforce
  have 2: "same_tables opened watched k1 k2"
    using fl(2) [of k1 "file_descriptor s" "r1 OR O_NONBLOCK"] t by simp
  show ?thesis
    using 1 same_tables_trans [OF 1 2] g t
    by (auto simp: setNonBlocking_def checked_def eff_defs Let_def)
qed

lemma epoll_wait_events:
  assumes "posix_ok os opened watched" and "epoll_wait os ep t k = (k', Inr evs)"
  shows "same_tables opened watched k k'" "distinct (map ev_fd evs)"
    "ev_fd ` set evs \<subseteq> watched k (epoll_fd ep)" "length evs \<le> MAX_EVENTS"
proof -
  obtain n raw where call: "sys_epoll_wait os (epoll_fd ep) MAX_EVENTS t k = (k', n, raw)"
    using assms(2) by (auto simp: epoll_wait_def split: prod.splits if_splits)
  have "wait_ok opened watched (sys_epoll_wait os)" using assms(1) by (simp add: posix_ok_def)
  with call have "same_tables opened watched k k' \<and> - 1 \<le> n \<and> n \<le> int MAX_EVENTS \<and>
      (let got = take (nat n) raw in length got = nat n \<and> distinct (map ev_fd got) \<and>
        ev_fd ` set got \<subseteq> watched k (epoll_fd ep))"
    unfolding wait_ok_def by blast
  moreover have "evs = [] \<or> evs = take (nat n) raw"
    using assms(2) call by (auto simp: epoll_wait_def split: if_splits)
  ultimately show "same_tables opened watched k k'" "distinct (map ev_fd evs)"
    "ev_fd ` set evs \<subseteq> watched k (epoll_fd ep)" "length evs \<le> MAX_EVENTS"
    by (auto simp: Let_def)
qed

lemma epoll_wait_same:
  assumes "posix_ok os opened watched"
  shows "same_tables opened watched k (fst (epoll_wait os ep t k))"
proof -
  have "wait_ok opened watched (sys_epoll_wait os)" using assms(1) by (simp add: posix_ok_def)
  then show ?thesis unfolding wait_ok_def epoll_wait_def by (auto split: prod.splits)
qed

section \<open>Objects that own descriptors\<close>

text \<open>
  The sockets alive, by address. The result of a function is constructed in place at the address of
  the caller's variable; a move takes the descriptor from the source object; the destructor closes
  and ends the object's life. Copying is deleted.
\<close>

record 'k sockets =
  sk_kernel :: 'k
  sk_heap :: "nat \<rightharpoonup> Socket"

definition socket_move_construct :: "nat \<Rightarrow> nat \<Rightarrow> 'k sockets \<Rightarrow> 'k sockets" where
  "socket_move_construct this other st =
     (case sk_heap st other of
        None \<Rightarrow> st
      | Some s \<Rightarrow> st\<lparr>sk_heap := (sk_heap st)(this \<mapsto> Socket_of (file_descriptor s),
                                        other \<mapsto> s\<lparr>file_descriptor := - 1\<rparr>)\<rparr>)"

definition socket_move_assign :: "'k os \<Rightarrow> nat \<Rightarrow> nat \<Rightarrow> 'k sockets \<Rightarrow> 'k sockets" where
  "socket_move_assign os this other st =
     (if this = other then st
      else
        (case (sk_heap st this, sk_heap st other) of
           (Some t, Some s) \<Rightarrow>
             (case socket_close os t (sk_kernel st) of
                (k', t') \<Rightarrow>
                  st\<lparr>sk_kernel := k', sk_heap := (sk_heap st)
                    (this \<mapsto> t'\<lparr>file_descriptor := file_descriptor s\<rparr>,
                     other \<mapsto> s\<lparr>file_descriptor := - 1\<rparr>)\<rparr>)
         | _ \<Rightarrow> st))"

definition socket_close_at :: "'k os \<Rightarrow> nat \<Rightarrow> 'k sockets \<Rightarrow> 'k sockets" where
  "socket_close_at os this st =
     (case sk_heap st this of
        None \<Rightarrow> st
      | Some s \<Rightarrow>
          (case socket_close os s (sk_kernel st) of
             (k', s') \<Rightarrow> st\<lparr>sk_kernel := k', sk_heap := (sk_heap st)(this \<mapsto> s')\<rparr>))"

definition socket_destroy :: "'k os \<Rightarrow> nat \<Rightarrow> 'k sockets \<Rightarrow> 'k sockets" where
  "socket_destroy os this st =
     (let st' = socket_close_at os this st in st'\<lparr>sk_heap := (sk_heap st')(this := None)\<rparr>)"

definition configurations :: "'k os \<Rightarrow> Socket \<Rightarrow> ('k, unit) effect set" where
  "configurations os s =
     {setReuseAddress os s, setReusePort os s, setNonBlocking os s} \<union>
     range (socket_bind os s) \<union> range (socket_listen os s)"

inductive sockets_step :: "'k os \<Rightarrow> 'k sockets \<Rightarrow> 'k sockets \<Rightarrow> bool" for os :: "'k os" where
  create: "sk_heap st a = None \<Longrightarrow> create_tcp os (sk_kernel st) = (k', Inr s) \<Longrightarrow>
    sockets_step os st (st\<lparr>sk_kernel := k', sk_heap := (sk_heap st)(a \<mapsto> s)\<rparr>)"
| create_throws: "create_tcp os (sk_kernel st) = (k', Inl e) \<Longrightarrow>
    sockets_step os st (st\<lparr>sk_kernel := k'\<rparr>)"
| accept: "sk_heap st b = Some l \<Longrightarrow> sk_heap st a = None \<Longrightarrow>
    socket_accept os l (sk_kernel st) = (k', Inr s) \<Longrightarrow>
    sockets_step os st (st\<lparr>sk_kernel := k', sk_heap := (sk_heap st)(a \<mapsto> s)\<rparr>)"
| accept_throws: "sk_heap st b = Some l \<Longrightarrow> socket_accept os l (sk_kernel st) = (k', Inl e) \<Longrightarrow>
    sockets_step os st (st\<lparr>sk_kernel := k'\<rparr>)"
| configure: "sk_heap st a = Some s \<Longrightarrow> m \<in> configurations os s \<Longrightarrow>
    sockets_step os st (st\<lparr>sk_kernel := fst (m (sk_kernel st))\<rparr>)"
| move_construct: "sk_heap st a = None \<Longrightarrow> sockets_step os st (socket_move_construct a b st)"
| move_assign: "sockets_step os st (socket_move_assign os a b st)"
| close: "sockets_step os st (socket_close_at os a st)"
| destroy: "sockets_step os st (socket_destroy os a st)"

definition holds :: "(nat \<rightharpoonup> Socket) \<Rightarrow> nat \<rightharpoonup> int" where
  "holds h a =
     (case h a of None \<Rightarrow> None
      | Some s \<Rightarrow> if socket_valid s then Some (file_descriptor s) else None)"

definition owned :: "'k sockets \<Rightarrow> int set" where
  "owned st = ran (holds (sk_heap st))"

text \<open>
  Two objects never hold the same descriptor, and the open descriptors are those that were open
  before (\<open>base\<close>) and those an object holds: nothing leaks and nothing is closed twice.
\<close>

definition sole_owner :: "(nat \<rightharpoonup> int) \<Rightarrow> bool" where
  "sole_owner m \<longleftrightarrow> inj_on m (dom m)"

definition sockets_init ::
  "'k os \<Rightarrow> ('k \<Rightarrow> int set) \<Rightarrow> ('k \<Rightarrow> int \<Rightarrow> int set) \<Rightarrow> int set \<Rightarrow> 'k sockets \<Rightarrow> bool" where
  "sockets_init os opened watched base st \<longleftrightarrow> posix_ok os opened watched \<and>
     sk_heap st = Map.empty \<and> opened (sk_kernel st) = base"

definition sockets_inv ::
  "'k os \<Rightarrow> ('k \<Rightarrow> int set) \<Rightarrow> ('k \<Rightarrow> int \<Rightarrow> int set) \<Rightarrow> int set \<Rightarrow> 'k sockets \<Rightarrow> bool" where
  "sockets_inv os opened watched base st \<longleftrightarrow> posix_ok os opened watched \<and>
     sole_owner (holds (sk_heap st)) \<and> base \<inter> owned st = {} \<and> opened (sk_kernel st) = base \<union> owned st"

lemma holds_upd [simp]:
  "holds (h(a \<mapsto> s)) = (holds h)(a := if socket_valid s then Some (file_descriptor s) else None)"
  "holds (h(a := None)) = (holds h)(a := None)"
  "holds Map.empty = Map.empty"
  by (auto simp: holds_def fun_eq_iff)

lemma holds_Some: "h a = Some s \<Longrightarrow> socket_valid s \<Longrightarrow> holds h a = Some (file_descriptor s)"
  by (simp add: holds_def)

lemma holds_None: "h a = None \<Longrightarrow> holds h a = None"
  and holds_invalid: "h a = Some s \<Longrightarrow> \<not> socket_valid s \<Longrightarrow> holds h a = None"
  by (simp_all add: holds_def)

lemma sole_owner_remove: "sole_owner m \<Longrightarrow> sole_owner (m(a := None))"
  by (auto simp: sole_owner_def inj_on_def)

lemma sole_owner_add: "sole_owner m \<Longrightarrow> v \<notin> ran m \<Longrightarrow> sole_owner (m(a \<mapsto> v))"
  by (auto simp: sole_owner_def inj_on_def ran_def)

lemma ran_remove: "sole_owner m \<Longrightarrow> m a = Some v \<Longrightarrow> ran (m(a := None)) = ran m - {v}"
  unfolding sole_owner_def inj_on_def ran_def dom_def by auto (metis option.inject)

lemma ran_add: "m a = None \<Longrightarrow> ran (m(a \<mapsto> v)) = insert v (ran m)"
  by (rule ran_map_upd)

lemma map_remove_None: "m a = None \<Longrightarrow> m(a := None) = m"
  by auto

lemma configurations_same:
  assumes "posix_ok os opened watched" and "m \<in> configurations os s"
  shows "same_tables opened watched k (fst (m k))"
  using assms setNonBlocking_same [OF assms(1), of k s]
  by (auto simp: configurations_def posix_ok_def neutral_def setReuseAddress_def setReusePort_def
      socket_bind_def socket_listen_def)

lemma closed_tables:
  assumes "posix_ok os opened watched"
  shows "opened (fst (sys_close os fd k)) = opened k - {fd}"
    and "watched (fst (sys_close os fd k)) = (\<lambda>e. watched k e - {fd})"
  using assms by (auto simp: posix_ok_def closes_def)

lemma inv_new_object:
  assumes "sockets_inv os opened watched base st" and "sk_heap st a = None"
    and "fd = - 1 \<and> opened k' = opened (sk_kernel st) \<or>
      0 \<le> fd \<and> fd \<notin> opened (sk_kernel st) \<and> opened k' = insert fd (opened (sk_kernel st))"
  shows "sockets_inv os opened watched base
    (st\<lparr>sk_kernel := k', sk_heap := (sk_heap st)(a \<mapsto> Socket_of fd)\<rparr>)"
  using assms holds_None [of "sk_heap st" a]
  by (auto simp: sockets_inv_def owned_def Socket_of_def socket_valid_def sole_owner_add ran_add
      map_remove_None)

lemma inv_same:
  assumes "sockets_inv os opened watched base st" "same_tables opened watched (sk_kernel st) k'"
  shows "sockets_inv os opened watched base (st\<lparr>sk_kernel := k'\<rparr>)"
  using assms by (simp add: sockets_inv_def owned_def same_tables_def)

lemma inv_close:
  assumes "sockets_inv os opened watched base st"
  shows "sockets_inv os opened watched base (socket_close_at os a st)"
proof (cases "sk_heap st a")
  case None
  with assms show ?thesis by (simp add: socket_close_at_def)
next
  case (Some s)
  have px: "posix_ok os opened watched" using assms by (simp add: sockets_inv_def)
  show ?thesis
  proof (cases "socket_valid s")
    case True
    have m: "holds (sk_heap st) a = Some (file_descriptor s)" using Some True by (simp add: holds_Some)
    with assms Some True ranI [of "holds (sk_heap st)" a, OF m] show ?thesis
      by (auto simp: sockets_inv_def socket_close_at_def socket_close_def owned_def socket_valid_def
          closed_tables [OF px] ran_remove sole_owner_remove)
  next
    case False
    with assms Some holds_invalid [of "sk_heap st" a s, OF Some False] show ?thesis
      by (auto simp: sockets_inv_def socket_close_at_def socket_close_def owned_def socket_valid_def
          map_remove_None)
  qed
qed

lemma inv_drop:
  assumes "sockets_inv os opened watched base st" "holds (sk_heap st) a = None"
  shows "sockets_inv os opened watched base (st\<lparr>sk_heap := (sk_heap st)(a := None)\<rparr>)"
  using assms by (simp add: sockets_inv_def owned_def map_remove_None)

lemma closed_holds: "holds (sk_heap (socket_close_at os a st)) a = None"
  by (auto simp: socket_close_at_def socket_close_def holds_def socket_valid_def split: option.splits)

lemma inv_move:
  assumes inv: "sockets_inv os opened watched base st" and "a \<noteq> b"
    and free: "holds (sk_heap st) a = None" and b: "sk_heap st b = Some s"
  shows "sockets_inv os opened watched base
    (st\<lparr>sk_heap := (sk_heap st)(a \<mapsto> Socket_of (file_descriptor s), b \<mapsto> s\<lparr>file_descriptor := - 1\<rparr>)\<rparr>)"
proof (cases "socket_valid s")
  case True
  let ?m = "holds (sk_heap st)"
  have mb: "?m b = Some (file_descriptor s)" using b True by (simp add: holds_Some)
  have so: "sole_owner ?m" using inv by (simp add: sockets_inv_def)
  have rr: "ran (?m(b := None)) = ran ?m - {file_descriptor s}" using so mb by (rule ran_remove)
  have sm: "sole_owner ((?m(b := None))(a \<mapsto> file_descriptor s))"
    using sole_owner_remove [OF so] rr by (intro sole_owner_add) auto
  have "ran ((?m(b := None))(a \<mapsto> file_descriptor s)) = insert (file_descriptor s) (ran (?m(b := None)))"
    using free by (intro ran_add) simp
  also have "\<dots> = ran ?m" using rr mb by (auto simp: ran_def)
  finally have rm: "ran ((?m(b := None))(a \<mapsto> file_descriptor s)) = ran ?m" .
  have eq: "(?m(b := None))(a \<mapsto> file_descriptor s) = (?m(a \<mapsto> file_descriptor s))(b := None)"
    using \<open>a \<noteq> b\<close> by (simp add: fun_upd_twist)
  show ?thesis
    using inv True sm rm unfolding eq
    by (simp add: sockets_inv_def owned_def Socket_of_def socket_valid_def)
next
  case False
  with inv free holds_invalid [of "sk_heap st" b s, OF b False] show ?thesis
    by (simp add: sockets_inv_def owned_def Socket_of_def socket_valid_def map_remove_None)
qed

lemma inv_move_assign:
  assumes inv: "sockets_inv os opened watched base st"
  shows "sockets_inv os opened watched base (socket_move_assign os a b st)"
proof (cases "a \<noteq> b \<and> sk_heap st a \<noteq> None \<and> sk_heap st b \<noteq> None")
  case True
  then obtain t s where a: "sk_heap st a = Some t" and b: "sk_heap st b = Some s" and ne: "a \<noteq> b"
    by auto
  obtain k' t' where c: "socket_close os t (sk_kernel st) = (k', t')" by fastforce
  let ?st = "socket_close_at os a st"
  have st: "?st = st\<lparr>sk_kernel := k', sk_heap := (sk_heap st)(a \<mapsto> t')\<rparr>"
    using a c by (simp add: socket_close_at_def)
  have "sk_heap ?st b = Some s" using b ne st by simp
  from inv_move [OF inv_close [OF inv] ne closed_holds this]
  show ?thesis
    using a b ne c st by (cases t') (simp add: socket_move_assign_def Socket_of_def)
next
  case False
  with inv show ?thesis
    by (auto simp: socket_move_assign_def split: option.splits)
qed

lemma inv_move_construct:
  assumes inv: "sockets_inv os opened watched base st" and a: "sk_heap st a = None"
  shows "sockets_inv os opened watched base (socket_move_construct a b st)"
proof (cases "sk_heap st b")
  case None
  then show ?thesis using inv by (simp add: socket_move_construct_def)
next
  case (Some s)
  with a have "a \<noteq> b" by auto
  from inv_move [OF inv this holds_None [of "sk_heap st" a, OF a] Some] show ?thesis
    using Some by (simp add: socket_move_construct_def)
qed

lemma sockets_inv_step:
  assumes inv: "sockets_inv os opened watched base st" and step: "sockets_step os st st'"
  shows "sockets_inv os opened watched base st'"
proof -
  have px: "posix_ok os opened watched" using inv by (simp add: sockets_inv_def)
  show ?thesis using step
  proof cases
    case (create a k' s)
    from create(3) show ?thesis unfolding create(1)
      by (cases rule: create_tcp_cases [OF px]) (auto intro!: inv_new_object [OF inv create(2)])
  next
    case (create_throws k' e)
    from create_throws(2) show ?thesis unfolding create_throws(1)
      by (cases rule: create_tcp_cases [OF px]) (auto intro: inv_same [OF inv])
  next
    case (accept b l a k' s)
    have sok: "Socket_invalid = Socket_of (- 1)" by (simp add: Socket_invalid_def Socket_of_def)
    from accept(4) show ?thesis unfolding accept(1)
      by (cases rule: socket_accept_cases [OF px])
        (auto simp: sok same_tables_def intro!: inv_new_object [OF inv accept(3)])
  next
    case (accept_throws b l k' e)
    from accept_throws(3) show ?thesis unfolding accept_throws(1)
      by (cases rule: socket_accept_cases [OF px]) (auto intro: inv_same [OF inv])
  next
    case (configure a s m)
    then show ?thesis by (auto intro: inv_same [OF inv] configurations_same [OF px])
  next
    case (move_construct a b)
    then show ?thesis by (simp add: inv_move_construct [OF inv])
  next
    case (move_assign a b)
    then show ?thesis by (simp add: inv_move_assign [OF inv])
  next
    case (close a)
    then show ?thesis by (simp add: inv_close [OF inv])
  next
    case (destroy a)
    then show ?thesis
      by (simp add: socket_destroy_def Let_def inv_drop inv_close [OF inv] closed_holds)
  qed
qed

interpretation sk: invariant_system "sockets_init os opened watched base" "sockets_step os"
  "sockets_inv os opened watched base" for os opened watched base
proof
  show "\<And>s. sockets_init os opened watched base s \<Longrightarrow> sockets_inv os opened watched base s"
    by (simp add: sockets_init_def sockets_inv_def owned_def sole_owner_def)
  show "\<And>s t. sockets_inv os opened watched base s \<Longrightarrow> sockets_step os s t \<Longrightarrow>
      sockets_inv os opened watched base t"
    by (rule sockets_inv_step)
qed

end
