(* ===== verification/Tcp_Server.thy ===== *)
theory Tcp_Server
  imports Router Socket_Epoll "HOL-Library.AList"
begin

text \<open>
  \<^verbatim>\<open>src/src/network/TcpServer.cpp\<close>: the workers, each with a listening socket, an epoll instance and a
  table of its connections, and the tasks they hand to the thread pool.

  The process state holds what the threads share: the kernel, the world that request handlers act
  on, the connections alive with the use counts of their \<open>shared_ptr\<close>, the tasks given to the pool
  and not yet finished, the flag \<open>running_\<close> and the two counters. A \<open>Worker\<close> has its own socket,
  epoll instance and table. Operations of a worker are effects on the pair of both.

  A task is a value that says which closure was enqueued; \<open>run_task\<close> is its body. Handlers and tasks
  are atomic steps here: the interleaving inside the pool is the subject of \<open>Thread_Pool\<close>.
\<close>

section \<open>Data\<close>

text \<open>
  The libraries the server calls: \<open>new_ssl\<close> is \<open>SSL_new\<close> on the context of the \<open>SslManager\<close> followed
  by \<open>SSL_set_fd\<close>.
\<close>

record ('j, 's, 'h, 'w, 'k) env =
  e_os :: "'k os"
  e_ssl :: "'s openssl"
  e_h2 :: "('j, 's, 'h) nghttp2"
  e_new_ssl :: "int \<Rightarrow> 'k \<Rightarrow> 'k \<times> 's"
  e_SHA1 :: "string \<Rightarrow> string"
  e_EVP_EncodeBlock :: "string \<Rightarrow> string"
  e_router :: "('j, 's, 'h, 'w) Router"

datatype 'j task =
    HttpTask Epoll nat "'j HttpRequest" int bool
  | WsTask Epoll nat WebSocketFrame int
  | H2Task nat stream_id "'j HttpRequest"

fun task_conn :: "'j task \<Rightarrow> nat" where
  "task_conn (HttpTask ep cid req fd keepAlive) = cid"
| "task_conn (WsTask ep cid frame fd) = cid"
| "task_conn (H2Task cid sid req) = cid"

record ('j, 's, 'h, 'w, 'k) process =
  kern :: 'k
  world :: 'w
  conns :: "nat \<rightharpoonup> ('j, 's, 'h) ClientConnection"
  use_count :: "nat \<Rightarrow> nat"
  next_conn :: nat
  tasks :: "'j task list"
  running :: bool
  active_count :: size_t
  total_requests :: size_t

record Worker =
  wk_socket :: Socket
  wk_epoll :: Epoll
  wk_active :: "(int \<times> nat) list"

definition CONNECTION_TIMEOUT_SECONDS :: int where "CONNECTION_TIMEOUT_SECONDS = 30"
definition DEFAULT_THREADS :: nat where "DEFAULT_THREADS = 4"
definition EPOLLERR :: "32 word" where "EPOLLERR = 8"
definition EPOLLHUP :: "32 word" where "EPOLLHUP = 16"

section \<open>Parts of the state\<close>

definition on_kernel :: "('k, 'a) effect \<Rightarrow> (('j, 's, 'h, 'w, 'k) process, 'a) effect" where
  "on_kernel m p = (case m (kern p) of (k', r) \<Rightarrow> (p\<lparr>kern := k'\<rparr>, r))"

text \<open>An operation on the connection with a given identity; no pointer in the code dangles.\<close>

definition on_conn ::
  "nat \<Rightarrow> (('j, 's, 'h) ClientConnection, 'a) effect \<Rightarrow> (('j, 's, 'h, 'w, 'k) process, 'a) effect" where
  "on_conn cid m p =
     (case conns p cid of
        None \<Rightarrow> (p, Inl (other_exception ''dangling connection''))
      | Some c \<Rightarrow> (case m c of (c', r) \<Rightarrow> (p\<lparr>conns := (conns p)(cid \<mapsto> c')\<rparr>, r)))"

definition on_process ::
  "(('j, 's, 'h, 'w, 'k) process, 'a) effect \<Rightarrow> (Worker \<times> ('j, 's, 'h, 'w, 'k) process, 'a) effect" where
  "on_process m st = (case m (snd st) of (p', r) \<Rightarrow> ((fst st, p'), r))"

definition now :: "'k os \<Rightarrow> ('k, int) effect" where
  "now os k = (case sys_now os k of (k', t) \<Rightarrow> (k', Inr t))"

text \<open>
  A \<open>shared_ptr\<close> released: with the last one the connection is destroyed, and with it its socket.
  The destructor's calls \<open>nghttp2_session_del\<close>, \<open>SSL_shutdown\<close> and \<open>SSL_free\<close> end the lives of the
  session and the TLS object.
\<close>

definition release ::
  "'k os \<Rightarrow> nat \<Rightarrow> ('j, 's, 'h, 'w, 'k) process \<Rightarrow> ('j, 's, 'h, 'w, 'k) process" where
  "release os cid p =
     (if 1 < use_count p cid then p\<lparr>use_count := (use_count p)(cid := use_count p cid - 1)\<rparr>
      else
        (case conns p cid of
           None \<Rightarrow> p
         | Some c \<Rightarrow>
             p\<lparr>kern := fst (socket_close os (Socket_of (cc_socket c)) (kern p)),
               conns := (conns p)(cid := None), use_count := (use_count p)(cid := 0)\<rparr>))"

definition enqueue ::
  "'j task \<Rightarrow> ('j, 's, 'h, 'w, 'k) process \<Rightarrow> ('j, 's, 'h, 'w, 'k) process" where
  "enqueue t p =
     p\<lparr>use_count := (use_count p)(task_conn t := use_count p (task_conn t) + 1), tasks := tasks p @ [t]\<rparr>"

definition isRunning :: "('j, 's, 'h, 'w, 'k) process \<Rightarrow> bool" where
  "isRunning p = running p"

definition server_stop :: "('j, 's, 'h, 'w, 'k) process \<Rightarrow> ('j, 's, 'h, 'w, 'k) process" where
  "server_stop p = p\<lparr>running := False\<rparr>"

section \<open>The tasks\<close>

definition REARM :: "32 word" where
  "REARM = EPOLLIN OR EPOLLET OR EPOLLONESHOT"

text \<open>\<open>::shutdown\<close> and \<open>::close\<close> on the descriptor, past the \<open>Socket\<close> that owns it.\<close>

definition raw_close ::
  "'k os \<Rightarrow> int \<Rightarrow> ('j, 's, 'h, 'w, 'k) process \<Rightarrow> ('j, 's, 'h, 'w, 'k) process" where
  "raw_close os fd p = p\<lparr>kern := fst (sys_close os fd (fst (sys_shutdown os fd (kern p))))\<rparr>"

text \<open>\<open>router_.handle(request)\<close> acts on the world of the handlers.\<close>

definition run_handler ::
  "('j, 's, 'h, 'w, 'k) env \<Rightarrow> 'j HttpRequest \<Rightarrow> (('j, 's, 'h, 'w, 'k) process, HttpResponse) effect" where
  "run_handler env req p =
     (case router_handle (e_router env) req (world p) of
        (w', Inl e) \<Rightarrow> (p\<lparr>world := w'\<rparr>, Inl e)
      | (w', Inr (req', response)) \<Rightarrow> (p\<lparr>world := w'\<rparr>, Inr response))"

text \<open>
  The body of the \<open>try\<close> block returns whether it re-armed the descriptor. Every other end, also an
  exception, closes the descriptor.
\<close>

definition http_task_body ::
  "('j, 's, 'h, 'w, 'k) env \<Rightarrow> Epoll \<Rightarrow> nat \<Rightarrow> 'j HttpRequest \<Rightarrow> int \<Rightarrow> bool \<Rightarrow>
   (('j, 's, 'h, 'w, 'k) process, bool) effect" where
  "http_task_body env ep cid req fd keepAlive =
     eff_bind (on_kernel (now (e_os env))) (\<lambda>start_time.
     eff_bind (run_handler env req) (\<lambda>response.
     eff_bind (on_kernel (now (e_os env))) (\<lambda>end_time.
     eff_bind (on_conn cid (\<lambda>c. conn_send (e_ssl env) c (serialize
       (res_setHeader response ''Connection'' (if keepAlive then ''keep-alive'' else ''close''))))) (\<lambda>_.
     eff_bind (on_kernel (now (e_os env))) (\<lambda>t.
     eff_bind (on_conn cid (\<lambda>c. (updateActivity t c, Inr ()))) (\<lambda>_.
     eff_bind (eff_get isRunning) (\<lambda>up.
       if keepAlive \<and> up
       then eff_bind (on_kernel (epoll_modify (e_os env) ep fd REARM)) (\<lambda>_. eff_return True)
       else eff_return False)))))))"

definition ws_task_body ::
  "('j, 's, 'h, 'w, 'k) env \<Rightarrow> Epoll \<Rightarrow> nat \<Rightarrow> WebSocketFrame \<Rightarrow> int \<Rightarrow>
   (('j, 's, 'h, 'w, 'k) process, bool) effect" where
  "ws_task_body env ep cid frame fd =
     eff_bind (\<lambda>p. case conns p cid of
         None \<Rightarrow> (p, Inl (other_exception ''dangling connection''))
       | Some c \<Rightarrow>
           (case handleWs (e_router env) cid c frame (world p) of
              ((w', c'), r) \<Rightarrow> (p\<lparr>world := w', conns := (conns p)(cid \<mapsto> c')\<rparr>, r))) (\<lambda>_.
     eff_bind (eff_get isRunning) (\<lambda>up.
       if up then eff_bind (on_kernel (epoll_modify (e_os env) ep fd REARM)) (\<lambda>_. eff_return True)
       else eff_return False))"

definition h2_task_body ::
  "('j, 's, 'h, 'w, 'k) env \<Rightarrow> nat \<Rightarrow> stream_id \<Rightarrow> 'j HttpRequest \<Rightarrow>
   (('j, 's, 'h, 'w, 'k) process, unit) effect" where
  "h2_task_body env cid sid req =
     eff_bind (on_kernel (now (e_os env))) (\<lambda>start.
     eff_bind (run_handler env req) (\<lambda>response.
     eff_bind (on_kernel (now (e_os env))) (\<lambda>end_time.
       on_conn cid (\<lambda>c. (submitHttp2Response (e_ssl env) (e_h2 env) c sid response, Inr ())))))"

definition close_unless_rearmed ::
  "'k os \<Rightarrow> int \<Rightarrow> ('j, 's, 'h, 'w, 'k) process \<times> (std_exception + bool) \<Rightarrow>
   ('j, 's, 'h, 'w, 'k) process" where
  "close_unless_rearmed os fd = (\<lambda>(p, r). if r = Inr True then p else raw_close os fd p)"

fun run_closure ::
  "('j, 's, 'h, 'w, 'k) env \<Rightarrow> 'j task \<Rightarrow> ('j, 's, 'h, 'w, 'k) process \<Rightarrow>
   ('j, 's, 'h, 'w, 'k) process" where
  "run_closure env (HttpTask ep cid req fd keepAlive) p =
     close_unless_rearmed (e_os env) fd (http_task_body env ep cid req fd keepAlive p)"
| "run_closure env (WsTask ep cid frame fd) p =
     close_unless_rearmed (e_os env) fd (ws_task_body env ep cid frame fd p)"
| "run_closure env (H2Task cid sid req) p = fst (h2_task_body env cid sid req p)"

text \<open>The pool runs the closure and destroys it, which releases the connection it captured.\<close>

definition run_task ::
  "('j, 's, 'h, 'w, 'k) env \<Rightarrow> 'j task \<Rightarrow> ('j, 's, 'h, 'w, 'k) process \<Rightarrow>
   ('j, 's, 'h, 'w, 'k) process" where
  "run_task env t p =
     release (e_os env) (task_conn t) ((run_closure env t p)\<lparr>tasks := remove1 t (tasks p)\<rparr>)"

section \<open>Disconnecting and sweeping\<close>

type_synonym ('j, 's, 'h, 'w, 'k) wstate = "Worker \<times> ('j, 's, 'h, 'w, 'k) process"

text \<open>\<open>active_connections_.erase(fd)\<close>, which releases the pointer it held.\<close>

definition erase_active ::
  "'k os \<Rightarrow> int \<Rightarrow> ('j, 's, 'h, 'w, 'k) wstate \<Rightarrow> ('j, 's, 'h, 'w, 'k) wstate" where
  "erase_active os fd st =
     (case map_of (wk_active (fst st)) fd of
        None \<Rightarrow> st
      | Some cid \<Rightarrow>
          ((fst st)\<lparr>wk_active := AList.delete fd (wk_active (fst st))\<rparr>,
           (let p = release os cid (snd st) in p\<lparr>active_count := active_count p - 1\<rparr>)))"

definition disconnectClient ::
  "('j, 's, 'h, 'w, 'k) env \<Rightarrow> int \<Rightarrow> (('j, 's, 'h, 'w, 'k) wstate, unit) effect" where
  "disconnectClient env fd st =
     eff_bind (on_process (on_kernel (epoll_remove (e_os env) (wk_epoll (fst st)) fd)))
       (\<lambda>_. eff_modify (erase_active (e_os env) fd)) st"

text \<open>The descriptors of the idle connections, in the order of the table.\<close>

fun collect_idle ::
  "'k os \<Rightarrow> (nat \<rightharpoonup> ('j, 's, 'h) ClientConnection) \<Rightarrow> (int \<times> nat) list \<Rightarrow> 'k \<Rightarrow> 'k \<times> int list" where
  "collect_idle os cs [] k = (k, [])"
| "collect_idle os cs ((fd, cid) # rest) k =
     (case sys_now os k of
        (k1, t) \<Rightarrow>
          (case collect_idle os cs rest k1 of
             (k2, fds) \<Rightarrow>
               (k2, if (case cs cid of None \<Rightarrow> False | Some c \<Rightarrow> isIdle t c CONNECTION_TIMEOUT_SECONDS)
                    then fd # fds else fds)))"

fun disconnect_all ::
  "('j, 's, 'h, 'w, 'k) env \<Rightarrow> int list \<Rightarrow> (('j, 's, 'h, 'w, 'k) wstate, unit) effect" where
  "disconnect_all env [] st = (st, Inr ())"
| "disconnect_all env (fd # fds) st = eff_bind (disconnectClient env fd) (\<lambda>_. disconnect_all env fds) st"

definition sweepIdleConnections ::
  "('j, 's, 'h, 'w, 'k) env \<Rightarrow> (('j, 's, 'h, 'w, 'k) wstate, unit) effect" where
  "sweepIdleConnections env st =
     (case collect_idle (e_os env) (conns (snd st)) (wk_active (fst st)) (kern (snd st)) of
        (k', stale_fds) \<Rightarrow> disconnect_all env stale_fds (fst st, (snd st)\<lparr>kern := k'\<rparr>))"

section \<open>New connections\<close>

text \<open>
  One round of the loop; the result says whether it goes on. A throw of \<open>setNonBlocking\<close> destroys
  the local \<open>client_socket\<close>. The assignment to the table's entry releases a connection it held.
\<close>

definition register_client ::
  "('j, 's, 'h, 'w, 'k) env \<Rightarrow> int \<Rightarrow> 's \<Rightarrow> int \<Rightarrow> ('j, 's, 'h, 'w, 'k) wstate \<Rightarrow>
   ('j, 's, 'h, 'w, 'k) wstate" where
  "register_client env fd ssl t st =
     (let w = fst st;
          p = snd st;
          cid = next_conn p;
          p1 = p\<lparr>conns := (conns p)(cid \<mapsto> new_connection fd ssl t), use_count := (use_count p)(cid := 1),
                 next_conn := cid + 1\<rparr>;
          p2 = (case map_of (wk_active w) fd of None \<Rightarrow> p1 | Some old \<Rightarrow> release (e_os env) old p1) in
      (w\<lparr>wk_active := AList.update fd cid (wk_active w)\<rparr>,
       p2\<lparr>active_count := active_count p2 + 1\<rparr>))"

definition new_ssl :: "('j, 's, 'h, 'w, 'k) env \<Rightarrow> int \<Rightarrow> ('k, 's) effect" where
  "new_ssl env fd k = (case e_new_ssl env fd k of (k', s) \<Rightarrow> (k', Inr s))"

definition closing_on_throw :: "'k os \<Rightarrow> Socket \<Rightarrow> ('k, unit) effect \<Rightarrow> ('k, unit) effect" where
  "closing_on_throw os s m =
     eff_catch m (\<lambda>e. eff_bind (eff_modify (\<lambda>k. fst (socket_close os s k))) (\<lambda>_. eff_throw e))"

definition accept_one ::
  "('j, 's, 'h, 'w, 'k) env \<Rightarrow> (('j, 's, 'h, 'w, 'k) wstate, bool) effect" where
  "accept_one env st =
     eff_bind (on_process (on_kernel (socket_accept (e_os env) (wk_socket (fst st))))) (\<lambda>client.
       if \<not> socket_valid client then eff_return False
       else
         eff_bind (on_process (on_kernel (closing_on_throw (e_os env) client
                      (setNonBlocking (e_os env) client)))) (\<lambda>_.
         eff_bind (on_process (on_kernel (new_ssl env (socket_fd client)))) (\<lambda>ssl.
         eff_bind (on_process (on_kernel (now (e_os env)))) (\<lambda>t.
         eff_bind (eff_modify (register_client env (socket_fd client) ssl t)) (\<lambda>_.
         eff_bind (on_process (on_kernel
             (epoll_add (e_os env) (wk_epoll (fst st)) (socket_fd client) REARM))) (\<lambda>_.
           eff_return True)))))) st"

text \<open>The loop ends when the queue of pending connections is empty.\<close>

partial_function (option) handleNewConnection ::
  "('j, 's, 'h, 'w, 'k) env \<Rightarrow> ('j, 's, 'h, 'w, 'k) wstate \<Rightarrow>
   (('j, 's, 'h, 'w, 'k) wstate \<times> (std_exception + unit)) option" where
  "handleNewConnection env st =
     (case accept_one env st of
        (st', r) \<Rightarrow>
          if r = Inr True then handleNewConnection env st'
          else Some (st', case r of Inl e \<Rightarrow> Inl e | Inr _ \<Rightarrow> Inr ()))"

declare handleNewConnection.simps [code]

section \<open>Data from a client\<close>

definition rearm :: "('j, 's, 'h, 'w, 'k) env \<Rightarrow> int \<Rightarrow> 32 word \<Rightarrow> (('j, 's, 'h, 'w, 'k) wstate, unit) effect" where
  "rearm env fd events st =
     on_process (on_kernel (epoll_modify (e_os env) (wk_epoll (fst st)) fd events)) st"

definition blank_frame :: WebSocketFrame where
  "blank_frame = \<lparr>fin = False, opcode = WsContinuation, payload = []\<rparr>"

definition take_frame :: "(('j, 's, 'h) ClientConnection, WebSocketFrame \<times> ParseResult) effect" where
  "take_frame c =
     (case parseWebSocketFrame c blank_frame of
        (c', frame, Inl e) \<Rightarrow> (c', Inl e)
      | (c', frame, Inr v) \<Rightarrow> (c', Inr (frame, v)))"

text \<open>One turn of the loop on an upgraded connection; the result says whether it goes on.\<close>

definition ws_turn ::
  "('j, 's, 'h, 'w, 'k) env \<Rightarrow> int \<Rightarrow> nat \<Rightarrow> (('j, 's, 'h, 'w, 'k) wstate, bool) effect" where
  "ws_turn env client_fd cid =
     eff_bind (on_process (on_conn cid take_frame)) (\<lambda>(frame, v).
       case v of
         Incomplete \<Rightarrow> eff_bind (rearm env client_fd REARM) (\<lambda>_. eff_return False)
       | Complete \<Rightarrow>
           if opcode frame = WsClose
           then eff_bind (disconnectClient env client_fd) (\<lambda>_. eff_return False)
           else if opcode frame = WsText \<or> opcode frame = WsBinary
           then eff_bind (eff_get (\<lambda>st. wk_epoll (fst st))) (\<lambda>ep.
                eff_bind (on_process (eff_modify (enqueue (WsTask ep cid frame client_fd)))) (\<lambda>_.
                  eff_return False))
           else eff_bind (rearm env client_fd REARM) (\<lambda>_. eff_return True)
       | Invalid \<Rightarrow> eff_bind (disconnectClient env client_fd) (\<lambda>_. eff_return False))"

definition bad_request :: HttpResponse where
  "bad_request = res_setHeader (res_setBody (res_setStatus new_response BadRequest) ''400 Bad Request'')
     ''Connection'' ''close''"

definition WS_MAGIC_STRING :: string where
  "WS_MAGIC_STRING = ''258EAFA5-E914-47DA-95CA-C5AB0DC85B11''"

definition generateAcceptKey :: "('j, 's, 'h, 'w, 'k) env \<Rightarrow> string \<Rightarrow> string" where
  "generateAcceptKey env client_key = e_EVP_EncodeBlock env (e_SHA1 env (client_key @ WS_MAGIC_STRING))"

definition switching_protocols :: "string \<Rightarrow> HttpResponse" where
  "switching_protocols accept_key =
     res_setHeader (res_setHeader (res_setHeader (res_setStatus new_response SwitchingProtocols)
       ''Upgrade'' ''websocket'') ''Connection'' ''Upgrade'') ''Sec-WebSocket-Accept'' accept_key"

definition wants_upgrade :: "'j HttpRequest \<Rightarrow> bool" where
  "wants_upgrade req \<longleftrightarrow>
     equalsIgnoreCase (req_header req ''Upgrade'') ''websocket'' \<and>
     sv_find ''Upgrade'' (req_header req ''Connection'') \<noteq> None \<and>
     req_header req ''Sec-WebSocket-Key'' \<noteq> []"

definition keep_alive :: "'j HttpRequest \<Rightarrow> bool" where
  "keep_alive req \<longleftrightarrow> rq_version req = ''HTTP/1.1'' \<and>
     \<not> equalsIgnoreCase (req_header req ''Connection'') ''close''"

definition upgrade_turn ::
  "('j, 's, 'h, 'w, 'k) env \<Rightarrow> int \<Rightarrow> nat \<Rightarrow> 'j HttpRequest \<Rightarrow> (('j, 's, 'h, 'w, 'k) wstate, unit) effect" where
  "upgrade_turn env client_fd cid req =
     eff_bind (on_process (on_conn cid (\<lambda>c. conn_send (e_ssl env) c (serialize (switching_protocols
         (generateAcceptKey env (req_header req ''Sec-WebSocket-Key''))))))) (\<lambda>_.
     eff_bind (on_process (on_conn cid consumeParsedRequest)) (\<lambda>_.
     eff_bind (on_process (on_conn cid (\<lambda>c. (upgradeToWebSocket c (rq_path req), Inr ())))) (\<lambda>_.
       rearm env client_fd REARM)))"

definition dispatch_turn ::
  "('j, 's, 'h, 'w, 'k) env \<Rightarrow> int \<Rightarrow> nat \<Rightarrow> 'j HttpRequest \<Rightarrow> (('j, 's, 'h, 'w, 'k) wstate, unit) effect" where
  "dispatch_turn env client_fd cid req =
     eff_bind (on_process (on_conn cid consumeParsedRequest)) (\<lambda>_.
     eff_bind (on_process (eff_modify (\<lambda>p. p\<lparr>total_requests := total_requests p + 1\<rparr>))) (\<lambda>_.
     eff_bind (eff_get (\<lambda>st. wk_epoll (fst st))) (\<lambda>ep.
       on_process (eff_modify (enqueue (HttpTask ep cid req client_fd (keep_alive req)))))))"

text \<open>A turn on an HTTP/1.1 connection always leaves the loop. The request is a new local each time.\<close>

definition take_request :: "(('j, 's, 'h) ClientConnection, 'j HttpRequest \<times> ParseResult) effect" where
  "take_request c = (case parseRequest c new_request of (c', req, v) \<Rightarrow> (c', Inr (req, v)))"

definition http_turn ::
  "('j, 's, 'h, 'w, 'k) env \<Rightarrow> int \<Rightarrow> nat \<Rightarrow> (('j, 's, 'h, 'w, 'k) wstate, unit) effect" where
  "http_turn env client_fd cid =
     eff_bind (on_process (on_conn cid take_request)) (\<lambda>(req, v).
       case v of
         Incomplete \<Rightarrow> rearm env client_fd REARM
       | Invalid \<Rightarrow>
           eff_bind (on_process (on_conn cid (\<lambda>c. conn_send (e_ssl env) c (serialize bad_request)))) (\<lambda>_.
             disconnectClient env client_fd)
       | Complete \<Rightarrow>
           if wants_upgrade req then upgrade_turn env client_fd cid req
           else dispatch_turn env client_fd cid req)"

text \<open>The loop ends: a complete frame takes at least two bytes from the buffer.\<close>

lemma parseWebSocketFrame_shorter:
  assumes "parseWebSocketFrame c f = (c', frame, Inr Complete)"
  shows "length (conn_data c') < length (conn_data c)"
proof -
  let ?d = "rb_data (readBuffer c)"
  obtain len h0 key h where two: "2 \<le> length ?d"
    and l: "ws_length ?d (ucast (byte (?d ! 1) AND 0x7F)) = Some (len, h0)"
    and m: "ws_mask ?d (byte (?d ! 1) AND 0x80 \<noteq> 0) h0 = Some (key, h)"
    and small: "unat len \<le> string_max_size"
    and c': "rb_consume (readBuffer c) (unat (of_nat h + len)) = Inr (readBuffer c')"
    using assms by (auto simp: parseWebSocketFrame_def Let_def split: if_splits option.splits sum.splits)
  have h: "2 \<le> h" "h \<le> 14" using ws_length_header [OF l two] ws_mask_header [OF m] by auto
  have "h + unat len < 2 ^ 64" using h small by (simp add: string_max_size_def)
  moreover have "unat (of_nat h :: size_t) = h" using h by (intro unat_of_nat_size) simp
  ultimately have "unat (of_nat h + len) = h + unat len" by (simp add: unat_word_ariths)
  with c' have "h + unat len \<le> length ?d" "rb_data (readBuffer c') = drop (h + unat len) ?d"
    by (auto simp: rb_consume_def rb_data_def split: if_splits dest: arg_cong [of _ _ buffer])
  with h show ?thesis by (auto simp: conn_data_def)
qed

definition buffered :: "nat \<Rightarrow> ('j, 's, 'h, 'w, 'k) wstate \<Rightarrow> nat" where
  "buffered cid st = (case conns (snd st) cid of None \<Rightarrow> 0 | Some c \<Rightarrow> length (conn_data c))"

lemma conns_rearm [simp]: "conns (snd (fst (rearm env fd ev st))) = conns (snd st)"
  by (simp add: rearm_def on_process_def on_kernel_def split: prod.splits)

lemma on_process_Inr: "on_process m st = (st', Inr x) \<longleftrightarrow> m (snd st) = (snd st', Inr x) \<and> fst st' = fst st"
  and on_process_Inl: "on_process m st = (st', Inl e) \<longleftrightarrow> m (snd st) = (snd st', Inl e) \<and> fst st' = fst st"
  by (cases st, cases st', auto simp: on_process_def split: prod.splits)+

lemma eff_bind_eq_Inr:
  "eff_bind m f s = (s', Inr y) \<longleftrightarrow> (\<exists>s1 x. m s = (s1, Inr x) \<and> f x s1 = (s', Inr y))"
  by (auto simp: eff_bind_def split: prod.splits sum.splits)

lemma on_conn_Inr:
  "on_conn cid m p = (p', Inr x) \<longleftrightarrow>
   (\<exists>c c'. conns p cid = Some c \<and> m c = (c', Inr x) \<and> p' = p\<lparr>conns := (conns p)(cid \<mapsto> c')\<rparr>)"
  by (auto simp: on_conn_def split: option.splits prod.splits)

lemma take_frame_Inr:
  "take_frame c = (c', Inr (f, v)) \<longleftrightarrow> parseWebSocketFrame c blank_frame = (c', f, Inr v)"
  by (cases "parseWebSocketFrame c blank_frame", rename_tac a b r, case_tac r)
    (auto simp: take_frame_def)

lemma ws_turn_shorter:
  assumes "ws_turn env fd cid st = (st', Inr True)"
  shows "buffered cid st' < buffered cid st"
proof -
  obtain st1 frame v where p: "on_process (on_conn cid take_frame) st = (st1, Inr (frame, v))"
    using assms unfolding ws_turn_def eff_bind_eq_Inr by auto
  have rest: "v = Complete \<and> rearm env fd REARM st1 = (st', Inr ())"
    using assms p unfolding ws_turn_def
    by (cases v) (auto simp: eff_bind_eq_Inr eff_bind_def eff_return_def split: if_splits prod.splits sum.splits)
  from p rest obtain c c' where "conns (snd st) cid = Some c" "conns (snd st1) cid = Some c'"
    "parseWebSocketFrame c blank_frame = (c', frame, Inr Complete)"
    by (auto simp: on_process_Inr on_conn_Inr take_frame_Inr)
  moreover have "conns (snd st') = conns (snd st1)"
    using rest conns_rearm [of env fd REARM st1] by simp
  ultimately show ?thesis by (simp add: buffered_def parseWebSocketFrame_shorter)
qed

function data_loop ::
  "('j, 's, 'h, 'w, 'k) env \<Rightarrow> int \<Rightarrow> nat \<Rightarrow> (('j, 's, 'h, 'w, 'k) wstate, unit) effect" where
  "data_loop env client_fd cid st =
     (case conns (snd st) cid of
        None \<Rightarrow> (st, Inl (other_exception ''dangling connection''))
      | Some c \<Rightarrow>
          if is_websocket c then
            (case ws_turn env client_fd cid st of
               (st', r) \<Rightarrow>
                 if r = Inr True then data_loop env client_fd cid st'
                 else (st', case r of Inl e \<Rightarrow> Inl e | Inr _ \<Rightarrow> Inr ()))
          else http_turn env client_fd cid st)"
  by pat_completeness auto
termination
  by (relation "measure (\<lambda>(env, fd, cid, st). buffered cid st)")
    (auto intro: ws_turn_shorter [OF sym])

declare data_loop.simps [simp del]

definition h2_turn ::
  "('j, 's, 'h, 'w, 'k) env \<Rightarrow> int \<Rightarrow> nat \<Rightarrow> (('j, 's, 'h, 'w, 'k) wstate, unit) effect" where
  "h2_turn env client_fd cid =
     eff_bind (on_process (on_conn cid (\<lambda>c. case processHttp2 (e_ssl env) (e_h2 env) c of
         (c', requests, r) \<Rightarrow> (c', Inr (requests, r))))) (\<lambda>(requests, r).
     eff_bind (on_process (eff_modify (\<lambda>p. fold (\<lambda>(sid, req) p.
         enqueue (H2Task cid sid req) (p\<lparr>total_requests := total_requests p + 1\<rparr>)) requests p))) (\<lambda>_.
       case r of Inl e \<Rightarrow> eff_throw e | Inr _ \<Rightarrow> rearm env client_fd REARM))"

text \<open>The TLS handshake; the result says whether the connection is ready to be read.\<close>

definition handshake ::
  "('j, 's, 'h, 'w, 'k) env \<Rightarrow> int \<Rightarrow> nat \<Rightarrow> (('j, 's, 'h, 'w, 'k) wstate, bool) effect" where
  "handshake env client_fd cid =
     eff_bind (on_process (on_kernel (now (e_os env)))) (\<lambda>t.
     eff_bind (on_process (on_conn cid (\<lambda>c. (updateActivity t c, Inr ())))) (\<lambda>_.
     eff_bind (on_process (on_conn cid (\<lambda>c.
         if handshakeComplete c then (c, Inr (0, True))
         else (case doHandshake (e_ssl env) (e_h2 env) c 0 of
                 (c', next_epoll_events, Inl e) \<Rightarrow> (c', Inl e)
               | (c', next_epoll_events, Inr ok) \<Rightarrow> (c', Inr (next_epoll_events, ok)))))) (\<lambda>(events, ok).
       if ok then eff_return True
       else eff_bind (rearm env client_fd events) (\<lambda>_. eff_return False))))"

text \<open>What follows \<open>read()\<close>.\<close>

definition after_read ::
  "('j, 's, 'h, 'w, 'k) env \<Rightarrow> int \<Rightarrow> nat \<Rightarrow> bool \<Rightarrow> (('j, 's, 'h, 'w, 'k) wstate, unit) effect" where
  "after_read env client_fd cid alive =
     (if \<not> alive then disconnectClient env client_fd
      else eff_bind (on_process (on_conn cid (\<lambda>c. (c, Inr (is_http2 c))))) (\<lambda>h2.
        if h2 then h2_turn env client_fd cid else data_loop env client_fd cid))"

text \<open>The body of the \<open>try\<close> block; \<open>None\<close> when the loop of \<open>read()\<close> does not end.\<close>

definition client_body ::
  "('j, 's, 'h, 'w, 'k) env \<Rightarrow> int \<Rightarrow> nat \<Rightarrow> ('j, 's, 'h, 'w, 'k) wstate \<Rightarrow>
   (('j, 's, 'h, 'w, 'k) wstate \<times> (std_exception + unit)) option" where
  "client_body env client_fd cid st =
     (case handshake env client_fd cid st of
        (st1, Inl e) \<Rightarrow> Some (st1, Inl e)
      | (st1, Inr False) \<Rightarrow> Some (st1, Inr ())
      | (st1, Inr True) \<Rightarrow>
          (case conns (snd st1) cid of
             None \<Rightarrow> Some (st1, Inl (other_exception ''dangling connection''))
           | Some c \<Rightarrow>
               map_option (\<lambda>(c', r).
                 eff_bind (on_process (on_conn cid (\<lambda>_. (c', r)))) (after_read env client_fd cid) st1)
               (conn_read (e_ssl env) c)))"

definition handleClientData ::
  "('j, 's, 'h, 'w, 'k) env \<Rightarrow> int \<Rightarrow> ('j, 's, 'h, 'w, 'k) wstate \<Rightarrow>
   (('j, 's, 'h, 'w, 'k) wstate \<times> (std_exception + unit)) option" where
  "handleClientData env client_fd st =
     (case map_of (wk_active (fst st)) client_fd of
        None \<Rightarrow> Some (st, Inr ())
      | Some cid \<Rightarrow>
          map_option (\<lambda>(st', r).
              case r of Inl e \<Rightarrow> disconnectClient env client_fd st' | Inr _ \<Rightarrow> (st', Inr ()))
            (client_body env client_fd cid st))"

section \<open>The event loop\<close>

definition dispatch_event ::
  "('j, 's, 'h, 'w, 'k) env \<Rightarrow> epoll_event \<Rightarrow> ('j, 's, 'h, 'w, 'k) wstate \<Rightarrow>
   (('j, 's, 'h, 'w, 'k) wstate \<times> (std_exception + unit)) option" where
  "dispatch_event env ev st =
     (if ev_fd ev = socket_fd (wk_socket (fst st)) then handleNewConnection env st
      else if ev_events ev AND (EPOLLERR OR EPOLLHUP) \<noteq> 0 then Some (disconnectClient env (ev_fd ev) st)
      else if ev_events ev AND EPOLLIN \<noteq> 0 then handleClientData env (ev_fd ev) st
      else Some (st, Inr ()))"

fun dispatch_events ::
  "('j, 's, 'h, 'w, 'k) env \<Rightarrow> epoll_event list \<Rightarrow> ('j, 's, 'h, 'w, 'k) wstate \<Rightarrow>
   (('j, 's, 'h, 'w, 'k) wstate \<times> (std_exception + unit)) option" where
  "dispatch_events env [] st = Some (st, Inr ())"
| "dispatch_events env (ev # evs) st =
     (case dispatch_event env ev st of
        None \<Rightarrow> None
      | Some (st', Inl e) \<Rightarrow> Some (st', Inl e)
      | Some (st', Inr _) \<Rightarrow> dispatch_events env evs st')"

text \<open>The body of the loop of \<open>run()\<close>.\<close>

definition run_iteration ::
  "('j, 's, 'h, 'w, 'k) env \<Rightarrow> ('j, 's, 'h, 'w, 'k) wstate \<Rightarrow>
   (('j, 's, 'h, 'w, 'k) wstate \<times> (std_exception + unit)) option" where
  "run_iteration env st =
     (case on_process (on_kernel (epoll_wait (e_os env) (wk_epoll (fst st)) 1000)) st of
        (st1, Inl e) \<Rightarrow> Some (st1, Inl e)
      | (st1, Inr events) \<Rightarrow>
          (case dispatch_events env events st1 of
             None \<Rightarrow> None
           | Some (st2, Inl e) \<Rightarrow> Some (st2, Inl e)
           | Some (st2, Inr _) \<Rightarrow> Some (sweepIdleConnections env st2)))"

section \<open>Workers and the server\<close>

text \<open>
  The constructor makes the socket, then the epoll instance, and then sets both up; a throw destroys
  what was made, in reverse order. The port is narrowed to 16 bits.
\<close>

definition new_Worker :: "'k os \<Rightarrow> int \<Rightarrow> ('k, Worker) effect" where
  "new_Worker os port =
     eff_bind (create_tcp os) (\<lambda>s.
       eff_catch
         (eff_bind (new_Epoll os) (\<lambda>ep.
            eff_catch
              (eff_bind (setReuseAddress os s) (\<lambda>_.
               eff_bind (setReusePort os s) (\<lambda>_.
               eff_bind (socket_bind os s (word_of_int port)) (\<lambda>_.
               eff_bind (setNonBlocking os s) (\<lambda>_.
               eff_bind (socket_listen os s 128) (\<lambda>_.
               eff_bind (epoll_add os ep (socket_fd s) (EPOLLIN OR EPOLLET)) (\<lambda>_.
                 eff_return \<lparr>wk_socket = s, wk_epoll = ep, wk_active = []\<rparr>)))))))
              (\<lambda>e. eff_bind (eff_modify (delete_Epoll os ep)) (\<lambda>_. eff_throw e))))
         (\<lambda>e. eff_bind (eff_modify (\<lambda>k. fst (socket_close os s k))) (\<lambda>_. eff_throw e)))"

text \<open>The destructor: the table with its pointers, the epoll instance, the socket.\<close>

definition delete_Worker ::
  "'k os \<Rightarrow> ('j, 's, 'h, 'w, 'k) wstate \<Rightarrow> ('j, 's, 'h, 'w, 'k) process" where
  "delete_Worker os st =
     (let p = fold (\<lambda>(fd, cid). release os cid) (wk_active (fst st)) (snd st) in
      p\<lparr>kern := fst (socket_close os (wk_socket (fst st)) (delete_Epoll os (wk_epoll (fst st)) (kern p)))\<rparr>)"

text \<open>
  The threads of \<open>start()\<close>. An exception that leaves a thread's function ends the process
  (\<open>std::terminate\<close>). The server is constructed for \<open>num_threads\<close> workers and a pool of twice
  \<open>DEFAULT_THREADS\<close> threads.
\<close>

definition num_threads :: "nat \<Rightarrow> nat" where
  "num_threads hardware_concurrency =
     (if 0 < hardware_concurrency then hardware_concurrency else DEFAULT_THREADS)"

datatype wthread = Starting | Looping Worker | Ended

record ('j, 's, 'h, 'w, 'k) server =
  sv_threads :: "wthread list"
  sv_process :: "('j, 's, 'h, 'w, 'k) process"
  sv_terminated :: bool

definition TcpServer_start ::
  "nat \<Rightarrow> ('j, 's, 'h, 'w, 'k) process \<Rightarrow> ('j, 's, 'h, 'w, 'k) server" where
  "TcpServer_start hardware_concurrency p =
     \<lparr>sv_threads = replicate (num_threads hardware_concurrency) Starting, sv_process = p,
      sv_terminated = False\<rparr>"

text \<open>
  The steps of the server: a thread starts, does an iteration or ends; the pool runs a task; a
  signal stops the server; and outside, time passes and peers act: the kernel changes in ways that
  leave the tables of descriptors alone, and so do the TLS objects of connections.
\<close>

inductive server_step ::
  "('j, 's, 'h, 'w, 'k) env \<Rightarrow> int \<Rightarrow> ('k \<Rightarrow> 'k \<Rightarrow> bool) \<Rightarrow>
   ('j, 's, 'h, 'w, 'k) server \<Rightarrow> ('j, 's, 'h, 'w, 'k) server \<Rightarrow> bool"
  for env port outside where
  thread_starts: "\<not> sv_terminated sv \<Longrightarrow> i < length (sv_threads sv) \<Longrightarrow> sv_threads sv ! i = Starting \<Longrightarrow>
    new_Worker (e_os env) port (kern (sv_process sv)) = (k', Inr w) \<Longrightarrow>
    server_step env port outside sv (sv\<lparr>sv_threads := (sv_threads sv)[i := Looping w],
      sv_process := (sv_process sv)\<lparr>kern := k'\<rparr>\<rparr>)"
| thread_fails: "\<not> sv_terminated sv \<Longrightarrow> i < length (sv_threads sv) \<Longrightarrow> sv_threads sv ! i = Starting \<Longrightarrow>
    new_Worker (e_os env) port (kern (sv_process sv)) = (k', Inl e) \<Longrightarrow>
    server_step env port outside sv (sv\<lparr>sv_process := (sv_process sv)\<lparr>kern := k'\<rparr>, sv_terminated := True\<rparr>)"
| iteration: "\<not> sv_terminated sv \<Longrightarrow> i < length (sv_threads sv) \<Longrightarrow> sv_threads sv ! i = Looping w \<Longrightarrow>
    isRunning (sv_process sv) \<Longrightarrow> run_iteration env (w, sv_process sv) = Some ((w', p'), r) \<Longrightarrow>
    server_step env port outside sv (sv\<lparr>sv_threads := (sv_threads sv)[i := Looping w'], sv_process := p',
      sv_terminated := (case r of Inl e \<Rightarrow> True | Inr _ \<Rightarrow> False)\<rparr>)"
| thread_ends: "\<not> sv_terminated sv \<Longrightarrow> i < length (sv_threads sv) \<Longrightarrow> sv_threads sv ! i = Looping w \<Longrightarrow>
    \<not> isRunning (sv_process sv) \<Longrightarrow>
    server_step env port outside sv (sv\<lparr>sv_threads := (sv_threads sv)[i := Ended],
      sv_process := delete_Worker (e_os env) (w, sv_process sv)\<rparr>)"
| task: "\<not> sv_terminated sv \<Longrightarrow> t \<in> set (tasks (sv_process sv)) \<Longrightarrow>
    server_step env port outside sv (sv\<lparr>sv_process := run_task env t (sv_process sv)\<rparr>)"
| stop: "\<not> sv_terminated sv \<Longrightarrow>
    server_step env port outside sv (sv\<lparr>sv_process := server_stop (sv_process sv)\<rparr>)"
| time_passes: "\<not> sv_terminated sv \<Longrightarrow> outside (kern (sv_process sv)) k' \<Longrightarrow>
    server_step env port outside sv (sv\<lparr>sv_process := (sv_process sv)\<lparr>kern := k'\<rparr>\<rparr>)"
| peer_acts: "\<not> sv_terminated sv \<Longrightarrow> conns (sv_process sv) cid = Some c \<Longrightarrow>
    server_step env port outside sv (sv\<lparr>sv_process := (sv_process sv)
      \<lparr>conns := (conns (sv_process sv))(cid \<mapsto> c\<lparr>cc_ssl := ssl\<rparr>)\<rparr>\<rparr>)"

end
