(* ===== verification/Message_Streams.thy ===== *)
theory Message_Streams
  imports Http_Roundtrip Tcp_Server
begin

text \<open>
  Messages in a byte stream. \<open>message_source\<close> is the contract of an operation that takes one message
  from the front of a buffer; \<open>framed_source\<close> adds that it waits, and changes nothing, until the last
  byte of the message has arrived. Under the first a buffer of several messages is taken apart in order,
  under the second it does not matter in which pieces the bytes arrive.

  A connection meets the first contract with its requests (\<open>parseRequest\<close> and \<open>consumeParsedRequest\<close>) and
  the second with its WebSocket frames (\<open>parseWebSocketFrame\<close>).
\<close>

section \<open>The contracts\<close>

fun take_messages :: "('c \<Rightarrow> ('v \<times> 'c) option) \<Rightarrow> nat \<Rightarrow> 'c \<Rightarrow> 'v list \<times> 'c" where
  "take_messages f 0 c = ([], c)"
| "take_messages f (Suc n) c =
     (case f c of
        None \<Rightarrow> ([], c)
      | Some (v, c') \<Rightarrow> (case take_messages f n c' of (vs, c'') \<Rightarrow> (v # vs, c'')))"

text \<open>After each piece as many messages are taken as there are; each has at least one byte.\<close>

fun receive_all ::
  "('c \<Rightarrow> ('v \<times> 'c) option) \<Rightarrow> ('c \<Rightarrow> string) \<Rightarrow> (string \<Rightarrow> 'c \<Rightarrow> 'c) \<Rightarrow> string list \<Rightarrow> 'c \<Rightarrow> 'v list \<times> 'c" where
  "receive_all f buf rcv [] c = ([], c)"
| "receive_all f buf rcv (d # ds) c =
     (case take_messages f (length (buf (rcv d c))) (rcv d c) of
        (vs, c1) \<Rightarrow> (case receive_all f buf rcv ds c1 of (ws, c2) \<Rightarrow> (vs @ ws, c2)))"

lemma shorter_prefix:
  assumes "a @ r = b @ s" "length a < length b"
  shows "\<exists>e. b = a @ e \<and> e \<noteq> []"
proof -
  obtain us where "a = b @ us \<or> a @ us = b" using assms(1) by (auto simp: append_eq_append_conv2)
  with assms(2) show ?thesis by auto
qed

locale message_source =
  fixes next_message :: "'c \<Rightarrow> ('v \<times> 'c) option" and bytes :: "'c \<Rightarrow> string" and ready :: "'c \<Rightarrow> bool"
    and encode :: "'m \<Rightarrow> string" and shown :: "'m \<Rightarrow> 'v" and valid :: "'m \<Rightarrow> bool" and fits :: "string \<Rightarrow> bool"
  assumes taken: "ready c \<Longrightarrow> valid m \<Longrightarrow> fits (bytes c) \<Longrightarrow> bytes c = encode m @ x \<Longrightarrow>
      \<exists>c'. next_message c = Some (shown m, c') \<and> bytes c' = x \<and> ready c'"
    and fits_suffix: "fits (x @ y) \<Longrightarrow> fits y"
begin

lemma take_messages_all:
  "ready c \<Longrightarrow> list_all valid ms \<Longrightarrow> fits (bytes c) \<Longrightarrow> bytes c = concat (map encode ms) @ x \<Longrightarrow>
   \<exists>c'. take_messages next_message (length ms) c = (map shown ms, c') \<and> bytes c' = x \<and> ready c'"
proof (induction ms arbitrary: c)
  case (Cons m ms)
  then obtain c1 where c1: "next_message c = Some (shown m, c1)" "bytes c1 = concat (map encode ms) @ x" "ready c1"
    using taken [of c m "concat (map encode ms) @ x"] by auto
  moreover have "fits (bytes c1)"
    using Cons.prems(3,4) c1(2) fits_suffix [of "encode m" "bytes c1"] by simp
  ultimately show ?case using Cons.IH [of c1] Cons.prems(2) by auto
qed simp

end

locale framed_source = message_source +
  fixes receive :: "string \<Rightarrow> 'a \<Rightarrow> 'a"
  assumes received: "ready c \<Longrightarrow> ready (receive d c) \<and> bytes (receive d c) = bytes c @ d"
    and waits: "ready c \<Longrightarrow> valid m \<Longrightarrow> encode m = bytes c @ e \<Longrightarrow> e \<noteq> [] \<Longrightarrow> next_message c = None"
    and idle: "ready c \<Longrightarrow> bytes c = [] \<Longrightarrow> next_message c = None"
    and encode_nonempty: "valid m \<Longrightarrow> encode m \<noteq> []"
    and fits_prefix: "fits (x @ y) \<Longrightarrow> fits x"
begin

text \<open>What is left when no further message is complete: nothing, or a proper part of the next one.\<close>

lemma take_messages_prefix:
  "ready c \<Longrightarrow> list_all valid ms \<Longrightarrow> fits (bytes c) \<Longrightarrow> bytes c @ rest = concat (map encode ms) \<Longrightarrow>
   length (bytes c) \<le> n \<Longrightarrow>
   \<exists>as bs c'. ms = as @ bs \<and> take_messages next_message n c = (map shown as, c') \<and> ready c' \<and>
     bytes c = concat (map encode as) @ bytes c' \<and>
     (\<forall>b bs'. bs = b # bs' \<longrightarrow> length (bytes c') < length (encode b))"
proof (induction ms arbitrary: c n)
  case Nil
  then have "take_messages next_message n c = ([], c)" using idle [of c] by (cases n) simp_all
  with Nil show ?case by auto
next
  case (Cons m ms)
  show ?case
  proof (cases "length (encode m) \<le> length (bytes c)")
    case True
    have "take (length (encode m)) (bytes c) = encode m"
      using True arg_cong [OF Cons.prems(4), of "take (length (encode m))"] by simp
    then obtain x where x: "bytes c = encode m @ x" by (metis append_take_drop_id)
    obtain c1 where c1: "next_message c = Some (shown m, c1)" "bytes c1 = x" "ready c1"
      using taken [of c m x] Cons.prems x by auto
    have "0 < length (encode m)" using Cons.prems(2) encode_nonempty [of m] by simp
    then have "length x < n" using Cons.prems(5) unfolding x length_append by linarith
    then obtain k where k: "n = Suc k" "length x \<le> k" by (cases n) auto
    have "fits (bytes c1)" using Cons.prems(3) x c1(2) fits_suffix [of "encode m" x] by simp
    then obtain as bs c' where "ms = as @ bs" "take_messages next_message k c1 = (map shown as, c')" "ready c'"
      "bytes c1 = concat (map encode as) @ bytes c'"
      "\<forall>b bs'. bs = b # bs' \<longrightarrow> length (bytes c') < length (encode b)"
      using Cons.IH [of c1 k] Cons.prems(2,4) x c1 k(2) by auto
    then show ?thesis
      using c1 k x by (intro exI [of _ "m # as"] exI [of _ bs] exI [of _ c']) simp
  next
    case False
    then obtain e where "encode m = bytes c @ e" "e \<noteq> []"
      using shorter_prefix [of "bytes c" rest "encode m"] Cons.prems(4) by auto
    then have "next_message c = None" using waits [of c m e] Cons.prems(1,2) by simp
    then have "take_messages next_message n c = ([], c)" by (cases n) simp_all
    with False Cons.prems show ?thesis
      by (intro exI [of _ "[]"] exI [of _ "m # ms"] exI [of _ c]) simp
  qed
qed

lemma fragments_taken:
  "ready c \<Longrightarrow> list_all valid ms \<Longrightarrow> fits (bytes c @ concat ds) \<Longrightarrow>
   bytes c @ concat ds = concat (map encode ms) \<Longrightarrow>
   (\<forall>m ms'. ms = m # ms' \<longrightarrow> length (bytes c) < length (encode m)) \<Longrightarrow>
   \<exists>c'. receive_all next_message bytes receive ds c = (map shown ms, c') \<and> bytes c' = [] \<and> ready c'"
proof (induction ds arbitrary: c ms)
  case Nil
  then have "ms = []" by (cases ms) auto
  with Nil show ?case by simp
next
  case (Cons d ds)
  let ?c = "receive d c"
  have r: "ready ?c" "bytes ?c = bytes c @ d" using received [OF Cons.prems(1)] by auto
  have "fits (bytes ?c)" using Cons.prems(3) r(2) fits_prefix [of "bytes c @ d" "concat ds"] by simp
  then obtain as bs c1 where ms: "ms = as @ bs"
    and t: "take_messages next_message (length (bytes ?c)) ?c = (map shown as, c1)" "ready c1"
    and b: "bytes ?c = concat (map encode as) @ bytes c1"
    and left: "\<forall>b bs'. bs = b # bs' \<longrightarrow> length (bytes c1) < length (encode b)"
    using take_messages_prefix [OF r(1) Cons.prems(2), of "concat ds" "length (bytes ?c)"] Cons.prems(4) r(2) by auto
  have all: "bytes c @ concat (d # ds) = concat (map encode as) @ bytes c1 @ concat ds"
    using b r(2) by (metis append_assoc concat.simps(2))
  have "concat (map encode as) @ bytes c1 @ concat ds = concat (map encode as) @ concat (map encode bs)"
    using trans [OF all [symmetric] Cons.prems(4)] ms by simp
  then have eq: "bytes c1 @ concat ds = concat (map encode bs)" by simp
  have "fits (bytes c1 @ concat ds)"
    by (rule fits_suffix [of "concat (map encode as)"]) (use Cons.prems(3) all in \<open>simp only:\<close>)
  from Cons.IH [OF t(2) _ this eq left] Cons.prems(2) ms t(1) show ?case by auto
qed

end

section \<open>Requests of a connection\<close>

text \<open>The request line of the next request is expected; the parser is as after \<open>reset\<close>.\<close>

definition next_request ::
  "('j, 's, 'h) ClientConnection \<Rightarrow> ('j HttpRequest \<times> ('j, 's, 'h) ClientConnection) option" where
  "next_request c =
     (case take_request c of
        (c1, Inr (req, Complete)) \<Rightarrow>
          (case consumeParsedRequest c1 of (c2, Inr _) \<Rightarrow> Some (req, c2) | (c2, Inl e) \<Rightarrow> None)
      | _ \<Rightarrow> None)"

definition expects_request :: "('j, 's, 'h) ClientConnection \<Rightarrow> bool" where
  "expects_request c \<longleftrightarrow> parser c = new_parser"

lemma take_wire_request:
  fixes c :: "('j, 's, 'h) ClientConnection"
  assumes "wire_valid wr" "conn_data c = wire_bytes wr @ x" "expects_request c"
  shows "\<exists>p'. take_request c = (c\<lparr>parser := p'\<rparr>, Inr (wire_view wr, Complete)) \<and>
    consumeParsedRequest (c\<lparr>parser := p'\<rparr>) = (c\<lparr>readBuffer := \<lparr>buffer = x\<rparr>\<rparr>, Inr ())"
proof -
  obtain p' where p': "parse (wire_bytes wr @ x) new_parser (new_request :: 'j HttpRequest) =
      (p', wire_view wr, Complete)"
    "consumedBytes p' = length (wire_bytes wr)"
    using parse_wire_request [OF assms(1)] by blast
  have b: "buffer (readBuffer c) = wire_bytes wr @ x" using assms(2) by (simp add: conn_data_def rb_data_def)
  have "take_request c = (c\<lparr>parser := p'\<rparr>, Inr (wire_view wr, Complete))"
    using p'(1) assms(3) b by (simp add: take_request_def parseRequest_def expects_request_def rb_data_def)
  moreover have "consumeParsedRequest (c\<lparr>parser := p'\<rparr>) = (c\<lparr>readBuffer := \<lparr>buffer = x\<rparr>\<rparr>, Inr ())"
    using assms(3) b p'(2)
    by (cases c) (simp add: consumeParsedRequest_def rb_consume_def parser_reset_new expects_request_def)
  ultimately show ?thesis by blast
qed

interpretation requests: message_source next_request conn_data expects_request wire_bytes wire_view wire_valid
  "\<lambda>x. True"
proof (unfold_locales, goal_cases)
  case (1 c wr x)
  from take_wire_request [OF 1(2,4,1)] 1(1) show ?case
    by (auto simp: next_request_def conn_data_def rb_data_def expects_request_def)
qed simp

section \<open>Frames of a connection\<close>

record wire_message =
  wm_fin :: bool
  wm_opcode :: WebSocketOpcode
  wm_key :: "string option"
  wm_payload :: string

definition message_bytes :: "wire_message \<Rightarrow> string" where
  "message_bytes m = wire_frame (wm_fin m) (wm_opcode m) (wm_key m) (wm_payload m)"

definition message_frame :: "wire_message \<Rightarrow> WebSocketFrame" where
  "message_frame m = \<lparr>fin = wm_fin m, opcode = wm_opcode m, payload = wm_payload m\<rparr>"

definition message_valid :: "wire_message \<Rightarrow> bool" where
  "message_valid m \<longleftrightarrow> wire_ok (wm_opcode m) (wm_key m) (wm_payload m)"

definition next_frame ::
  "('j, 's, 'h) ClientConnection \<Rightarrow> (WebSocketFrame \<times> ('j, 's, 'h) ClientConnection) option" where
  "next_frame c =
     (case take_frame c of (c', Inr (frame, Complete)) \<Rightarrow> Some (frame, c') | _ \<Rightarrow> None)"

text \<open>What \<open>read()\<close> does with the bytes it gets.\<close>

definition receive_bytes :: "string \<Rightarrow> ('j, 's, 'h) ClientConnection \<Rightarrow> ('j, 's, 'h) ClientConnection" where
  "receive_bytes d c = c\<lparr>readBuffer := rb_append (readBuffer c) d\<rparr>"

lemma short_frame_waits: "conn_data c = [] \<Longrightarrow> next_frame c = None"
  by (simp add: next_frame_def take_frame_def parseWebSocketFrame_def conn_data_def Let_def)

interpretation frames: framed_source next_frame conn_data "\<lambda>c. True" message_bytes message_frame message_valid
  "\<lambda>x. length x < 2 ^ 62" receive_bytes
proof (unfold_locales, goal_cases)
  case (1 c m x)
  then have "rb_data (readBuffer c) = wire_frame (wm_fin m) (wm_opcode m) (wm_key m) (wm_payload m) @ x"
    by (simp add: conn_data_def message_bytes_def)
  moreover have "length x < 2 ^ 62" using 1(3,4) by simp
  ultimately show ?case
    using parse_wire_frame [of "wm_opcode m" "wm_key m" "wm_payload m" c "wm_fin m" x blank_frame] 1(2)
    by (auto simp: next_frame_def take_frame_def message_valid_def message_frame_def conn_data_def)
next
  case (4 c m e)
  then show ?case
    using parse_wire_prefix [of "wm_opcode m" "wm_key m" "wm_payload m" "wm_fin m" c e blank_frame]
    by (simp add: next_frame_def take_frame_def message_valid_def message_bytes_def conn_data_def)
next
  case (5 c)
  then show ?case by (simp add: short_frame_waits)
qed (simp_all add: conn_data_def receive_bytes_def rb_append_def rb_data_def message_bytes_def wire_frame_def)

end
