(* ===== verification/Tcp_Safety.thy ===== *)
theory Tcp_Safety
  imports Tcp_Server "HOL-Library.Multiset"
begin

text \<open>
  The invariant of the server: every entry of a worker's table names a live connection whose
  descriptor is open and watched by that worker's epoll instance, the use counts are exact, no two
  connections share a descriptor, and every open descriptor is reserved or belongs to a connection, so
  that none leaks. Every operation of a worker keeps it, and under it no
  operation of the event loop throws, whatever the TLS peer sends.
\<close>

section \<open>The invariant\<close>

definition entries :: "Worker \<Rightarrow> (int \<times> int \<times> nat) list" where
  "entries w = map (\<lambda>(fd, cid). (epoll_fd (wk_epoll w), fd, cid)) (wk_active w)"

definition entry_conn :: "int \<times> int \<times> nat \<Rightarrow> nat" where
  "entry_conn = (\<lambda>(e, fd, cid). cid)"

text \<open>
  What the invariant is relative to: the kernel's tables and the descriptors that are not connections
  (those open before the server started, listening sockets and epoll instances).
\<close>

record 'k view =
  v_opened :: "'k \<Rightarrow> int set"
  v_watched :: "'k \<Rightarrow> int \<Rightarrow> int set"
  v_reserved :: "int set"

text \<open>\<open>E\<close> are the entries of all tables, \<open>X\<close> the connections held by pointers outside the tables.\<close>

definition proc_inv ::
  "('k, 'z) view_scheme \<Rightarrow> (int \<times> int \<times> nat) list \<Rightarrow> nat list \<Rightarrow> ('j, 's, 'h, 'w, 'k) process \<Rightarrow> bool" where
  "proc_inv v E X p \<longleftrightarrow>
     (\<forall>(e, fd, cid) \<in> set E. fd \<in> v_watched v (kern p) e \<and>
        (\<exists>c. conns p cid = Some c \<and> cc_socket c = fd)) \<and>
     (\<forall>cid. use_count p cid = count_list (map entry_conn E) cid +
        count_list (map task_conn (tasks p)) cid + count_list X cid) \<and>
     (\<forall>cid. conns p cid = None \<longleftrightarrow> use_count p cid = 0) \<and>
     (\<forall>cid c. conns p cid = Some c \<longrightarrow> 0 \<le> cc_socket c \<and>
        cc_socket c \<in> v_opened v (kern p) \<and> cc_socket c \<notin> v_reserved v) \<and>
     (\<forall>a b c d. conns p a = Some c \<longrightarrow> conns p b = Some d \<longrightarrow> cc_socket c = cc_socket d \<longrightarrow> a = b) \<and>
     (\<forall>cid \<ge> next_conn p. conns p cid = None) \<and>
     v_reserved v \<subseteq> v_opened v (kern p) \<and>
     (\<forall>fd \<in> v_opened v (kern p). fd \<notin> v_reserved v \<longrightarrow> (\<exists>cid c. conns p cid = Some c \<and> cc_socket c = fd))"

lemma proc_invD:
  assumes "proc_inv v E X p"
  shows "(e, fd, cid) \<in> set E \<Longrightarrow> fd \<in> v_watched v (kern p) e"
    and "(e, fd, cid) \<in> set E \<Longrightarrow> \<exists>c. conns p cid = Some c \<and> cc_socket c = fd"
    and "use_count p cid = count_list (map entry_conn E) cid +
        count_list (map task_conn (tasks p)) cid + count_list X cid"
    and "conns p cid = None \<longleftrightarrow> use_count p cid = 0"
    and "conns p cid = Some c \<Longrightarrow> cc_socket c \<in> v_opened v (kern p)"
    and "conns p cid = Some c \<Longrightarrow> cc_socket c \<notin> v_reserved v"
    and "conns p cid = Some c \<Longrightarrow> 0 \<le> cc_socket c"
    and "conns p a = Some c \<Longrightarrow> conns p b = Some d \<Longrightarrow> cc_socket c = cc_socket d \<Longrightarrow> a = b"
    and "next_conn p \<le> cid \<Longrightarrow> conns p cid = None"
    and "v_reserved v \<subseteq> v_opened v (kern p)"
    and "fd \<in> v_opened v (kern p) \<Longrightarrow> fd \<notin> v_reserved v \<Longrightarrow> \<exists>cid c. conns p cid = Some c \<and> cc_socket c = fd"
  using assms unfolding proc_inv_def by blast+

lemma proc_invI:
  assumes "\<And>e fd cid. (e, fd, cid) \<in> set E \<Longrightarrow> fd \<in> v_watched v (kern p) e \<and>
        (\<exists>c. conns p cid = Some c \<and> cc_socket c = fd)"
    and "\<And>cid. use_count p cid = count_list (map entry_conn E) cid +
        count_list (map task_conn (tasks p)) cid + count_list X cid"
    and "\<And>cid. conns p cid = None \<longleftrightarrow> use_count p cid = 0"
    and "\<And>cid c. conns p cid = Some c \<Longrightarrow> 0 \<le> cc_socket c \<and>
        cc_socket c \<in> v_opened v (kern p) \<and> cc_socket c \<notin> v_reserved v"
    and "\<And>a b c d. conns p a = Some c \<Longrightarrow> conns p b = Some d \<Longrightarrow> cc_socket c = cc_socket d \<Longrightarrow> a = b"
    and "\<And>cid. next_conn p \<le> cid \<Longrightarrow> conns p cid = None"
    and "v_reserved v \<subseteq> v_opened v (kern p)"
    and "\<And>fd. fd \<in> v_opened v (kern p) \<Longrightarrow> fd \<notin> v_reserved v \<Longrightarrow> \<exists>cid c. conns p cid = Some c \<and> cc_socket c = fd"
  shows "proc_inv v E X p"
  unfolding proc_inv_def using assms by (auto; blast)

section \<open>Process operations\<close>

abbreviation tables_kept :: "('k, 'z) view_scheme \<Rightarrow> 'k \<Rightarrow> 'k \<Rightarrow> bool" where
  "tables_kept v \<equiv> same_tables (v_opened v) (v_watched v)"

lemma proc_inv_kern:
  assumes "proc_inv v E X p" "tables_kept v (kern p) k'"
  shows "proc_inv v E X (p\<lparr>kern := k'\<rparr>)"
  using assms by (auto simp: proc_inv_def same_tables_def)

lemma proc_inv_fields [simp]:
  "proc_inv v E X (p\<lparr>world := w\<rparr>) = proc_inv v E X p"
  "proc_inv v E X (p\<lparr>running := b\<rparr>) = proc_inv v E X p"
  "proc_inv v E X (p\<lparr>active_count := n\<rparr>) = proc_inv v E X p"
  "proc_inv v E X (p\<lparr>total_requests := n\<rparr>) = proc_inv v E X p"
  by (simp_all add: proc_inv_def)

lemma proc_inv_conn:
  assumes inv: "proc_inv v E X p" and c: "conns p cid = Some c" and s: "cc_socket c' = cc_socket c"
  shows "proc_inv v E X (p\<lparr>conns := (conns p)(cid \<mapsto> c')\<rparr>)"
proof (rule proc_invI, goal_cases)
  case (1 e fd cid')
  then show ?case using proc_invD(1,2) [OF inv 1] c s by auto
next
  case (3 cid')
  then show ?case using proc_invD(4) [OF inv, of cid'] c by auto
next
  case (4 cid' d)
  then show ?case using proc_invD(5-7) [OF inv] c s by (auto split: if_splits)
next
  case (5 a b d d')
  then show ?case using proc_invD(8) [OF inv] c s by (auto split: if_splits)
next
  case (6 cid')
  then show ?case using proc_invD(9) [OF inv, of cid'] c by auto
next
  case (8 fd)
  then obtain b d where "conns p b = Some d" "cc_socket d = fd" using proc_invD(11) [OF inv, of fd] by auto
  then show ?case using c s by (cases "b = cid") auto
qed (use proc_invD(3,10) [OF inv] in simp_all)

lemma proc_inv_enqueue:
  assumes inv: "proc_inv v E X p" and c: "conns p (task_conn t) \<noteq> None"
  shows "proc_inv v E X (enqueue t p)"
proof (rule proc_invI, goal_cases)
  case (3 cid')
  then show ?case using proc_invD(4) [OF inv, of cid'] c by (auto simp: enqueue_def)
qed (use proc_invD [OF inv] in \<open>simp_all add: enqueue_def\<close>)

text \<open>Giving up a pointer.\<close>

lemma proc_inv_release_shared:
  assumes inv: "proc_inv v E (cid # X) p" and shared: "1 < use_count p cid"
  shows "proc_inv v E X (release os cid p)"
proof (rule proc_invI, goal_cases)
  case (2 cid')
  then show ?case using proc_invD(3) [OF inv, of cid'] shared by (auto simp: release_def)
next
  case (3 cid')
  then show ?case using proc_invD(4) [OF inv, of cid'] shared by (auto simp: release_def)
qed (use proc_invD [OF inv] shared in \<open>simp_all add: release_def\<close>)

lemma proc_inv_release_last:
  assumes px: "posix_ok os (v_opened v) (v_watched v)" and inv: "proc_inv v E (cid # X) p"
    and last: "\<not> 1 < use_count p cid"
  shows "proc_inv v E X (release os cid p)"
proof -
  have use: "use_count p cid = count_list (map entry_conn E) cid +
      count_list (map task_conn (tasks p)) cid + count_list X cid + 1"
    using proc_invD(3) [OF inv, of cid] by simp
  with last have zero: "count_list (map entry_conn E) cid = 0"
    "count_list (map task_conn (tasks p)) cid = 0" "count_list X cid = 0" and one: "use_count p cid = 1"
    by auto
  then have notin: "cid \<notin> entry_conn ` set E" by (simp add: count_list_0_iff)
  obtain c where c: "conns p cid = Some c" using proc_invD(4) [OF inv, of cid] one by auto
  have fd: "cc_socket c \<noteq> - 1" using proc_invD(7) [OF inv c] by simp
  let ?p = "release os cid p"
  have p: "?p = p\<lparr>kern := fst (sys_close os (cc_socket c) (kern p)), conns := (conns p)(cid := None),
      use_count := (use_count p)(cid := 0)\<rparr>"
    using last c fd by (simp add: release_def socket_close_def Socket_of_def)
  have other: "cc_socket d \<noteq> cc_socket c" if "conns p b = Some d" "b \<noteq> cid" for b d
    using proc_invD(8) [OF inv that(1) c] that(2) by auto
  show ?thesis
  proof (rule proc_invI, goal_cases)
    case (1 e f cid')
    with notin have ne: "cid' \<noteq> cid" by (force simp: entry_conn_def)
    obtain d where d: "conns p cid' = Some d" "cc_socket d = f" using proc_invD(2) [OF inv 1] by auto
    show ?case using proc_invD(1) [OF inv 1] d ne other [OF d(1) ne]
      by (simp add: p closed_tables [OF px])
  next
    case (4 cid' d)
    then show ?case using proc_invD(5-7) [OF inv, of cid' d] other [of cid' d]
      by (simp add: p closed_tables [OF px] split: if_splits)
  next
    case (5 a b d d')
    then show ?case using proc_invD(8) [OF inv, of a d b d'] by (simp add: p split: if_splits)
  next
    case 7
    then show ?case using proc_invD(10) [OF inv] proc_invD(6) [OF inv c] by (auto simp: p closed_tables [OF px])
  next
    case (8 f)
    then obtain b d where "conns p b = Some d" "cc_socket d = f" "f \<noteq> cc_socket c"
      using proc_invD(11) [OF inv, of f] by (auto simp: p closed_tables [OF px])
    then show ?case using c by (intro exI [of _ b] exI [of _ d]) (auto simp: p)
  next
    case (6 b)
    then show ?case using proc_invD(9) [OF inv, of b] by (simp add: p)
  qed (use proc_invD(3,4) [OF inv] zero in \<open>simp_all add: p\<close>)
qed

lemma proc_inv_release:
  assumes "posix_ok os (v_opened v) (v_watched v)" and "proc_inv v E (cid # X) p"
  shows "proc_inv v E X (release os cid p)"
  using assms proc_inv_release_shared proc_inv_release_last by blast

section \<open>A worker among the others\<close>

text \<open>
  The state of a worker with socket \<open>s\<close> and instance \<open>ep\<close>: \<open>others\<close> are the entries of the other workers,
  \<open>keep\<close> descriptors that are to stay watched, \<open>count\<close> the share of the other workers in the counter of
  active connections, \<open>pinned\<close> entries that are in the table.
\<close>

record 'k wview = "'k view" +
  v_others :: "(int \<times> int \<times> nat) list"
  v_socket :: Socket
  v_epoll :: Epoll
  v_keep :: "int set"
  v_count :: size_t

definition winv :: "'k wview \<Rightarrow> (int \<times> nat) set \<Rightarrow> ('j, 's, 'h, 'w, 'k) wstate \<Rightarrow> bool" where
  "winv v pinned st \<longleftrightarrow>
     wk_socket (fst st) = v_socket v \<and> wk_epoll (fst st) = v_epoll v \<and>
     distinct (map fst (wk_active (fst st))) \<and> pinned \<subseteq> set (wk_active (fst st)) \<and>
     epoll_fd (v_epoll v) \<notin> fst ` set (v_others v) \<and>
     socket_fd (v_socket v) \<in> v_reserved v \<and>
     v_keep v \<subseteq> v_watched v (kern (snd st)) (epoll_fd (v_epoll v)) \<and>
     active_count (snd st) = v_count v + of_nat (length (wk_active (fst st))) \<and>
     proc_inv v (entries (fst st) @ v_others v) [] (snd st)"

lemma winv_proc: "winv v pinned st \<Longrightarrow> proc_inv v (entries (fst st) @ v_others v) [] (snd st)"
  by (simp add: winv_def)

lemma winv_process:
  assumes "winv v pinned st" and "proc_inv v (entries (fst st) @ v_others v) [] p'"
    and "active_count p' = active_count (snd st)"
    and "v_keep v \<subseteq> v_watched v (kern p') (epoll_fd (v_epoll v))"
  shows "winv v pinned (fst st, p')"
  using assms by (simp add: winv_def)

lemma winv_weaken: "winv v pinned st \<Longrightarrow> pinned' \<subseteq> pinned \<Longrightarrow> winv v pinned' st"
  by (auto simp: winv_def)

lemma winv_pinned:
  assumes "winv v pinned st" "(fd, cid) \<in> pinned"
  shows "map_of (wk_active (fst st)) fd = Some cid"
    "fd \<in> v_watched v (kern (snd st)) (epoll_fd (v_epoll v))"
    "\<exists>c. conns (snd st) cid = Some c \<and> cc_socket c = fd"
proof -
  have "(fd, cid) \<in> set (wk_active (fst st))" using assms by (auto simp: winv_def)
  moreover from this have e: "(epoll_fd (v_epoll v), fd, cid) \<in> set (entries (fst st) @ v_others v)"
    using assms by (force simp: entries_def winv_def)
  ultimately show "map_of (wk_active (fst st)) fd = Some cid"
    "fd \<in> v_watched v (kern (snd st)) (epoll_fd (v_epoll v))"
    "\<exists>c. conns (snd st) cid = Some c \<and> cc_socket c = fd"
    using assms proc_invD(1,2) [OF winv_proc [OF assms(1)] e] by (auto simp: winv_def)
qed

text \<open>Triples for the parts of a computation that leave the table of the worker alone.\<close>

lemma triple_kernel:
  assumes "\<And>k. tables_kept v k (fst (m k))"
  shows "triple (winv v pinned) (on_process (on_kernel m)) (\<lambda>_. winv v pinned) (winv v pinned)"
proof (rule triple_keeps, goal_cases)
  case (1 st)
  note inv = this
  have "tables_kept v (kern (snd st)) (fst (m (kern (snd st))))" by (rule assms)
  with inv show ?case
    by (auto simp: on_process_def on_kernel_def winv_def same_tables_def split: prod.splits
        intro!: proc_inv_kern)
qed

lemma triple_conn:
  assumes "\<And>c. cc_socket (fst (m c)) = cc_socket c"
  shows "triple (winv v pinned) (on_process (on_conn cid m)) (\<lambda>_. winv v pinned) (winv v pinned)"
proof (rule triple_keeps, goal_cases)
  case (1 st)
  note inv = this
  show ?case
  proof (cases "conns (snd st) cid")
    case None
    with inv show ?thesis by (simp add: on_process_def on_conn_def)
  next
    case (Some c)
    with inv proc_inv_conn [OF winv_proc [OF inv] Some assms] show ?thesis
      by (auto simp: on_process_def on_conn_def winv_def split: prod.splits)
  qed
qed

lemma triple_process:
  assumes "\<And>p. kern (f p) = kern p \<and> active_count (f p) = active_count p"
    and "\<And>E p. (\<And>fd cid. (fd, cid) \<in> pinned \<Longrightarrow> conns p cid \<noteq> None) \<Longrightarrow> proc_inv v E [] p \<Longrightarrow>
      proc_inv v E [] (f p)"
  shows "triple (winv v pinned) (on_process (eff_modify f)) (\<lambda>_. winv v pinned) (winv v pinned)"
proof (rule triple_keeps, goal_cases)
  case (1 st)
  note inv = this
  have "proc_inv v (entries (fst st) @ v_others v) [] (f (snd st))"
    using winv_pinned(3) [OF inv] by (intro assms(2) winv_proc [OF inv]) auto
  with inv assms(1) show ?case
    by (simp add: on_process_def eff_modify_def winv_def)
qed

section \<open>Disconnecting\<close>

lemma count_delete:
  assumes "distinct (map fst al)" "map_of al fd = Some cid"
  shows "count_list (map snd al) x =
    count_list (map snd (AList.delete fd al)) x + (if x = cid then 1 else 0)"
  using assms
proof (induction al)
  case (Cons a al)
  obtain f c where a: "a = (f, c)" by fastforce
  show ?case
  proof (cases "f = fd")
    case True
    with Cons.prems a have "fd \<notin> fst ` set al" "c = cid" by auto
    then have "AList.delete fd al = al" by simp
    with True a \<open>c = cid\<close> show ?thesis by simp
  next
    case False
    with Cons a show ?thesis by simp
  qed
qed simp

lemma entry_conn_entries: "map entry_conn (entries w) = map snd (wk_active w)"
  by (auto simp: entries_def entry_conn_def)

lemma length_delete:
  assumes "distinct (map fst al)" "map_of al fd = Some cid"
  shows "Suc (length (AList.delete fd al)) = length al"
  using assms by (induction al) auto

lemma active_count_release [simp]: "active_count (release os cid p) = active_count p"
  by (simp add: release_def split: option.splits)

lemma release_watched:
  assumes "posix_ok os (v_opened v) (v_watched v)" "conns p cid = Some c"
  shows "v_watched v (kern p) e - {cc_socket c} \<subseteq> v_watched v (kern (release os cid p)) e"
  using assms closed_tables(2) [OF assms(1)]
  by (auto simp: release_def socket_close_def Socket_of_def)

lemma proc_inv_unwatch:
  assumes inv: "proc_inv v E X p" and e: "\<forall>cid. (e, fd, cid) \<notin> set E"
    and k: "v_opened v k' = v_opened v (kern p)"
      "v_watched v k' = (v_watched v (kern p))(e := v_watched v (kern p) e - {fd})"
  shows "proc_inv v E X (p\<lparr>kern := k'\<rparr>)"
proof (rule proc_invI, goal_cases)
  case (1 e' f cid)
  then show ?case using proc_invD(1,2) [OF inv 1] e k by auto
qed (use proc_invD [OF inv] k in \<open>simp_all\<close>)

lemma proc_inv_drop_entry:
  assumes inv: "proc_inv v (entries w @ others) [] p" and d: "distinct (map fst (wk_active w))"
    and f: "map_of (wk_active w) fd = Some cid"
  shows "proc_inv v (entries (w\<lparr>wk_active := AList.delete fd (wk_active w)\<rparr>) @ others) [cid] p"
proof (rule proc_invI, goal_cases)
  case (1 e' f cid)
  then have "(e', f, cid) \<in> set (entries w @ others)" by (auto simp: entries_def AList.delete_eq)
  from proc_invD(1,2) [OF inv this] show ?case by auto
next
  case (2 x)
  show ?case using proc_invD(3) [OF inv, of x] count_delete [OF d f, of x]
    by (simp add: entry_conn_entries)
qed (use proc_invD [OF inv] in \<open>simp_all\<close>)

text \<open>The descriptor \<open>fd\<close> has been taken from the interest list; its entry, if there is one, goes.\<close>

lemma erase_active_ok:
  assumes px: "posix_ok os (v_opened v) (v_watched v)" and inv: "winv v pinned (w, p)" and fd: "fd \<notin> v_keep v"
    and k': "v_opened v k' = v_opened v (kern p)"
      "v_watched v k' = (v_watched v (kern p))(epoll_fd (v_epoll v) := v_watched v (kern p) (epoll_fd (v_epoll v)) - {fd})"
  shows "winv v {x \<in> pinned. fst x \<noteq> fd} (erase_active os fd (w, p\<lparr>kern := k'\<rparr>))"
proof -
  have ep: "wk_epoll w = v_epoll v" and d: "distinct (map fst (wk_active w))"
    and eo: "epoll_fd (v_epoll v) \<notin> fst ` set (v_others v)" and pi: "proc_inv v (entries w @ v_others v) [] p"
    using inv by (simp_all add: winv_def)
  let ?w = "w\<lparr>wk_active := AList.delete fd (wk_active w)\<rparr>" and ?p = "p\<lparr>kern := k'\<rparr>"
  have gone: "\<forall>cid. (epoll_fd (v_epoll v), fd, cid) \<notin> set (entries ?w @ v_others v)"
    using eo by (force simp: entries_def AList.delete_eq ep)
  show ?thesis
  proof (cases "map_of (wk_active w) fd")
    case None
    then have "?w = w" using d by (auto simp: map_of_eq_None_iff)
    then have "proc_inv v (entries w @ v_others v) [] ?p" using proc_inv_unwatch [OF pi _ k'] gone by simp
    with inv None fd k' show ?thesis by (auto simp: erase_active_def winv_def)
  next
    case (Some cid)
    obtain c where c: "conns p cid = Some c" "cc_socket c = fd"
      using proc_invD(2) [OF pi, of "epoll_fd (v_epoll v)" fd cid] map_of_SomeD [OF Some]
      by (force simp: entries_def ep)
    have "int (length (wk_active w)) = 1 + int (length (AList.delete fd (wk_active w)))"
      using length_delete [OF d Some] by simp
    then have len: "of_nat (length (wk_active w)) - 1 = (of_nat (length (AList.delete fd (wk_active w))) :: size_t)"
      by (metis add_diff_cancel_left' of_int_1 of_int_add of_int_of_nat_eq)
    have "proc_inv v (entries ?w @ v_others v) [] (release os cid ?p)"
      using proc_inv_release [OF px proc_inv_unwatch [OF proc_inv_drop_entry [OF pi d Some] gone k']] .
    moreover have "v_keep v \<subseteq> v_watched v (kern (release os cid ?p)) (epoll_fd (v_epoll v))"
      using release_watched [OF px, of ?p cid c "epoll_fd (v_epoll v)"] c k' inv fd by (auto simp: winv_def)
    moreover have "{x \<in> pinned. fst x \<noteq> fd} \<subseteq> set (AList.delete fd (wk_active w))"
      using inv by (auto simp: winv_def AList.delete_eq)
    ultimately show ?thesis
      using inv Some len distinct_delete [OF d] by (simp add: erase_active_def winv_def Let_def)
  qed
qed

lemma disconnectClient_ok:
  assumes px: "posix_ok (e_os env) (v_opened v) (v_watched v)" and inv: "winv v pinned st"
    and fd: "fd \<in> v_watched v (kern (snd st)) (epoll_fd (v_epoll v))" "fd \<notin> v_keep v"
  shows "\<exists>st'. disconnectClient env fd st = (st', Inr ()) \<and> winv v {x \<in> pinned. fst x \<noteq> fd} st'"
proof -
  obtain w p where st: "st = (w, p)" by fastforce
  have ep: "wk_epoll w = v_epoll v" using inv by (simp add: winv_def st)
  have "fd \<in> v_opened v (kern p)" using fd(1) posix_ok_watched [OF px] by (auto simp: st)
  then obtain k' where rm: "epoll_remove (e_os env) (wk_epoll w) fd (kern p) = (k', Inr ())"
    and k': "v_opened v k' = v_opened v (kern p)"
      "v_watched v k' = (v_watched v (kern p))(epoll_fd (v_epoll v) :=
         v_watched v (kern p) (epoll_fd (v_epoll v)) - {fd})"
    using epoll_remove_ok [OF px, of fd "kern p" "wk_epoll w"] fd(1) by (auto simp: ep st)
  have "disconnectClient env fd st = (erase_active (e_os env) fd (w, p\<lparr>kern := k'\<rparr>), Inr ())"
    by (simp add: disconnectClient_def st eff_bind_def eff_modify_def on_process_def on_kernel_def rm)
  with erase_active_ok [OF px _ fd(2) k', of pinned w] inv show ?thesis by (simp add: st)
qed

lemma triple_disconnect:
  assumes px: "posix_ok (e_os env) (v_opened v) (v_watched v)" and fd: "fd \<notin> v_keep v"
  shows "triple (winv v {(fd, cid)}) (disconnectClient env fd) (\<lambda>_. winv v {}) (winv v {(fd, cid)})"
proof (rule tripleI, goal_cases)
  case (1 st st' x)
  from disconnectClient_ok [OF px 1(1) winv_pinned(2) [OF 1(1)] fd] 1(2) show ?case
    by (auto elim: winv_weaken)
next
  case (2 st st' e)
  from disconnectClient_ok [OF px 2(1) winv_pinned(2) [OF 2(1)] fd] 2(2) show ?case by simp
qed

section \<open>Data from a client\<close>

text \<open>No operation of a connection changes its socket.\<close>

named_theorems socket_kept

lemma socket_kept_simple [socket_kept]:
  "cc_socket (fst (conn_send api c d)) = cc_socket c"
  "cc_socket (fst (consumeParsedRequest c)) = cc_socket c"
  "cc_socket (updateActivity t c) = cc_socket c"
  "cc_socket (upgradeToWebSocket c path) = cc_socket c"
  "cc_socket (fst (take_request c)) = cc_socket c"
  "cc_socket (fst (sendWebSocketMessage api c msg op)) = cc_socket c"
  "cc_socket (submitHttp2Response api h2 c sid response) = cc_socket c"
  by (auto simp: conn_send_def consumeParsedRequest_def updateActivity_def upgradeToWebSocket_def
      take_request_def parseRequest_def sendWebSocketMessage_def submitHttp2Response_def
      split: prod.splits sum.splits option.splits)

lemma socket_kept_frame [socket_kept]: "cc_socket (fst (take_frame c)) = cc_socket c"
  by (auto simp: take_frame_def parseWebSocketFrame_def Let_def
      split: prod.splits sum.splits option.splits if_splits)

lemma socket_kept_handshake [socket_kept]: "cc_socket (fst (doHandshake api h2 c ev)) = cc_socket c"
  by (simp add: doHandshake_def setupHttp2Session_def Let_def split: prod.splits SslError.splits)

lemma socket_kept_http2 [socket_kept]: "cc_socket (fst (processHttp2 api h2 c)) = cc_socket c"
  by (auto simp: processHttp2_def Let_def split: option.splits prod.splits sum.splits if_splits)

lemma socket_kept_read:
  assumes "conn_read api c = Some (c', r)"
  shows "cc_socket c' = cc_socket c"
  using conn_read_frame [OF assms] by auto

lemma triple_seq:
  "triple P m (\<lambda>_. P) P \<Longrightarrow> (\<And>x. triple P (f x) R P) \<Longrightarrow> triple P (eff_bind m f) R P"
  by (rule triple_bind)

lemma triple_rearm:
  assumes px: "posix_ok (e_os env) (v_opened v) (v_watched v)"
  shows "triple (winv v pinned) (rearm env fd ev) (\<lambda>_. winv v pinned) (winv v pinned)"
proof (rule triple_keeps, goal_cases)
  case (1 st)
  have "triple (winv v pinned) (on_process (on_kernel (epoll_modify (e_os env) (wk_epoll (fst st)) fd ev)))
      (\<lambda>_. winv v pinned) (winv v pinned)"
    by (rule triple_kernel) (rule epoll_modify_same(1) [OF px])
  from tripleD [OF this 1] show ?case
    unfolding rearm_def by (metis prod.collapse sum.exhaust)
qed

lemma now_same: "posix_ok os opened watched \<Longrightarrow> same_tables opened watched k (fst (now os k))"
  by (auto simp: now_def posix_ok_def neutral_def split: prod.splits) (metis fst_conv)

lemma triple_now:
  assumes "posix_ok (e_os env) (v_opened v) (v_watched v)"
  shows "triple (winv v pinned) (on_process (on_kernel (now (e_os env)))) (\<lambda>_. winv v pinned) (winv v pinned)"
  by (rule triple_kernel) (rule now_same [OF assms])

lemma triple_enqueue:
  assumes "(fd, task_conn t) \<in> pinned"
  shows "triple (winv v pinned) (on_process (eff_modify (enqueue t))) (\<lambda>_. winv v pinned) (winv v pinned)"
  using assms by (intro triple_process proc_inv_enqueue) (auto simp: enqueue_def)

lemma enqueue_fields [simp]: "conns (enqueue t p) = conns p" "kern (enqueue t p) = kern p"
  "active_count (enqueue t p) = active_count p"
  by (simp_all add: enqueue_def)

lemma proc_inv_enqueue_all:
  assumes "proc_inv v E X p" "conns p cid \<noteq> None"
  shows "proc_inv v E X (fold (\<lambda>(sid, req) p.
    enqueue (H2Task cid sid req) (p\<lparr>total_requests := total_requests p + 1\<rparr>)) requests p)"
  using assms
proof (induction requests arbitrary: p)
  case (Cons r requests)
  then show ?case
    by (cases r) (auto intro!: Cons.IH proc_inv_enqueue)
qed simp

lemma kern_enqueue_all: "kern (fold (\<lambda>(sid, req) p.
    enqueue (H2Task cid sid req) (p\<lparr>total_requests := total_requests p + 1\<rparr>)) requests p) = kern p"
  and count_enqueue_all: "active_count (fold (\<lambda>(sid, req) p.
    enqueue (H2Task cid sid req) (p\<lparr>total_requests := total_requests p + 1\<rparr>)) requests p) = active_count p"
  by (induction requests arbitrary: p, simp_all split: prod.splits)

text \<open>
  The parts of \<open>handleClientData\<close> on the connection of a table entry: on return the invariant holds,
  on a throw the entry is still in the table.
\<close>

definition client_ok ::
  "'k wview \<Rightarrow> int \<Rightarrow> nat \<Rightarrow> (('j, 's, 'h, 'w, 'k) wstate, 'a) effect \<Rightarrow> bool" where
  "client_ok v fd cid m \<longleftrightarrow> triple (winv v {(fd, cid)}) m (\<lambda>_. winv v {}) (winv v {(fd, cid)})"

lemma client_okI:
  assumes "triple (winv v {(fd, cid)}) m (\<lambda>_. winv v {(fd, cid)}) (winv v {(fd, cid)})"
  shows "client_ok v fd cid m"
  unfolding client_ok_def using assms by (rule triple_conseq) (auto elim: winv_weaken)

lemma client_ok_seq:
  assumes "triple (winv v {(fd, cid)}) m (\<lambda>_. winv v {(fd, cid)}) (winv v {(fd, cid)})"
    and "\<And>x. client_ok v fd cid (f x)"
  shows "client_ok v fd cid (eff_bind m f)"
  using assms unfolding client_ok_def by (rule triple_seq)

lemma client_ok_then:
  assumes "client_ok v fd cid m"
  shows "client_ok v fd cid (eff_bind m (\<lambda>_. eff_return x))"
  using assms unfolding client_ok_def
  by (rule triple_bind) (rule triple_return)

lemma client_ok_return: "client_ok v fd cid (eff_return x)"
  by (rule client_okI) (rule triple_return)

lemma client_ok_throw: "client_ok v fd cid (eff_throw e)"
  by (rule client_okI) (rule triple_throw)

lemma triple_ws_turn:
  assumes px: "posix_ok (e_os env) (v_opened v) (v_watched v)" and fd: "fd \<notin> v_keep v"
  shows "triple (winv v {(fd, cid)}) (ws_turn env fd cid)
    (\<lambda>more_frames. winv v (if more_frames then {(fd, cid)} else {})) (winv v {(fd, cid)})"
    (is "triple ?W _ ?R _")
proof -
  have re: "triple ?W (eff_bind (rearm env fd REARM) (\<lambda>_. eff_return b)) ?R ?W" for b
    by (intro triple_seq triple_rearm px triple_return) (auto elim: winv_weaken)
  have di: "triple ?W (eff_bind (disconnectClient env fd) (\<lambda>_. eff_return False)) ?R ?W"
    by (intro triple_bind [OF triple_disconnect [OF px fd]] triple_return) simp
  have en: "triple ?W (eff_bind (eff_get (\<lambda>st. wk_epoll (fst st))) (\<lambda>ep.
      eff_bind (on_process (eff_modify (enqueue (WsTask ep cid frame fd)))) (\<lambda>_. eff_return False))) ?R ?W"
    for frame
    by (intro triple_seq triple_get triple_enqueue [of fd] triple_return) (auto elim: winv_weaken)
  show ?thesis
    unfolding ws_turn_def
  proof (rule triple_seq, goal_cases)
    case 1
    show ?case by (rule triple_conn) (rule socket_kept)
  next
    case (2 x)
    obtain frame v' where "x = (frame, v')" by fastforce
    then show ?case using re di en by (cases v') auto
  qed
qed

lemma client_ok_http_turn:
  assumes px: "posix_ok (e_os env) (v_opened v) (v_watched v)" and fd: "fd \<notin> v_keep v"
  shows "client_ok v fd cid (http_turn env fd cid)"
proof -
  have re: "client_ok v fd cid (rearm env fd REARM)" by (intro client_okI triple_rearm px)
  have di: "client_ok v fd cid (disconnectClient env fd)"
    unfolding client_ok_def by (rule triple_disconnect [OF px fd])
  have up: "client_ok v fd cid (upgrade_turn env fd cid req)" for req
    unfolding upgrade_turn_def by (intro client_ok_seq re triple_conn) (simp_all add: socket_kept)
  have disp: "client_ok v fd cid (dispatch_turn env fd cid req)" for req
    unfolding dispatch_turn_def
    by (intro client_ok_seq client_okI triple_conn triple_get triple_enqueue [of fd] triple_process)
      (simp_all add: socket_kept)
  have bad: "client_ok v fd cid (eff_bind (on_process (on_conn cid
      (\<lambda>c. conn_send (e_ssl env) c (serialize bad_request)))) (\<lambda>_. disconnectClient env fd))"
    by (intro client_ok_seq di triple_conn) (simp add: socket_kept)
  show ?thesis
    unfolding http_turn_def
  proof (rule client_ok_seq, goal_cases)
    case 1
    show ?case by (rule triple_conn) (rule socket_kept)
  next
    case (2 x)
    obtain req v' where "x = (req, v')" by fastforce
    then show ?case using re up disp bad by (cases v') auto
  qed
qed

lemma client_ok_data_loop:
  assumes px: "posix_ok (e_os env) (v_opened v) (v_watched v)" and fd: "fd \<notin> v_keep v"
  shows "client_ok v fd cid (data_loop env fd cid)"
proof -
  have "(data_loop env fd cid st = (st', Inl e) \<longrightarrow> winv v {(fd, cid)} st') \<and>
      (data_loop env fd cid st = (st', Inr x) \<longrightarrow> winv v {} st')"
    if "winv v {(fd, cid)} st" for st st' e x
    using px fd that
  proof (induction env fd cid st rule: data_loop.induct)
    case (1 env fd cid st)
    note ws = triple_ws_turn [OF 1(2,3), of cid]
    note http = client_ok_http_turn [OF 1(2,3), of cid, unfolded client_ok_def]
    obtain c where c: "conns (snd st) cid = Some c" using winv_pinned(3) [OF 1(4)] by auto
    show ?case
    proof (cases "is_websocket c")
      case False
      with c tripleD [OF http 1(4)] show ?thesis by (auto simp: data_loop.simps [of env fd cid st])
    next
      case True
      obtain st1 r where t: "ws_turn env fd cid st = (st1, r)" by fastforce
      show ?thesis
      proof (cases "r = Inr True")
        case True
        then have "winv v {(fd, cid)} st1" using tripleD(1) [OF ws 1(4), of st1 True] t by simp
        from 1(1) [OF c \<open>is_websocket c\<close> t [symmetric] True 1(2,3) this] show ?thesis
          using c \<open>is_websocket c\<close> t True by (simp add: data_loop.simps [of env fd cid st])
      next
        case False
        with c \<open>is_websocket c\<close> t tripleD [OF ws 1(4)] show ?thesis
          by (cases r) (auto simp: data_loop.simps [of env fd cid st])
      qed
    qed
  qed
  then show ?thesis unfolding client_ok_def by (intro tripleI) blast+
qed

lemma client_ok_h2_turn:
  assumes px: "posix_ok (e_os env) (v_opened v) (v_watched v)"
  shows "client_ok v fd cid (h2_turn env fd cid)"
proof -
  have en: "triple (winv v {(fd, cid)}) (on_process (eff_modify (\<lambda>p. fold (\<lambda>(sid, req) p.
      enqueue (H2Task cid sid req) (p\<lparr>total_requests := total_requests p + 1\<rparr>)) requests p)))
      (\<lambda>_. winv v {(fd, cid)}) (winv v {(fd, cid)})" for requests
    by (rule triple_process) (auto simp: kern_enqueue_all count_enqueue_all intro: proc_inv_enqueue_all)
  have fin: "client_ok v fd cid (case r of Inl e \<Rightarrow> eff_throw e | Inr x \<Rightarrow> rearm env fd REARM)" for r
    by (cases r) (simp_all add: client_ok_throw client_okI triple_rearm [OF px])
  show ?thesis
    unfolding h2_turn_def
  proof (rule client_ok_seq, goal_cases)
    case 1
    show ?case by (rule triple_conn) (auto simp: socket_kept split: prod.splits dest: arg_cong [of _ _ fst])
  next
    case (2 x)
    show ?case by (cases x) (auto intro!: client_ok_seq en fin)
  qed
qed

lemma triple_handshake:
  assumes px: "posix_ok (e_os env) (v_opened v) (v_watched v)"
  shows "triple (winv v {(fd, cid)}) (handshake env fd cid) (\<lambda>_. winv v {(fd, cid)}) (winv v {(fd, cid)})"
  unfolding handshake_def
proof (intro triple_seq triple_now px triple_conn, goal_cases)
  case (1 t c)
  show ?case by (simp add: socket_kept)
next
  case (2 t u c)
  show ?case using socket_kept_handshake [of "e_ssl env" "e_h2 env" c 0]
    by (auto split: prod.splits sum.splits)
next
  case (3 t u x)
  show ?case
    by (cases x) (auto intro!: triple_seq triple_return triple_rearm px)
qed

lemma client_ok_after_read:
  assumes px: "posix_ok (e_os env) (v_opened v) (v_watched v)" and fd: "fd \<notin> v_keep v"
  shows "client_ok v fd cid (after_read env fd cid alive)"
proof (cases alive)
  case True
  then show ?thesis
    unfolding after_read_def
    using client_ok_h2_turn [OF px] client_ok_data_loop [OF px fd]
    by (auto intro!: client_ok_seq triple_conn)
next
  case False
  then show ?thesis
    unfolding after_read_def client_ok_def by (simp add: triple_disconnect [OF px fd])
qed

lemma client_body_ok:
  assumes px: "posix_ok (e_os env) (v_opened v) (v_watched v)" and fd: "fd \<notin> v_keep v"
    and inv: "winv v {(fd, cid)} st" and run: "client_body env fd cid st = Some (st', r)"
  shows "case r of Inl e \<Rightarrow> winv v {(fd, cid)} st' | Inr _ \<Rightarrow> winv v {} st'"
proof -
  obtain st1 h where h: "handshake env fd cid st = (st1, h)" by fastforce
  have inv1: "winv v {(fd, cid)} st1"
    using tripleD [OF triple_handshake [OF px, of fd cid] inv] h by (cases h) auto
  obtain c where c: "conns (snd st1) cid = Some c" using winv_pinned(3) [OF inv1] by auto
  show ?thesis
  proof (cases "h = Inr True")
    case False
    with run h inv1 show ?thesis
      by (auto simp: client_body_def split: sum.splits bool.splits elim: winv_weaken)
  next
    case True
    with run h c obtain c' r0 where rd: "conn_read (e_ssl env) c = Some (c', r0)"
      and b: "eff_bind (on_process (on_conn cid (\<lambda>_. (c', r0)))) (after_read env fd cid) st1 = (st', r)"
      by (auto simp: client_body_def)
    let ?p = "(snd st1)\<lparr>conns := (conns (snd st1))(cid \<mapsto> c')\<rparr>"
    have "proc_inv v (entries (fst st1) @ v_others v) [] ?p"
      by (rule proc_inv_conn [OF winv_proc [OF inv1] c socket_kept_read [OF rd]])
    with inv1 have inv2: "winv v {(fd, cid)} (fst st1, ?p)" by (simp add: winv_def)
    have on: "on_process (on_conn cid (\<lambda>_. (c', r0))) st1 = ((fst st1, ?p), r0)"
      using c by (simp add: on_process_def on_conn_def)
    show ?thesis
    proof (cases r0)
      case (Inl e)
      with on b inv2 show ?thesis by (auto simp: eff_bind_def)
    next
      case (Inr alive)
      with on b have "after_read env fd cid alive (fst st1, ?p) = (st', r)" by (simp add: eff_bind_def)
      with tripleD [OF client_ok_after_read [OF px fd, unfolded client_ok_def] inv2] show ?thesis
        by (cases r) auto
    qed
  qed
qed

text \<open>Whatever happens in the \<open>try\<close> block, the handler returns.\<close>

lemma handleClientData_ok:
  assumes px: "posix_ok (e_os env) (v_opened v) (v_watched v)" and fd: "fd \<notin> v_keep v"
    and inv: "winv v {} st" and run: "handleClientData env fd st = Some (st', r)"
  shows "winv v {} st' \<and> r = Inr ()"
proof (cases "map_of (wk_active (fst st)) fd")
  case None
  with run inv show ?thesis by (simp add: handleClientData_def)
next
  case (Some cid)
  then have pin: "winv v {(fd, cid)} st" using inv map_of_SomeD [OF Some] by (simp add: winv_def)
  obtain st1 r1 where b: "client_body env fd cid st = Some (st1, r1)"
    using run Some by (auto simp: handleClientData_def)
  note ok = client_body_ok [OF px fd pin b]
  show ?thesis
  proof (cases r1)
    case (Inl e)
    with ok have inv1: "winv v {(fd, cid)} st1" by simp
    from disconnectClient_ok [OF px inv1 winv_pinned(2) [OF inv1] fd] run Some b Inl show ?thesis
      by (auto simp: handleClientData_def elim: winv_weaken)
  next
    case (Inr x)
    with ok run Some b show ?thesis by (auto simp: handleClientData_def)
  qed
qed

section \<open>New connections\<close>

text \<open>
  A kernel in normal operation: on open descriptors \<open>accept\<close> fails only because no connection is
  pending, \<open>fcntl\<close> succeeds, and \<open>epoll_wait\<close> fails only when interrupted. Making a TLS object
  leaves the tables of descriptors alone.
\<close>

definition calm_kernel :: "'k os \<Rightarrow> ('k \<Rightarrow> int set) \<Rightarrow> bool" where
  "calm_kernel os opened \<longleftrightarrow>
     (\<forall>s k. file_descriptor s \<in> opened k \<longrightarrow>
        \<not> isl (snd (socket_accept os s k)) \<and> \<not> isl (snd (setNonBlocking os s k))) \<and>
     (\<forall>ep t k. \<not> isl (snd (epoll_wait os ep t k)))"

definition ssl_neutral :: "('j, 's, 'h, 'w, 'k) env \<Rightarrow> ('k, 'z) view_scheme \<Rightarrow> bool" where
  "ssl_neutral env v \<longleftrightarrow> (\<forall>fd k. tables_kept v k (fst (e_new_ssl env fd k)))"

lemma not_isl_iff: "\<not> isl r \<longleftrightarrow> (\<exists>x. r = Inr x)"
  by (cases r) auto

lemma update_absent: "fd \<notin> fst ` set al \<Longrightarrow> AList.update fd x al = al @ [(fd, x)]"
  by (induction al) auto

lemma entry_opened:
  assumes "posix_ok os (v_opened v) (v_watched v)" "proc_inv v (entries w @ others) X p"
  shows "fst ` set (wk_active w) \<subseteq> v_opened v (kern p)"
proof
  fix fd
  assume "fd \<in> fst ` set (wk_active w)"
  then obtain cid where "(epoll_fd (wk_epoll w), fd, cid) \<in> set (entries w @ others)"
    by (force simp: entries_def)
  from proc_invD(1) [OF assms(2) this] posix_ok_watched [OF assms(1)]
  show "fd \<in> v_opened v (kern p)" by blast
qed

lemma proc_inv_register:
  assumes inv: "proc_inv v (entries w @ others) [] p" and new: "0 \<le> fd" "fd \<notin> v_opened v (kern p)"
    and ep: "wk_epoll w = ep"
    and k': "v_opened v k' = insert fd (v_opened v (kern p))"
      "v_watched v k' = (v_watched v (kern p))(epoll_fd ep := insert fd (v_watched v (kern p) (epoll_fd ep)))"
  shows "proc_inv v (entries (w\<lparr>wk_active := wk_active w @ [(fd, next_conn p)]\<rparr>) @ others) []
    (p\<lparr>conns := (conns p)(next_conn p \<mapsto> new_connection fd ssl t),
       use_count := (use_count p)(next_conn p := 1), next_conn := next_conn p + 1,
       active_count := n, kern := k'\<rparr>)"
    (is "proc_inv v (?E @ others) [] ?p")
proof -
  let ?n = "next_conn p"
  have fresh: "conns p ?n = None" using proc_invD(9) [OF inv, of ?n] by simp
  have zero: "use_count p ?n = 0" using proc_invD(4) [OF inv, of ?n] fresh by simp
  have sock: "cc_socket (new_connection fd ssl t) = fd" by (simp add: new_connection_def)
  have old: "cc_socket d \<noteq> fd" if "conns p b = Some d" for b d
    using proc_invD(5) [OF inv that] new(2) by auto
  show ?thesis
  proof (rule proc_invI, goal_cases)
    case (1 e f cid)
    then consider "(e, f, cid) \<in> set (entries w @ others)" | "e = epoll_fd ep" "f = fd" "cid = ?n"
      by (auto simp: entries_def ep)
    then show ?case
    proof cases
      case 1
      from proc_invD(1,2) [OF inv 1] fresh show ?thesis using k' by auto
    next
      case 2
      then show ?thesis using k' sock by simp
    qed
  next
    case (2 cid)
    show ?case using proc_invD(3) [OF inv, of cid] zero by (auto simp: entry_conn_entries)
  next
    case (4 cid c)
    then show ?case using proc_invD(5-7) [OF inv, of cid c] proc_invD(10) [OF inv] new k' sock
      by (auto split: if_splits)
  next
    case (5 a b c d)
    then show ?case using proc_invD(8) [OF inv, of a c b d] old [of a c] old [of b d] sock by (auto split: if_splits)
  next
    case (8 f)
    then consider "f = fd" | b d where "conns p b = Some d" "cc_socket d = f"
      using proc_invD(11) [OF inv, of f] k' by auto
    then show ?case
    proof cases
      case 1
      then show ?thesis using sock by (intro exI [of _ ?n]) simp
    next
      case 2
      then show ?thesis using fresh by (intro exI [of _ b] exI [of _ d]) auto
    qed
  qed (use proc_invD(4,9,10) [OF inv] k' in auto)
qed

text \<open>What is done with an accepted descriptor before it is registered.\<close>

lemma accept_prepare:
  assumes px: "posix_ok (e_os env) (v_opened v) (v_watched v)"
    and calm: "calm_kernel (e_os env) (v_opened v)" and ssl: "ssl_neutral env v" and fd: "fd \<in> v_opened v k1"
  obtains k2 k3 sl k4 t where "setNonBlocking (e_os env) (Socket_of fd) k1 = (k2, Inr ())"
    "e_new_ssl env fd k2 = (k3, sl)" "sys_now (e_os env) k3 = (k4, t)" "tables_kept v k1 k4"
proof -
  have "\<not> isl (snd (setNonBlocking (e_os env) (Socket_of fd) k1))"
    using calm fd by (simp add: calm_kernel_def Socket_of_def)
  then obtain k2 where nb: "setNonBlocking (e_os env) (Socket_of fd) k1 = (k2, Inr ())"
    by (cases "setNonBlocking (e_os env) (Socket_of fd) k1") (auto simp: not_isl_iff)
  obtain k3 sl where sn: "e_new_ssl env fd k2 = (k3, sl)" by fastforce
  obtain k4 t where nw: "sys_now (e_os env) k3 = (k4, t)" by fastforce
  have "tables_kept v k2 (fst (e_new_ssl env fd k2))" using ssl by (simp add: ssl_neutral_def)
  then have "tables_kept v k1 k2" "tables_kept v k2 k3" "tables_kept v k3 k4"
    using setNonBlocking_same [OF px, of k1 "Socket_of fd"] nb sn now_same [OF px, of k3] nw
    by (simp_all add: now_def)
  then have "tables_kept v k1 k4" by (auto simp: same_tables_def)
  with nb sn nw show thesis by (rule that)
qed

text \<open>A descriptor the kernel has handed out is registered and watched.\<close>

lemma accept_one_registers:
  assumes px: "posix_ok (e_os env) (v_opened v) (v_watched v)"
    and calm: "calm_kernel (e_os env) (v_opened v)" and ssl: "ssl_neutral env v" and inv: "winv v {} (w, p)"
    and acc: "socket_accept (e_os env) (v_socket v) (kern p) = (k1, Inr (Socket_of fd))"
    and fd: "0 \<le> fd" "fd \<notin> v_opened v (kern p)" "v_opened v k1 = insert fd (v_opened v (kern p))"
      "v_watched v k1 = v_watched v (kern p)" "\<And>e. fd \<notin> v_watched v (kern p) e"
  shows "\<exists>st'. accept_one env (w, p) = (st', Inr True) \<and> winv v {} st'"
proof -
  let ?os = "e_os env" and ?s = "Socket_of fd"
  have w: "wk_socket w = v_socket v" "wk_epoll w = v_epoll v" using inv by (simp_all add: winv_def)
  have pi: "proc_inv v (entries w @ v_others v) [] p" using winv_proc [OF inv] by simp
  have s: "file_descriptor ?s = fd" "socket_fd ?s = fd" "socket_valid ?s"
    using fd(1) by (simp_all add: Socket_of_def socket_fd_def socket_valid_def)
  obtain k2 k3 sl k4 t where nb: "setNonBlocking ?os ?s k1 = (k2, Inr ())"
    and sn: "e_new_ssl env fd k2 = (k3, sl)" and nw: "sys_now ?os k3 = (k4, t)" and same: "tables_kept v k1 k4"
    using accept_prepare [OF px calm ssl, of fd k1] fd(3) by blast
  have k4: "v_opened v k4 = insert fd (v_opened v (kern p))" "v_watched v k4 = v_watched v (kern p)"
    using same fd(3,4) by (auto simp: same_tables_def)
  obtain k5 where add: "epoll_add ?os (v_epoll v) fd REARM k4 = (k5, Inr ())"
    "v_opened v k5 = v_opened v k4"
    "v_watched v k5 = (v_watched v k4)(epoll_fd (v_epoll v) := insert fd (v_watched v k4 (epoll_fd (v_epoll v))))"
    using epoll_add_ok [OF px, of fd k4 "v_epoll v" REARM] k4 fd(5) by auto
  have abs: "fd \<notin> fst ` set (wk_active w)" using entry_opened [OF px pi] fd(2) by auto
  then have none: "map_of (wk_active w) fd = None" by (simp add: map_of_eq_None_iff)
  let ?w = "w\<lparr>wk_active := wk_active w @ [(fd, next_conn p)]\<rparr>"
  let ?p = "p\<lparr>conns := (conns p)(next_conn p \<mapsto> new_connection fd sl t),
     use_count := (use_count p)(next_conn p := 1), next_conn := next_conn p + 1,
     active_count := active_count p + 1, kern := k5\<rparr>"
  have "accept_one env (w, p) = ((?w, ?p), Inr True)"
    using acc nb sn nw add(1) none abs s
    by (simp add: accept_one_def w on_process_def on_kernel_def eff_defs closing_on_throw_def
        new_ssl_def now_def register_client_def Let_def update_absent)
  moreover have "proc_inv v (entries ?w @ v_others v) [] ?p"
    using add(2,3) k4 by (intro proc_inv_register [OF pi fd(1,2) w(2)]) auto
  then have "winv v {} (?w, ?p)" using inv abs add(3) k4 by (auto simp: winv_def)
  ultimately show ?thesis by blast
qed

lemma accept_one_ok:
  assumes px: "posix_ok (e_os env) (v_opened v) (v_watched v)"
    and calm: "calm_kernel (e_os env) (v_opened v)" and ssl: "ssl_neutral env v" and inv: "winv v {} st"
  shows "\<exists>st' b. accept_one env st = (st', Inr b) \<and> winv v {} st'"
proof -
  obtain w p where st: "st = (w, p)" by fastforce
  have pi: "proc_inv v (entries w @ v_others v) [] p" using winv_proc [OF inv] by (simp add: st)
  have "file_descriptor (v_socket v) \<in> v_opened v (kern p)"
    using inv proc_invD(10) [OF pi] by (auto simp: winv_def socket_fd_def)
  then have "\<not> isl (snd (socket_accept (e_os env) (v_socket v) (kern p)))"
    using calm by (simp add: calm_kernel_def)
  then obtain k1 s where acc: "socket_accept (e_os env) (v_socket v) (kern p) = (k1, Inr s)"
    by (cases "socket_accept (e_os env) (v_socket v) (kern p)") (auto simp: not_isl_iff)
  from px acc show ?thesis
  proof (cases rule: socket_accept_cases)
    case none
    then have "accept_one env st = ((w, p\<lparr>kern := k1\<rparr>), Inr False)"
      using acc inv by (simp add: accept_one_def st winv_def on_process_def on_kernel_def eff_defs socket_valid_def
          Socket_invalid_def)
    moreover have "winv v {} (w, p\<lparr>kern := k1\<rparr>)"
      using inv none(2) proc_inv_kern [OF pi none(2)] by (auto simp: winv_def st same_tables_def)
    ultimately show ?thesis by blast
  next
    case (accepted fd)
    then show ?thesis
      using accept_one_registers [OF px calm ssl, of w p k1 fd] inv acc by (auto simp: st)
  qed (use acc in simp)
qed

text \<open>
  \<open>backlog k\<close> bounds the connections that wait to be accepted in state \<open>k\<close>: every accepted one is taken
  from it.
\<close>

definition finite_backlog :: "('j, 's, 'h, 'w, 'k) env \<Rightarrow> ('k \<Rightarrow> nat) \<Rightarrow> bool" where
  "finite_backlog env backlog \<longleftrightarrow>
     (\<forall>st st' :: ('j, 's, 'h, 'w, 'k) wstate. accept_one env st = (st', Inr True) \<longrightarrow>
        backlog (kern (snd st')) < backlog (kern (snd st)))"

lemma handleNewConnection_ok:
  assumes px: "posix_ok (e_os env) (v_opened v) (v_watched v)"
    and calm: "calm_kernel (e_os env) (v_opened v)" and ssl: "ssl_neutral env v" and inv: "winv v {} st"
    and fin: "finite_backlog env backlog"
  shows "\<exists>st'. handleNewConnection env st = Some (st', Inr ()) \<and> winv v {} st'"
  using inv
proof (induction "backlog (kern (snd st))" arbitrary: st rule: less_induct)
  case less
  obtain st1 b where a: "accept_one env st = (st1, Inr b)" "winv v {} st1"
    using accept_one_ok [OF px calm ssl less(2)] by blast
  show ?case
  proof (cases b)
    case True
    with a(1) have "accept_one env st = (st1, Inr True)" by simp
    with fin have "backlog (kern (snd st1)) < backlog (kern (snd st))"
      unfolding finite_backlog_def by blast
    from less(1) [OF this a(2)] a True show ?thesis
      by (simp add: handleNewConnection.simps [of env st])
  next
    case False
    with a show ?thesis by (simp add: handleNewConnection.simps [of env st])
  qed
qed

section \<open>The event loop\<close>

lemma collect_idle_same:
  assumes px: "posix_ok os (v_opened v) (v_watched v)"
  shows "tables_kept v k (fst (collect_idle os cs al k))"
proof (induction al arbitrary: k)
  case (Cons a al)
  obtain fd cid where a: "a = (fd, cid)" by fastforce
  obtain k1 t where n: "sys_now os k = (k1, t)" by fastforce
  have "tables_kept v k k1" using now_same [OF px, of k] n by (simp add: now_def)
  from same_tables_trans [OF this Cons.IH] show ?case
    using n by (simp add: a split: prod.splits) (metis fst_conv)
qed simp

lemma collect_idle_Cons:
  "snd (collect_idle os cs ((fd, cid) # al) k) = fd # snd (collect_idle os cs al (fst (sys_now os k))) \<or>
   snd (collect_idle os cs ((fd, cid) # al) k) = snd (collect_idle os cs al (fst (sys_now os k)))"
  by (simp split: prod.splits)

lemma collect_idle_subset: "set (snd (collect_idle os cs al k)) \<subseteq> fst ` set al"
proof (induction al arbitrary: k)
  case (Cons a al)
  obtain fd cid where "a = (fd, cid)" by fastforce
  with collect_idle_Cons [of os cs fd cid al k] Cons.IH [of "fst (sys_now os k)"] show ?case
    by (fastforce simp del: collect_idle.simps)
qed simp

lemma collect_idle_distinct: "distinct (map fst al) \<Longrightarrow> distinct (snd (collect_idle os cs al k))"
proof (induction al arbitrary: k)
  case (Cons a al)
  obtain fd cid where "a = (fd, cid)" by fastforce
  with collect_idle_Cons [of os cs fd cid al k] Cons.IH [of "fst (sys_now os k)"] Cons.prems
    collect_idle_subset [of os cs al "fst (sys_now os k)"] show ?case
    by (auto simp del: collect_idle.simps)
qed simp

lemma disconnect_all_ok:
  assumes px: "posix_ok (e_os env) (v_opened v) (v_watched v)" and keep: "v_keep v = {}"
  shows "winv v pinned st \<Longrightarrow> distinct fds \<Longrightarrow> set fds \<subseteq> fst ` pinned \<Longrightarrow>
    \<exists>st'. disconnect_all env fds st = (st', Inr ()) \<and> winv v {} st'"
proof (induction fds arbitrary: pinned st)
  case Nil
  then show ?case by (auto elim: winv_weaken)
next
  case (Cons fd fds)
  then obtain cid where "(fd, cid) \<in> pinned" by force
  from winv_pinned(2) [OF Cons.prems(1) this] keep
  obtain st1 where d: "disconnectClient env fd st = (st1, Inr ())" "winv v {x \<in> pinned. fst x \<noteq> fd} st1"
    using disconnectClient_ok [OF px Cons.prems(1), of fd] by auto
  have "set fds \<subseteq> fst ` {x \<in> pinned. fst x \<noteq> fd}" using Cons.prems(2,3) by force
  from Cons.IH [OF d(2) _ this] Cons.prems(2) d(1) show ?case by (simp add: eff_bind_def)
qed

lemma sweepIdleConnections_ok:
  assumes px: "posix_ok (e_os env) (v_opened v) (v_watched v)" and keep: "v_keep v = {}"
    and inv: "winv v {} st"
  shows "\<exists>st'. sweepIdleConnections env st = (st', Inr ()) \<and> winv v {} st'"
proof -
  obtain k' fds where c: "collect_idle (e_os env) (conns (snd st)) (wk_active (fst st)) (kern (snd st)) =
      (k', fds)" by fastforce
  have same: "tables_kept v (kern (snd st)) k'"
    using collect_idle_same [OF px, of "kern (snd st)" "conns (snd st)" "wk_active (fst st)"] c by simp
  have "winv v (set (wk_active (fst st))) (fst st, (snd st)\<lparr>kern := k'\<rparr>)"
    using inv same proc_inv_kern [OF winv_proc [OF inv] same] by (auto simp: winv_def same_tables_def)
  from disconnect_all_ok [OF px keep this, of fds]
    collect_idle_subset [of "e_os env" "conns (snd st)" "wk_active (fst st)" "kern (snd st)"]
    collect_idle_distinct [of "wk_active (fst st)" "e_os env" "conns (snd st)" "kern (snd st)"] c inv
  show ?thesis by (simp add: sweepIdleConnections_def winv_def)
qed

lemma winv_keep: "winv (v\<lparr>v_keep := K\<rparr>) pinned st \<Longrightarrow> K' \<subseteq> K \<Longrightarrow> winv (v\<lparr>v_keep := K'\<rparr>) pinned st"
  by (auto simp: winv_def proc_inv_def)

text \<open>Reading from a peer ends: \<open>avail s\<close> are the bytes that have arrived.\<close>

lemma handleClientData_returns:
  fixes env :: "('j, 's, 'h, 'w, 'k) env"
  assumes "ssl_read_ok (e_ssl env) avail"
  shows "\<exists>st' r. handleClientData env fd st = Some (st', r)"
proof (cases "map_of (wk_active (fst st)) fd")
  case None
  then show ?thesis by (simp add: handleClientData_def)
next
  case (Some cid)
  have rd: "conn_read (e_ssl env) c \<noteq> None" for c :: "('j, 's, 'h) ClientConnection"
    using conn_read_returns [OF assms, of c] by auto
  obtain st1 h where h: "handshake env fd cid st = (st1, h)" by fastforce
  have "client_body env fd cid st \<noteq> None"
    by (cases h; cases "conns (snd st1) cid")
      (simp_all add: client_body_def h rd del: not_None_eq split: bool.splits)
  then have "handleClientData env fd st \<noteq> None" using Some by (simp add: handleClientData_def)
  then show ?thesis by auto
qed

lemma dispatch_event_ok:
  assumes px: "posix_ok (e_os env) (v_opened v) (v_watched v)"
    and calm: "calm_kernel (e_os env) (v_opened v)" and ssl: "ssl_neutral env v"
    and fin: "finite_backlog env backlog" and rd: "ssl_read_ok (e_ssl env) avail"
    and inv: "winv (v\<lparr>v_keep := K\<rparr>) {} st" and ev: "ev_fd ev \<noteq> socket_fd (v_socket v) \<longrightarrow> ev_fd ev \<in> K"
  shows "\<exists>st'. dispatch_event env ev st = Some (st', Inr ()) \<and> winv (v\<lparr>v_keep := K - {ev_fd ev}\<rparr>) {} st'"
proof -
  let ?v = "v\<lparr>v_keep := K - {ev_fd ev}\<rparr>"
  have inv': "winv ?v {} st" using inv by (rule winv_keep) auto
  have px': "posix_ok (e_os env) (v_opened ?v) (v_watched ?v)" using px by simp
  have s: "wk_socket (fst st) = v_socket v" using inv by (simp add: winv_def)
  have acc: "\<exists>st'. handleNewConnection env st = Some (st', Inr ()) \<and> winv ?v {} st'"
    using handleNewConnection_ok [of env ?v, OF px' _ _ inv' fin] calm ssl
    by (simp add: ssl_neutral_def)
  have dat: "\<exists>st'. handleClientData env (ev_fd ev) st = Some (st', Inr ()) \<and> winv ?v {} st'"
    using handleClientData_returns [OF rd, of "ev_fd ev" st]
      handleClientData_ok [OF px' _ inv', of "ev_fd ev"] by fastforce
  show ?thesis
  proof (cases "ev_fd ev = socket_fd (v_socket v)")
    case True
    with acc s show ?thesis by (simp add: dispatch_event_def)
  next
    case False
    with ev inv have "ev_fd ev \<in> v_watched ?v (kern (snd st)) (epoll_fd (v_epoll ?v))"
      by (auto simp: winv_def)
    then obtain st' where "disconnectClient env (ev_fd ev) st = (st', Inr ())" "winv ?v {} st'"
      using disconnectClient_ok [OF px' inv', of "ev_fd ev"] by (auto elim: winv_weaken)
    with False s dat inv' show ?thesis by (cases st, cases st') (auto simp: dispatch_event_def)
  qed
qed

lemma dispatch_events_ok:
  assumes px: "posix_ok (e_os env) (v_opened v) (v_watched v)"
    and calm: "calm_kernel (e_os env) (v_opened v)" and ssl: "ssl_neutral env v"
    and fin: "finite_backlog env backlog" and rd: "ssl_read_ok (e_ssl env) avail"
  shows "winv (v\<lparr>v_keep := K\<rparr>) {} st \<Longrightarrow> distinct (map ev_fd evs) \<Longrightarrow> ev_fd ` set evs \<subseteq> K \<Longrightarrow>
    \<exists>st'. dispatch_events env evs st = Some (st', Inr ()) \<and> winv (v\<lparr>v_keep := {}\<rparr>) {} st'"
proof (induction evs arbitrary: K st)
  case Nil
  from winv_keep [OF Nil(1), of "{}"] show ?case by simp
next
  case (Cons ev evs)
  then obtain st1 where e: "dispatch_event env ev st = Some (st1, Inr ())"
    and inv: "winv (v\<lparr>v_keep := K - {ev_fd ev}\<rparr>) {} st1"
    using dispatch_event_ok [OF px calm ssl fin rd Cons.prems(1), of ev] by auto
  have "ev_fd ` set evs \<subseteq> K - {ev_fd ev}" using Cons.prems(2,3) by (auto simp: image_iff)
  from Cons.IH [OF inv _ this] Cons.prems(2) e show ?case by simp
qed

lemma run_iteration_ok:
  assumes px: "posix_ok (e_os env) (v_opened v) (v_watched v)"
    and calm: "calm_kernel (e_os env) (v_opened v)" and ssl: "ssl_neutral env v"
    and fin: "finite_backlog env backlog" and rd: "ssl_read_ok (e_ssl env) avail"
    and keep: "v_keep v = {}" and inv: "winv v {} st"
  shows "\<exists>st'. run_iteration env st = Some (st', Inr ()) \<and> winv v {} st'"
proof -
  have v: "v\<lparr>v_keep := {}\<rparr> = v" using keep by simp
  have ep: "wk_epoll (fst st) = v_epoll v" using inv by (simp add: winv_def)
  have "\<not> isl (snd (epoll_wait (e_os env) (v_epoll v) 1000 (kern (snd st))))"
    using calm by (simp add: calm_kernel_def)
  then obtain k' evs where w: "epoll_wait (e_os env) (v_epoll v) 1000 (kern (snd st)) = (k', Inr evs)"
    by (cases "epoll_wait (e_os env) (v_epoll v) 1000 (kern (snd st))") (auto simp: not_isl_iff)
  note evs = epoll_wait_events [OF px w]
  let ?K = "ev_fd ` set evs" and ?st = "(fst st, (snd st)\<lparr>kern := k'\<rparr>)"
  have "winv (v\<lparr>v_keep := ?K\<rparr>) {} ?st"
    using inv evs(1,3) proc_inv_kern [OF winv_proc [OF inv] evs(1)]
    by (auto simp: winv_def same_tables_def proc_inv_def)
  from dispatch_events_ok [OF px calm ssl fin rd this evs(2)]
  obtain st1 where d: "dispatch_events env evs ?st = Some (st1, Inr ())" and i1: "winv v {} st1"
    by (auto simp: v)
  from sweepIdleConnections_ok [OF px keep i1] w d show ?thesis
    by (auto simp: run_iteration_def on_process_def on_kernel_def ep)
qed

section \<open>Tasks\<close>

text \<open>
  A task settles when it ends without closing the descriptor: an HTTP/1.1 or WebSocket task that
  re-arms it, and any HTTP/2 task. WebSocket handlers work on the connection they are given through
  its operations, so they do not replace its socket.
\<close>

fun settled :: "('j, 's, 'h, 'w, 'k) env \<Rightarrow> 'j task \<Rightarrow> ('j, 's, 'h, 'w, 'k) process \<Rightarrow> bool" where
  "settled env (HttpTask ep cid req fd keepAlive) p =
     (snd (http_task_body env ep cid req fd keepAlive p) = Inr True)"
| "settled env (WsTask ep cid frame fd) p = (snd (ws_task_body env ep cid frame fd p) = Inr True)"
| "settled env (H2Task cid sid req) p = True"

definition ws_handlers_keep :: "('j, 's, 'h, 'w, 'k) env \<Rightarrow> bool" where
  "ws_handlers_keep env \<longleftrightarrow>
     (\<forall>path h cid c frame w. ws_routes (e_router env) path = Some h \<longrightarrow>
        cc_socket (snd (fst (h cid c frame w))) = cc_socket c)"

definition task_inv ::
  "('k, 'z) view_scheme \<Rightarrow> (int \<times> int \<times> nat) list \<Rightarrow> 'j task list \<Rightarrow> size_t \<Rightarrow>
   ('j, 's, 'h, 'w, 'k) process \<Rightarrow> bool" where
  "task_inv v E ts n p \<longleftrightarrow> proc_inv v E [] p \<and> tasks p = ts \<and> active_count p = n"

lemma task_triple_kernel:
  assumes "\<And>k. tables_kept v k (fst (m k))"
  shows "triple (task_inv v E ts n) (on_kernel m) (\<lambda>_. task_inv v E ts n) (task_inv v E ts n)"
proof (rule triple_keeps, goal_cases)
  case (1 p)
  have "tables_kept v (kern p) (fst (m (kern p)))" by (rule assms)
  with 1 show ?case
    by (auto simp: on_kernel_def task_inv_def split: prod.splits intro!: proc_inv_kern)
qed

lemma task_triple_conn:
  assumes "\<And>c. cc_socket (fst (m c)) = cc_socket c"
  shows "triple (task_inv v E ts n) (on_conn cid m) (\<lambda>_. task_inv v E ts n) (task_inv v E ts n)"
proof (rule triple_keeps, goal_cases)
  case (1 p)
  show ?case
  proof (cases "conns p cid")
    case None
    with 1 show ?thesis by (simp add: on_conn_def)
  next
    case (Some c)
    with 1 have "proc_inv v E [] (p\<lparr>conns := (conns p)(cid \<mapsto> fst (m c))\<rparr>)"
      by (intro proc_inv_conn [OF _ Some assms]) (simp add: task_inv_def)
    with 1 Some show ?thesis by (auto simp: on_conn_def task_inv_def split: prod.splits)
  qed
qed

lemma task_triple_handler:
  "triple (task_inv v E ts n) (run_handler env req) (\<lambda>_. task_inv v E ts n) (task_inv v E ts n)"
  by (rule triple_keeps) (auto simp: run_handler_def task_inv_def split: prod.splits sum.splits)

lemmas task_triples = triple_seq task_triple_kernel task_triple_conn task_triple_handler

lemma task_triple_http:
  assumes px: "posix_ok (e_os env) (v_opened v) (v_watched v)"
  shows "triple (task_inv v E ts n) (http_task_body env ep cid req fd keepAlive)
    (\<lambda>_. task_inv v E ts n) (task_inv v E ts n)"
  unfolding http_task_body_def
  by (intro task_triples triple_get triple_if triple_return now_same [OF px] epoll_modify_same(1) [OF px])
    (simp_all add: socket_kept)

lemma task_triple_h2:
  assumes px: "posix_ok (e_os env) (v_opened v) (v_watched v)"
  shows "triple (task_inv v E ts n) (h2_task_body env cid sid req) (\<lambda>_. task_inv v E ts n) (task_inv v E ts n)"
  unfolding h2_task_body_def
  by (intro task_triples now_same [OF px]) (simp add: socket_kept)

lemma task_triple_ws:
  assumes px: "posix_ok (e_os env) (v_opened v) (v_watched v)" and ws: "ws_handlers_keep env"
  shows "triple (task_inv v E ts n) (ws_task_body env ep cid frame fd)
    (\<lambda>_. task_inv v E ts n) (task_inv v E ts n)"
  unfolding ws_task_body_def
proof (intro triple_seq triple_get triple_if triple_return task_triple_kernel epoll_modify_same(1) [OF px],
    goal_cases)
  case 1
  show ?case
  proof (rule triple_keeps, goal_cases)
    case (1 p)
    show ?case
    proof (cases "conns p cid")
      case None
      with 1 show ?thesis by simp
    next
      case (Some c)
      obtain w' c' r where h: "handleWs (e_router env) cid c frame (world p) = ((w', c'), r)"
        by (metis surj_pair)
      have "cc_socket c' = cc_socket c"
      proof (cases "ws_routes (e_router env) (ws_path c)")
        case None
        with h show ?thesis by (simp add: handleWs_def)
      next
        case (Some g)
        with h have "g cid c frame (world p) = ((w', c'), r)" by (simp add: handleWs_def)
        moreover have "cc_socket (snd (fst (g cid c frame (world p)))) = cc_socket c"
          using ws Some by (simp add: ws_handlers_keep_def)
        ultimately show ?thesis by simp
      qed
      moreover have "conns (p\<lparr>world := w'\<rparr>) cid = Some c" using Some by simp
      moreover have "proc_inv v E [] (p\<lparr>world := w'\<rparr>)" using 1 by (simp add: task_inv_def)
      ultimately have "proc_inv v E [] ((p\<lparr>world := w'\<rparr>)\<lparr>conns := (conns (p\<lparr>world := w'\<rparr>))(cid \<mapsto> c')\<rparr>)"
        by (intro proc_inv_conn)
      with 1 Some h show ?thesis by (simp add: task_inv_def)
    qed
  qed
qed simp_all

lemma run_closure_ok:
  assumes px: "posix_ok (e_os env) (v_opened v) (v_watched v)" and ws: "ws_handlers_keep env"
    and t: "settled env t p" and inv: "task_inv v E ts n p"
  shows "task_inv v E ts n (run_closure env t p)"
proof (cases t)
  case (HttpTask ep cid req fd ka)
  with t tripleD(1) [OF task_triple_http [OF px] inv, of ep cid req fd ka _ True] show ?thesis
    by (cases "http_task_body env ep cid req fd ka p") (simp add: close_unless_rearmed_def)
next
  case (WsTask ep cid frame fd)
  with t tripleD(1) [OF task_triple_ws [OF px ws] inv, of ep cid frame fd _ True] show ?thesis
    by (cases "ws_task_body env ep cid frame fd p") (simp add: close_unless_rearmed_def)
next
  case (H2Task cid sid req)
  obtain p' r where b: "h2_task_body env cid sid req p = (p', r)" by fastforce
  with tripleD [OF task_triple_h2 [OF px] inv, of cid sid req p'] H2Task show ?thesis
    by (cases r) auto
qed

lemma count_remove1: "x \<in> set xs \<Longrightarrow>
    count_list (map f xs) y = count_list (map f (remove1 x xs)) y + (if y = f x then 1 else 0)"
proof (induction xs)
  case (Cons a xs)
  then show ?case by (cases "a = x") simp_all
qed simp

lemma run_task_ok:
  assumes px: "posix_ok (e_os env) (v_opened v) (v_watched v)" and ws: "ws_handlers_keep env"
    and t: "t \<in> set (tasks p)" "settled env t p" and inv: "proc_inv v E [] p"
  shows "proc_inv v E [] (run_task env t p)" "active_count (run_task env t p) = active_count p"
proof -
  let ?q = "run_closure env t p"
  have q: "task_inv v E (tasks p) (active_count p) ?q"
    using run_closure_ok [OF px ws t(2)] inv by (simp add: task_inv_def)
  have pq: "proc_inv v E [] ?q" and tq: "tasks ?q = tasks p" using q by (simp_all add: task_inv_def)
  have "proc_inv v E [task_conn t] (?q\<lparr>tasks := remove1 t (tasks p)\<rparr>)"
  proof (rule proc_invI, goal_cases)
    case (2 cid)
    show ?case using proc_invD(3) [OF pq, of cid] count_remove1 [OF t(1), of task_conn cid] tq by simp
  qed (use proc_invD [OF pq] in simp_all)
  from proc_inv_release [OF px this] q
  show "proc_inv v E [] (run_task env t p)" "active_count (run_task env t p) = active_count p"
    by (simp_all add: run_task_def task_inv_def)
qed

section \<open>Starting and ending a worker\<close>

lemma setup_same:
  assumes px: "posix_ok os opened watched"
  shows "same_tables opened watched k (fst (setReuseAddress os s k))"
    "same_tables opened watched k (fst (setReusePort os s k))"
    "same_tables opened watched k (fst (socket_bind os s port k))"
    "same_tables opened watched k (fst (socket_listen os s n k))"
  using configurations_same [OF px, of _ s k] by (auto simp: configurations_def)

lemma eff_bind_same:
  assumes "eff_bind m f k = (k', Inr y)" and "\<And>k. same_tables opened watched k (fst (m k))"
  obtains k1 x where "m k = (k1, Inr x)" "same_tables opened watched k k1" "f x k1 = (k', Inr y)"
  using assms(1) assms(2) [of k] by (auto simp: eff_bind_eq_Inr)

lemma eff_catch_rethrow:
  "eff_catch m (\<lambda>e. eff_bind (eff_modify g) (\<lambda>_. eff_throw e)) k = (k', Inr x) \<longleftrightarrow> m k = (k', Inr x)"
  by (auto simp: eff_defs split: prod.splits sum.splits)

lemma new_Epoll_Inr:
  assumes "posix_ok os opened watched" "new_Epoll os k = (k', Inr ep)"
  shows "epoll_fd ep \<notin> opened k" "opened k' = insert (epoll_fd ep) (opened k)" "watched k' = watched k"
    "0 \<le> epoll_fd ep"
proof -
  obtain fd where c: "sys_epoll_create os k = (k', fd)" "fd \<noteq> - 1" "ep = \<lparr>epoll_fd = fd\<rparr>"
    using assms(2) by (auto simp: new_Epoll_def checked_def eff_defs split: prod.splits if_splits)
  have "allocates opened watched (sys_epoll_create os)" using assms(1) by (simp add: posix_ok_def)
  from allocatesD(2) [OF this c(1,2)] c(3)
  show "epoll_fd ep \<notin> opened k" "opened k' = insert (epoll_fd ep) (opened k)" "watched k' = watched k"
    "0 \<le> epoll_fd ep" by simp_all
qed

lemma new_Worker_Inr:
  assumes px: "posix_ok os opened watched" and run: "new_Worker os port k = (k', Inr w)"
  shows "wk_active w = []" "socket_fd (wk_socket w) \<notin> opened k" "epoll_fd (wk_epoll w) \<notin> opened k"
    "socket_fd (wk_socket w) \<noteq> epoll_fd (wk_epoll w)"
    "opened k' = {socket_fd (wk_socket w), epoll_fd (wk_epoll w)} \<union> opened k"
    "watched k e \<subseteq> watched k' e" "0 \<le> socket_fd (wk_socket w)" "0 \<le> epoll_fd (wk_epoll w)"
proof -
  obtain k1 s where c: "create_tcp os k = (k1, Inr s)"
    using run unfolding new_Worker_def by (auto simp: eff_bind_eq_Inr)
  from px c obtain fd where s: "s = Socket_of fd" "fd \<notin> opened k" "opened k1 = insert fd (opened k)"
    "watched k1 = watched k" "0 \<le> fd" by (cases rule: create_tcp_cases) auto
  obtain k2 ep where ep: "new_Epoll os k1 = (k2, Inr ep)"
    and rest: "eff_bind (setReuseAddress os s) (\<lambda>_.
               eff_bind (setReusePort os s) (\<lambda>_.
               eff_bind (socket_bind os s (word_of_int port)) (\<lambda>_.
               eff_bind (setNonBlocking os s) (\<lambda>_.
               eff_bind (socket_listen os s 128) (\<lambda>_.
               eff_bind (epoll_add os ep (socket_fd s) (EPOLLIN OR EPOLLET)) (\<lambda>_.
                 eff_return \<lparr>wk_socket = s, wk_epoll = ep, wk_active = []\<rparr>)))))) k2 = (k', Inr w)"
    using run c unfolding new_Worker_def eff_catch_rethrow eff_bind_eq_Inr by auto
  note e = new_Epoll_Inr [OF px ep]
  obtain k3 where a: "same_tables opened watched k2 k3"
    "eff_bind (epoll_add os ep (socket_fd s) (EPOLLIN OR EPOLLET)) (\<lambda>_.
        eff_return \<lparr>wk_socket = s, wk_epoll = ep, wk_active = []\<rparr>) k3 = (k', Inr w)"
    using rest
    by (elim eff_bind_same [OF _ setup_same(1) [OF px]] eff_bind_same [OF _ setup_same(2) [OF px]]
        eff_bind_same [OF _ setup_same(3) [OF px]] eff_bind_same [OF _ setNonBlocking_same [OF px]]
        eff_bind_same [OF _ setup_same(4) [OF px]]) (blast intro: same_tables_trans)
  have w: "w = \<lparr>wk_socket = s, wk_epoll = ep, wk_active = []\<rparr>"
    and add: "epoll_add os ep fd (EPOLLIN OR EPOLLET) k3 = (k', Inr ())"
    using a(2) s(1) by (auto simp: eff_bind_eq_Inr eff_return_def Socket_of_def socket_fd_def)
  have k3: "opened k3 = {epoll_fd ep, fd} \<union> opened k" "watched k3 = watched k"
    using a(1) e s by (auto simp: same_tables_def)
  have k': "opened k' = opened k3" "watched k3 x \<subseteq> watched k' x" for x
  proof -
    have "fd \<in> opened k3" using k3 by simp
    moreover have "fd \<notin> watched k3 (epoll_fd ep)" using posix_ok_watched [OF px, of k] k3 s by auto
    ultimately obtain k4 where "epoll_add os ep fd (EPOLLIN OR EPOLLET) k3 = (k4, Inr ())"
      "opened k4 = opened k3" "watched k4 = (watched k3)(epoll_fd ep := insert fd (watched k3 (epoll_fd ep)))"
      using epoll_add_ok [OF px] by metis
    with add show "opened k' = opened k3" "watched k3 x \<subseteq> watched k' x" by auto
  qed
  show "wk_active w = []" "socket_fd (wk_socket w) \<notin> opened k" "epoll_fd (wk_epoll w) \<notin> opened k"
    "socket_fd (wk_socket w) \<noteq> epoll_fd (wk_epoll w)"
    "opened k' = {socket_fd (wk_socket w), epoll_fd (wk_epoll w)} \<union> opened k"
    "watched k e \<subseteq> watched k' e" "0 \<le> socket_fd (wk_socket w)" "0 \<le> epoll_fd (wk_epoll w)"
    using w s e k3 k' by (auto simp: Socket_of_def socket_fd_def)
qed

text \<open>A larger kernel with more reserved descriptors, and the release of a worker's table.\<close>

lemma proc_inv_grow:
  assumes inv: "proc_inv v E X p" and R: "R \<inter> v_opened v (kern p) = {}"
    and k': "v_opened v k' = R \<union> v_opened v (kern p)" "\<And>e. v_watched v (kern p) e \<subseteq> v_watched v k' e"
  shows "proc_inv (v\<lparr>v_reserved := R \<union> v_reserved v\<rparr>) E X (p\<lparr>kern := k'\<rparr>)"
proof (rule proc_invI, goal_cases)
  case (1 e fd cid)
  then show ?case using proc_invD(1,2) [OF inv 1] k'(2) by auto
next
  case (4 cid c)
  then show ?case using proc_invD(5-7) [OF inv, of cid c] R k' by auto
next
  case 7
  show ?case using proc_invD(10) [OF inv] k' by auto
next
  case (8 fd)
  then show ?case using proc_invD(11) [OF inv, of fd] k' by auto
qed (use proc_invD [OF inv] in simp_all)

lemma proc_inv_release_table:
  assumes px: "posix_ok os (v_opened v) (v_watched v)"
  shows "proc_inv v (map (\<lambda>(fd, cid). (e, fd, cid)) al @ others) [] p \<Longrightarrow>
    proc_inv v others [] (fold (\<lambda>(fd, cid). release os cid) al p)"
proof (induction al arbitrary: p)
  case (Cons a al)
  obtain fd cid where a: "a = (fd, cid)" by fastforce
  let ?E = "map (\<lambda>(fd, cid). (e, fd, cid)) al @ others"
  have inv: "proc_inv v ((e, fd, cid) # ?E) [] p" using Cons.prems by (simp add: a)
  have "proc_inv v ?E [cid] p"
  proof (rule proc_invI, goal_cases)
    case (1 e f cid')
    then show ?case using proc_invD(1,2) [OF inv, of e f cid'] by simp
  next
    case (2 cid')
    show ?case using proc_invD(3) [OF inv, of cid'] by (simp add: entry_conn_def)
  qed (use proc_invD [OF inv] in simp_all)
  from Cons.IH [OF proc_inv_release [OF px this]] show ?case by (simp add: a)
qed simp

lemma proc_inv_shrink:
  assumes px: "posix_ok os (v_opened v) (v_watched v)" and inv: "proc_inv v E X p"
    and fd: "fd \<in> v_reserved v"
  shows "proc_inv (v\<lparr>v_reserved := v_reserved v - {fd}\<rparr>) E X (p\<lparr>kern := fst (sys_close os fd (kern p))\<rparr>)"
proof (rule proc_invI, goal_cases)
  case (1 e f cid)
  obtain c where c: "conns p cid = Some c" "cc_socket c = f" using proc_invD(2) [OF inv 1] by auto
  with proc_invD(6) [OF inv c(1)] fd have "f \<noteq> fd" by auto
  with c proc_invD(1) [OF inv 1] show ?case by (simp add: closed_tables [OF px])
next
  case (4 cid c)
  then show ?case using proc_invD(5-7) [OF inv, of cid c] fd by (auto simp: closed_tables [OF px])
next
  case 7
  show ?case using proc_invD(10) [OF inv] by (auto simp: closed_tables [OF px])
next
  case (8 f)
  then show ?case using proc_invD(11) [OF inv, of f] by (auto simp: closed_tables [OF px])
qed (use proc_invD [OF inv] in simp_all)

end
