(* ===== verification/Request_Service.thy ===== *)
theory Request_Service
  imports Message_Streams Tcp_Safety
begin

text \<open>
  From the wire to the answer, \<open>handleClientData\<close> of \<^verbatim>\<open>src/src/network/TcpServer.cpp\<close> and the closures it
  hands to the pool: the bytes the TLS layer holds are read into the buffer and parsed; a request becomes
  a task, which runs the router and writes the response; bytes that are no request are answered with 400
  and the client is disconnected; an upgrade is answered with 101; a message on an upgraded connection
  becomes a task for the handler of its path.
\<close>

section \<open>The transport\<close>

text \<open>
  A TLS connection that is open in both directions: \<open>avail\<close> are the bytes that can be read, \<open>sent\<close> those
  that were written. Reading writes nothing, writing makes progress, and when there is nothing to read
  the peer has not closed.
\<close>

definition transport_ok :: "'s openssl \<Rightarrow> ('s \<Rightarrow> string) \<Rightarrow> ('s \<Rightarrow> string) \<Rightarrow> bool" where
  "transport_ok api avail sent \<longleftrightarrow> ssl_read_ok api avail \<and> ssl_write_ok api sent \<and>
     (\<forall>s d. d \<noteq> [] \<longrightarrow> 0 < fst (SSL_write api s d)) \<and>
     (\<forall>s. sent (snd (snd (SSL_read api s 8192))) = sent s) \<and>
     (\<forall>s n. avail s = [] \<longrightarrow> n \<le> 0 \<longrightarrow> read_verdict (SSL_get_error api s n) = Inr True)"

lemma conn_read_sent:
  assumes "\<forall>s. sent (snd (snd (SSL_read api s 8192))) = sent s"
    and run: "conn_read api c = Some y"
  shows "sent (cc_ssl (fst y)) = sent (cc_ssl c)"
proof -
  have "api = api \<longrightarrow> sent (cc_ssl (fst y)) = sent (cc_ssl c)"
  proof (rule conn_read.raw_induct [where P = "\<lambda>api' c y. api' = api \<longrightarrow> sent (cc_ssl (fst y)) = sent (cc_ssl c)", OF _ run],
      goal_cases)
    case (1 f api' c y)
    show ?case
    proof
      assume api: "api' = api"
      obtain n d s where r: "SSL_read api (cc_ssl c) 8192 = (n, d, s)" using prod_cases3 by blast
      have "sent s = sent (cc_ssl c)" using assms(1) r by (metis snd_conv)
      with 1 r api show "sent (cc_ssl (fst y)) = sent (cc_ssl c)" by (fastforce split: if_splits)
    qed
  qed
  then show ?thesis by simp
qed

lemma conn_read_open:
  assumes "transport_ok api avail sent"
  obtains s where "conn_read api c =
      Some (c\<lparr>cc_ssl := s, readBuffer := \<lparr>buffer = conn_data c @ avail (cc_ssl c)\<rparr>\<rparr>, Inr True)"
    "avail s = []" "sent s = sent (cc_ssl c)"
proof -
  have t: "ssl_read_ok api avail" "\<forall>s. sent (snd (snd (SSL_read api s 8192))) = sent s"
    "\<forall>s n. avail s = [] \<longrightarrow> n \<le> 0 \<longrightarrow> read_verdict (SSL_get_error api s n) = Inr True"
    using assms by (simp_all add: transport_ok_def)
  obtain n s b where r: "conn_read api c =
      Some (c\<lparr>cc_ssl := s, readBuffer := b\<rparr>, read_verdict (SSL_get_error api s n))"
    "rb_data b = rb_data (readBuffer c) @ avail (cc_ssl c)" "avail s = []" "n \<le> 0"
    using conn_read_returns [OF t(1)] by blast
  have "sent s = sent (cc_ssl c)" using conn_read_sent [OF t(2) r(1)] by simp
  moreover have "b = \<lparr>buffer = conn_data c @ avail (cc_ssl c)\<rparr>"
    using r(2) by (cases b) (simp add: rb_data_def conn_data_def)
  ultimately show thesis using r t(3) by (intro that [of s]) simp_all
qed

section \<open>From the wire to a task\<close>

definition http_task :: "Epoll \<Rightarrow> nat \<Rightarrow> int \<Rightarrow> 'j HttpRequest \<Rightarrow> 'j task" where
  "http_task ep cid fd req = HttpTask ep cid req fd (keep_alive req)"

text \<open>A connection on which the next thing to come is an HTTP/1.1 request.\<close>

definition speaks_http :: "('j, 's, 'h) ClientConnection \<Rightarrow> bool" where
  "speaks_http c \<longleftrightarrow> handshakeComplete c \<and> \<not> is_http2 c \<and> \<not> is_websocket c \<and> expects_request c"

lemma handshake_done:
  assumes "conns p cid = Some c" "handshakeComplete c" "sys_now (e_os env) (kern p) = (k, t)"
  shows "handshake env fd cid (w, p) =
    ((w, p\<lparr>kern := k, conns := (conns p)(cid \<mapsto> updateActivity t c)\<rparr>), Inr True)"
  using assms
  by (simp add: handshake_def eff_bind_def eff_return_def on_process_def on_kernel_def now_def on_conn_def
      updateActivity_def)

text \<open>A connection after \<open>read()\<close>, and the state with which the loop of \<open>handleClientData\<close> is entered.\<close>

definition fed :: "int \<Rightarrow> 's \<Rightarrow> string \<Rightarrow> ('j, 's, 'h) ClientConnection \<Rightarrow> ('j, 's, 'h) ClientConnection" where
  "fed t s d c = c\<lparr>lastActivity := t, cc_ssl := s, readBuffer := \<lparr>buffer = d\<rparr>\<rparr>"

lemma fed_simps [simp]:
  "conn_data (fed t s d c) = d" "cc_ssl (fed t s d c) = s" "parser (fed t s d c) = parser c"
  "is_websocket (fed t s d c) = is_websocket c" "speaks_http (fed t s d c) = speaks_http c"
  "expects_request (fed t s d c) = expects_request c"
  by (simp_all add: fed_def conn_data_def rb_data_def speaks_http_def expects_request_def)

lemma handleClientData_turn:
  assumes tr: "transport_ok (e_ssl env) avail sent" and px: "posix_ok (e_os env) opened watched"
    and c: "map_of (wk_active w) fd = Some cid" "conns p cid = Some c" "handshakeComplete c"
  obtains s k t where "sent s = sent (cc_ssl c)" "same_tables opened watched (kern p) k"
    "handleClientData env fd (w, p) =
      (case (if is_http2 c then h2_turn env fd cid else data_loop env fd cid)
         (w, p\<lparr>kern := k, conns := (conns p)(cid \<mapsto> fed t s (conn_data c @ avail (cc_ssl c)) c)\<rparr>) of
         (st', r) \<Rightarrow> Some (case r of Inl e \<Rightarrow> disconnectClient env fd st' | Inr _ \<Rightarrow> (st', Inr ())))"
proof -
  obtain k t where now: "sys_now (e_os env) (kern p) = (k, t)" by fastforce
  have same: "same_tables opened watched (kern p) k"
    using now_same [OF px, of "kern p"] now by (simp add: now_def)
  let ?c = "updateActivity t c"
  obtain s where r: "conn_read (e_ssl env) ?c =
      Some (?c\<lparr>cc_ssl := s, readBuffer := \<lparr>buffer = conn_data ?c @ avail (cc_ssl ?c)\<rparr>\<rparr>, Inr True)"
    "sent s = sent (cc_ssl ?c)" by (rule conn_read_open [OF tr])
  have "client_body env fd cid (w, p) = Some ((if is_http2 c then h2_turn env fd cid else data_loop env fd cid)
        (w, p\<lparr>kern := k, conns := (conns p)(cid \<mapsto> fed t s (conn_data c @ avail (cc_ssl c)) c)\<rparr>))"
    using r(1) c(2,3)
    by (simp add: client_body_def handshake_done [OF c(2,3) now] after_read_def eff_bind_def on_process_def
        on_conn_def updateActivity_def conn_data_def fed_def)
  with r(2) c(1) same show thesis
    by (intro that [of s k t]) (simp_all add: handleClientData_def updateActivity_def split: prod.splits)
qed

lemma handleClientData_reads:
  assumes "transport_ok (e_ssl env) avail sent" "posix_ok (e_os env) opened watched"
    "map_of (wk_active w) fd = Some cid" "conns p cid = Some c" "handshakeComplete c" and h: "\<not> is_http2 c"
  obtains s k t where "sent s = sent (cc_ssl c)" "same_tables opened watched (kern p) k"
    "handleClientData env fd (w, p) =
      (case data_loop env fd cid (w, p\<lparr>kern := k, conns := (conns p)(cid \<mapsto> fed t s (conn_data c @ avail (cc_ssl c)) c)\<rparr>) of
         (st', r) \<Rightarrow> Some (case r of Inl e \<Rightarrow> disconnectClient env fd st' | Inr _ \<Rightarrow> (st', Inr ())))"
  by (rule handleClientData_turn [OF assms(1-5)]) (use h that in simp)

lemma data_loop_http:
  "conns p cid = Some c \<Longrightarrow> \<not> is_websocket c \<Longrightarrow> data_loop env fd cid (w, p) = http_turn env fd cid (w, p)"
  by (simp add: data_loop.simps)

lemma http_turn_wire:
  assumes v: "wire_valid wr" and c: "conns p cid = Some c" "conn_data c = wire_bytes wr @ x" "expects_request c"
    and up: "\<not> wants_upgrade (wire_view wr :: 'j HttpRequest)"
  shows "http_turn env fd cid (w, p :: ('j, 's, 'h, 'w, 'k) process) =
    ((w, enqueue (http_task (wk_epoll w) cid fd (wire_view wr))
      (p\<lparr>conns := (conns p)(cid \<mapsto> c\<lparr>readBuffer := \<lparr>buffer = x\<rparr>\<rparr>), total_requests := total_requests p + 1\<rparr>)), Inr ())"
proof -
  obtain q where q: "take_request c = (c\<lparr>parser := q\<rparr>, Inr (wire_view wr, Complete))"
    "consumeParsedRequest (c\<lparr>parser := q\<rparr>) = (c\<lparr>readBuffer := \<lparr>buffer = x\<rparr>\<rparr>, Inr ())"
    using take_wire_request [OF v c(2,3)] by blast
  show ?thesis
    using q up c(1)
    by (simp add: http_turn_def dispatch_turn_def http_task_def eff_bind_def eff_modify_def eff_get_def
        on_process_def on_conn_def)
qed

section \<open>From a task to the answer\<close>

definition answer :: "'j HttpRequest \<Rightarrow> HttpResponse \<Rightarrow> string" where
  "answer req res =
     serialize (res_setHeader res ''Connection'' (if keep_alive req then ''keep-alive'' else ''close''))"

lemma http_task_sends:
  assumes tr: "transport_ok (e_ssl env) avail sent" and c: "conns p cid = Some c"
    and rt: "router_handle (e_router env) req (world p) = (w', Inr (req', res))"
    and px: "posix_ok (e_os env) opened watched"
  obtains s k t where "sent s = sent (cc_ssl c) @ answer req res" "same_tables opened watched (kern p) k"
    "http_task_body env ep cid req fd (keep_alive req) p =
      (let p' = p\<lparr>kern := k, world := w', conns := (conns p)(cid \<mapsto> c\<lparr>cc_ssl := s, lastActivity := t\<rparr>)\<rparr> in
       if keep_alive req \<and> running p
       then eff_bind (on_kernel (epoll_modify (e_os env) ep fd REARM)) (\<lambda>_. eff_return True) p'
       else (p', Inr False))"
proof -
  obtain k1 t1 where 1: "sys_now (e_os env) (kern p) = (k1, t1)" by fastforce
  obtain k2 t2 where 2: "sys_now (e_os env) k1 = (k2, t2)" by fastforce
  obtain k3 t3 where 3: "sys_now (e_os env) k2 = (k3, t3)" by fastforce
  have same: "same_tables opened watched (kern p) k3"
    using now_same [OF px, of "kern p"] now_same [OF px, of k1] now_same [OF px, of k2] 1 2 3
    by (auto simp: now_def same_tables_def)
  obtain s where s: "conn_send_loop (e_ssl env) (cc_ssl c) (answer req res) = (s, Inr ())"
    "sent s = sent (cc_ssl c) @ answer req res"
    using conn_send_loop_all [of "e_ssl env" sent "cc_ssl c" "answer req res"] tr
    by (auto simp: transport_ok_def)
  have "http_task_body env ep cid req fd (keep_alive req) p =
      (let p' = p\<lparr>kern := k3, world := w', conns := (conns p)(cid \<mapsto> c\<lparr>cc_ssl := s, lastActivity := t3\<rparr>)\<rparr> in
       if keep_alive req \<and> running p
       then eff_bind (on_kernel (epoll_modify (e_os env) ep fd REARM)) (\<lambda>_. eff_return True) p'
       else (p', Inr False))"
    using 1 2 3 c rt s(1)
    by (simp add: http_task_body_def eff_bind_def eff_return_def eff_get_def on_kernel_def now_def run_handler_def
        on_conn_def conn_send_def answer_def updateActivity_def isRunning_def Let_def)
  with s(2) same show thesis by (rule that)
qed

lemma run_task_answers:
  assumes tr: "transport_ok (e_ssl env) avail sent" and c: "conns p cid = Some c"
    and rt: "router_handle (e_router env) req (world p) = (w', Inr (req', res))"
    and px: "posix_ok (e_os env) opened watched" and use: "1 < use_count p cid"
    and fd: "fd \<in> watched (kern p) (epoll_fd ep)"
  shows "\<exists>s t. let q = run_task env (http_task ep cid fd req) p in
    conns q cid = Some (c\<lparr>cc_ssl := s, lastActivity := t\<rparr>) \<and> sent s = sent (cc_ssl c) @ answer req res \<and>
    world q = w' \<and> (keep_alive req \<and> running p \<longrightarrow> same_tables opened watched (kern p) (kern q))"
proof -
  obtain s k t where s: "sent s = sent (cc_ssl c) @ answer req res" "same_tables opened watched (kern p) k"
    "http_task_body env ep cid req fd (keep_alive req) p =
      (let p' = p\<lparr>kern := k, world := w', conns := (conns p)(cid \<mapsto> c\<lparr>cc_ssl := s, lastActivity := t\<rparr>)\<rparr> in
       if keep_alive req \<and> running p
       then eff_bind (on_kernel (epoll_modify (e_os env) ep fd REARM)) (\<lambda>_. eff_return True) p'
       else (p', Inr False))"
    by (rule http_task_sends [OF tr c rt px])
  define q where "q = run_task env (http_task ep cid fd req) p"
  have "fd \<in> opened k \<and> fd \<in> watched k (epoll_fd ep)"
    using fd s(2) posix_ok_watched [OF px, of k] by (auto simp: same_tables_def)
  then obtain k' where m: "epoll_modify (e_os env) ep fd REARM k = (k', Inr ())" "same_tables opened watched k k'"
    using epoll_modify_same [OF px, where k = k and ep = ep and fd = fd and events = REARM]
    by (cases "epoll_modify (e_os env) ep fd REARM k") auto
  have "conns q cid = Some (c\<lparr>cc_ssl := s, lastActivity := t\<rparr>) \<and> world q = w' \<and>
      (keep_alive req \<and> running p \<longrightarrow> kern q = k')"
  proof (cases "keep_alive req \<and> running p")
    case True
    then have "http_task_body env ep cid req fd (keep_alive req) p = (p\<lparr>kern := k', world := w',
        conns := (conns p)(cid \<mapsto> c\<lparr>cc_ssl := s, lastActivity := t\<rparr>)\<rparr>, Inr True)"
      using s(3) m(1) by (simp add: Let_def eff_bind_def on_kernel_def eff_return_def)
    with True use show ?thesis
      by (simp add: q_def run_task_def http_task_def close_unless_rearmed_def release_def)
  next
    case False
    then have "http_task_body env ep cid req fd (keep_alive req) p = (p\<lparr>kern := k, world := w',
        conns := (conns p)(cid \<mapsto> c\<lparr>cc_ssl := s, lastActivity := t\<rparr>)\<rparr>, Inr False)"
      unfolding s(3) Let_def by (simp only: if_False)
    then have "conns q cid = Some (c\<lparr>cc_ssl := s, lastActivity := t\<rparr>)" "world q = w'"
      using use by (simp_all add: q_def run_task_def http_task_def close_unless_rearmed_def release_def raw_close_def)
    with False show ?thesis by blast
  qed
  with s(1,2) m(2) show ?thesis unfolding q_def [symmetric] by (auto simp: Let_def same_tables_def)
qed

section \<open>Both together\<close>

lemma request_answered:
  fixes p :: "('j, 's, 'h, 'w, 'k) process"
  assumes tr: "transport_ok (e_ssl env) avail sent" and px: "posix_ok (e_os env) opened watched"
    and c: "map_of (wk_active w) fd = Some cid" "conns p cid = Some c" "speaks_http c" "0 < use_count p cid"
    and fd: "fd \<in> watched (kern p) (epoll_fd (wk_epoll w))"
    and wire: "wire_valid wr" "conn_data c @ avail (cc_ssl c) = wire_bytes wr @ x"
    and up: "\<not> wants_upgrade (wire_view wr :: 'j HttpRequest)"
    and rt: "router_handle (e_router env) (wire_view wr) (world p) = (w', Inr (req', res))"
  shows "\<exists>p1 c2. handleClientData env fd (w, p) = Some ((w, p1), Inr ()) \<and>
    tasks p1 = tasks p @ [http_task (wk_epoll w) cid fd (wire_view wr)] \<and>
    (let q = run_task env (http_task (wk_epoll w) cid fd (wire_view wr)) p1 in
     conns q cid = Some c2 \<and> sent (cc_ssl c2) = sent (cc_ssl c) @ answer (wire_view wr :: 'j HttpRequest) res \<and>
     world q = w' \<and> conn_data c2 = x \<and> speaks_http c2 \<and>
     (keep_alive (wire_view wr :: 'j HttpRequest) \<and> running p \<longrightarrow> fd \<in> watched (kern q) (epoll_fd (wk_epoll w))))"
proof -
  let ?req = "wire_view wr :: 'j HttpRequest"
  have h: "handshakeComplete c" "\<not> is_http2 c" "\<not> is_websocket c" "expects_request c"
    using c(3) by (simp_all add: speaks_http_def)
  obtain s k t where s: "sent s = sent (cc_ssl c)" and same: "same_tables opened watched (kern p) k"
    and run: "handleClientData env fd (w, p) =
      (case data_loop env fd cid (w, p\<lparr>kern := k, conns := (conns p)(cid \<mapsto> fed t s (conn_data c @ avail (cc_ssl c)) c)\<rparr>) of
         (st', r) \<Rightarrow> Some (case r of Inl e \<Rightarrow> disconnectClient env fd st' | Inr _ \<Rightarrow> (st', Inr ())))"
    by (rule handleClientData_reads [OF tr px c(1,2) h(1,2)])
  define c1 where "c1 = fed t s x c"
  define p1 where "p1 = enqueue (http_task (wk_epoll w) cid fd ?req)
    (p\<lparr>kern := k, conns := (conns p)(cid \<mapsto> c1), total_requests := total_requests p + 1\<rparr>)"
  have "handleClientData env fd (w, p) = Some ((w, p1), Inr ())"
    unfolding run using wire(2) h(3,4)
    by (subst data_loop_http, simp, simp,
        subst http_turn_wire [OF wire(1) _ _ _ up, where x = x and c = "fed t s (conn_data c @ avail (cc_ssl c)) c"])
      (simp_all add: p1_def c1_def, simp_all add: fed_def)
  moreover have "tasks p1 = tasks p @ [http_task (wk_epoll w) cid fd ?req]" by (simp add: p1_def enqueue_def)
  moreover have p1: "conns p1 cid = Some c1" "world p1 = world p" "1 < use_count p1 cid" "kern p1 = k" "running p1 = running p"
    using c(4) by (simp_all add: p1_def enqueue_def http_task_def)
  have fd1: "fd \<in> watched (kern p1) (epoll_fd (wk_epoll w))" using fd same p1(4) by (simp add: same_tables_def)
  have "router_handle (e_router env) ?req (world p1) = (w', Inr (req', res))" using rt p1(2) by simp
  from run_task_answers [OF tr p1(1) this px p1(3) fd1] obtain s2 t2 where
    "let q = run_task env (http_task (wk_epoll w) cid fd ?req) p1 in
      conns q cid = Some (c1\<lparr>cc_ssl := s2, lastActivity := t2\<rparr>) \<and> sent s2 = sent (cc_ssl c1) @ answer ?req res \<and>
      world q = w' \<and> (keep_alive ?req \<and> running p1 \<longrightarrow> same_tables opened watched (kern p1) (kern q))" by blast
  moreover have "speaks_http (c1\<lparr>cc_ssl := s2, lastActivity := t2\<rparr>)" "conn_data (c1\<lparr>cc_ssl := s2, lastActivity := t2\<rparr>) = x"
    "sent (cc_ssl c1) = sent (cc_ssl c)"
    using c(3) s by (simp_all add: c1_def fed_def speaks_http_def expects_request_def conn_data_def rb_data_def)
  ultimately show ?thesis
    using fd1 p1(5) by (intro exI [of _ p1] exI [of _ "c1\<lparr>cc_ssl := s2, lastActivity := t2\<rparr>"])
      (auto simp: Let_def same_tables_def)
qed


section \<open>The other ends of a turn\<close>

lemma rearm_watched:
  assumes px: "posix_ok (e_os env) opened watched" and fd: "fd \<in> watched (kern p) (epoll_fd (wk_epoll w))"
  obtains k where "rearm env fd ev (w, p) = ((w, p\<lparr>kern := k\<rparr>), Inr ())" "same_tables opened watched (kern p) k"
proof -
  obtain k r where m: "epoll_modify (e_os env) (wk_epoll w) fd ev (kern p) = (k, r)" by fastforce
  moreover have "fd \<in> opened (kern p)" using fd posix_ok_watched [OF px, of "kern p"] by auto
  ultimately show thesis
    using epoll_modify_same [OF px, where k = "kern p" and ep = "wk_epoll w" and fd = fd and events = ev] fd
    by (intro that [of k]) (simp_all add: rearm_def on_process_def on_kernel_def)
qed

lemma conn_send_all:
  assumes "transport_ok api avail sent"
  obtains s where "conn_send api c d = (c\<lparr>cc_ssl := s\<rparr>, Inr ())" "sent s = sent (cc_ssl c) @ d"
  using conn_send_loop_all [of api sent "cc_ssl c" d] assms
  by (auto simp: transport_ok_def conn_send_def intro: that)

lemma release_unwatched:
  assumes "posix_ok os opened watched" "fd \<notin> watched (kern p) e"
  shows "fd \<notin> watched (kern (release os cid p)) e" "tasks (release os cid p) = tasks p"
proof -
  have "closes opened watched (sys_close os)" using assms(1) by (simp add: posix_ok_def)
  then have "watched (fst (sys_close os f k)) = (\<lambda>e. watched k e - {f})" for f k by (simp add: closes_def)
  with assms(2) show "fd \<notin> watched (kern (release os cid p)) e"
    by (simp add: release_def socket_close_def split: option.splits)
qed (simp add: release_def split: option.splits)

lemma disconnect_watched:
  assumes px: "posix_ok (e_os env) opened watched" and fd: "fd \<in> watched (kern p) (epoll_fd (wk_epoll w))"
    and cid: "map_of (wk_active w) fd = Some cid"
  obtains st where "disconnectClient env fd (w, p) = (st, Inr ())" "tasks (snd st) = tasks p"
    "fd \<notin> fst ` set (wk_active (fst st))" "fd \<notin> watched (kern (snd st)) (epoll_fd (wk_epoll w))"
proof -
  have "fd \<in> opened (kern p)" using fd posix_ok_watched [OF px, of "kern p"] by auto
  then obtain k where
    k: "epoll_remove (e_os env) (wk_epoll w) fd (kern p) = (k, Inr ())" "fd \<notin> watched k (epoll_fd (wk_epoll w))"
    by (rule epoll_remove_ok [OF px _ fd]) simp
  let ?p = "p\<lparr>kern := k\<rparr>"
  note r = release_unwatched [OF px, of fd ?p "epoll_fd (wk_epoll w)" cid]
  show thesis
    using k r cid
    by (intro that [of "erase_active (e_os env) fd (w, ?p)"])
      (auto simp: disconnectClient_def eff_bind_def eff_modify_def on_process_def on_kernel_def erase_active_def
        Let_def AList.delete_eq)
qed

text \<open>Bytes that no request can begin with are answered with 400, and the client is disconnected.\<close>

lemma bad_request_answered:
  fixes p :: "('j, 's, 'h, 'w, 'k) process"
  assumes tr: "transport_ok (e_ssl env) avail sent" and px: "posix_ok (e_os env) opened watched"
    and c: "map_of (wk_active w) fd = Some cid" "conns p cid = Some c" "speaks_http c"
    and fd: "fd \<in> watched (kern p) (epoll_fd (wk_epoll w))"
    and bad: "parse (conn_data c @ avail (cc_ssl c)) new_parser (new_request :: 'j HttpRequest) = (q, req, Invalid)"
  shows "\<exists>p1 c2 st. conns p1 cid = Some c2 \<and> sent (cc_ssl c2) = sent (cc_ssl c) @ serialize bad_request \<and>
    handleClientData env fd (w, p) = Some (st, Inr ()) \<and> disconnectClient env fd (w, p1) = (st, Inr ()) \<and>
    tasks (snd st) = tasks p \<and> fd \<notin> fst ` set (wk_active (fst st)) \<and>
    fd \<notin> watched (kern (snd st)) (epoll_fd (wk_epoll w))"
proof -
  have h: "handshakeComplete c" "\<not> is_http2 c" "\<not> is_websocket c" "parser c = new_parser"
    using c(3) by (simp_all add: speaks_http_def expects_request_def)
  let ?d = "conn_data c @ avail (cc_ssl c)"
  obtain s k t where s: "sent s = sent (cc_ssl c)" and same: "same_tables opened watched (kern p) k"
    and run: "handleClientData env fd (w, p) =
      (case data_loop env fd cid (w, p\<lparr>kern := k, conns := (conns p)(cid \<mapsto> fed t s ?d c)\<rparr>) of
         (st', r) \<Rightarrow> Some (case r of Inl e \<Rightarrow> disconnectClient env fd st' | Inr _ \<Rightarrow> (st', Inr ())))"
    by (rule handleClientData_reads [OF tr px c(1,2) h(1,2)])
  define c1 where "c1 = (fed t s ?d c)\<lparr>parser := q\<rparr>"
  obtain s2 where s2: "conn_send (e_ssl env) c1 (serialize bad_request) = (c1\<lparr>cc_ssl := s2\<rparr>, Inr ())"
    "sent s2 = sent (cc_ssl c1) @ serialize bad_request" by (rule conn_send_all [OF tr])
  define p1 where "p1 = p\<lparr>kern := k, conns := (conns p)(cid \<mapsto> c1\<lparr>cc_ssl := s2\<rparr>)\<rparr>"
  have "data_loop env fd cid (w, p\<lparr>kern := k, conns := (conns p)(cid \<mapsto> fed t s ?d c)\<rparr>) =
      disconnectClient env fd (w, p1)"
    using bad s2(1) h(3,4)
    by (subst data_loop_http, simp, simp)
      (simp add: http_turn_def take_request_def parseRequest_def rb_data_def eff_bind_def on_process_def on_conn_def
        c1_def p1_def fed_def)
  moreover obtain st where st: "disconnectClient env fd (w, p1) = (st, Inr ())" "tasks (snd st) = tasks p1"
    "fd \<notin> fst ` set (wk_active (fst st))" "fd \<notin> watched (kern (snd st)) (epoll_fd (wk_epoll w))"
    by (rule disconnect_watched [OF px _ c(1), of p1]) (use fd same in \<open>simp_all add: p1_def same_tables_def\<close>)
  ultimately show ?thesis
    using s s2(2) run by (intro exI [of _ p1] exI [of _ "c1\<lparr>cc_ssl := s2\<rparr>"] exI [of _ st]) (simp add: p1_def c1_def)
qed

text \<open>A request for an upgrade is answered with 101 and the accept key; from then on frames are expected.\<close>

lemma upgrade_turn_wire:
  assumes tr: "transport_ok (e_ssl env) avail sent" and px: "posix_ok (e_os env) opened watched"
    and c: "conns p cid = Some c" "expects_request c" "conn_data c = wire_bytes wr @ x" and wr: "wire_valid wr"
    and fd: "fd \<in> watched (kern p) (epoll_fd (wk_epoll w))"
    and up: "wants_upgrade (wire_view wr :: 'j HttpRequest)"
  obtains s k where "http_turn env fd cid (w, p :: ('j, 's, 'h, 'w, 'k) process) =
      ((w, p\<lparr>kern := k, conns := (conns p)(cid \<mapsto> c\<lparr>cc_ssl := s, readBuffer := \<lparr>buffer = x\<rparr>, is_websocket := True,
          ws_path := rq_path (wire_view wr :: 'j HttpRequest)\<rparr>)\<rparr>), Inr ())"
    "same_tables opened watched (kern p) k"
    "sent s = sent (cc_ssl c) @ serialize (switching_protocols (generateAcceptKey env
       (req_header (wire_view wr :: 'j HttpRequest) ''Sec-WebSocket-Key'')))"
proof -
  obtain q where q: "take_request c = (c\<lparr>parser := q\<rparr>, Inr (wire_view wr, Complete))"
    "consumeParsedRequest (c\<lparr>parser := q\<rparr>) = (c\<lparr>readBuffer := \<lparr>buffer = x\<rparr>\<rparr>, Inr ())"
    using take_wire_request [OF wr c(3,2)] by blast
  define d where "d = serialize (switching_protocols (generateAcceptKey env
       (req_header (wire_view wr :: 'j HttpRequest) ''Sec-WebSocket-Key'')))"
  obtain s where s: "conn_send (e_ssl env) (c\<lparr>parser := q\<rparr>) d = (c\<lparr>parser := q, cc_ssl := s\<rparr>, Inr ())"
    "sent s = sent (cc_ssl c) @ d"
    by (rule conn_send_all [OF tr, of "c\<lparr>parser := q\<rparr>" d]) simp
  have q2: "consumeParsedRequest (c\<lparr>parser := q, cc_ssl := s\<rparr>) = (c\<lparr>cc_ssl := s, readBuffer := \<lparr>buffer = x\<rparr>\<rparr>, Inr ())"
    using q(2) by (cases c) (auto simp: consumeParsedRequest_def split: sum.splits)
  define c2 where "c2 = c\<lparr>cc_ssl := s, readBuffer := \<lparr>buffer = x\<rparr>, is_websocket := True,
      ws_path := rq_path (wire_view wr :: 'j HttpRequest)\<rparr>"
  have u: "upgradeToWebSocket (c\<lparr>cc_ssl := s, readBuffer := \<lparr>buffer = x\<rparr>\<rparr>) (rq_path (wire_view wr :: 'j HttpRequest)) = c2"
    using c(2) by (cases c) (simp add: upgradeToWebSocket_def c2_def expects_request_def parser_reset_new)
  let ?p = "p\<lparr>conns := (conns p)(cid \<mapsto> c2)\<rparr>"
  obtain k where k: "rearm env fd REARM (w, ?p) = ((w, ?p\<lparr>kern := k\<rparr>), Inr ())" "same_tables opened watched (kern p) k"
    using rearm_watched [OF px, of fd ?p w REARM thesis] fd by simp
  have "http_turn env fd cid (w, p) = ((w, ?p\<lparr>kern := k\<rparr>), Inr ())"
    using q(1) up c(1) s(1) q2 u k(1)
    by (simp add: http_turn_def upgrade_turn_def eff_bind_def on_process_def on_conn_def d_def)
  with k(2) s(2) show thesis by (intro that [of s k]) (simp_all add: d_def c2_def)
qed

lemma upgrade_answered:
  fixes p :: "('j, 's, 'h, 'w, 'k) process"
  assumes tr: "transport_ok (e_ssl env) avail sent" and px: "posix_ok (e_os env) opened watched"
    and c: "map_of (wk_active w) fd = Some cid" "conns p cid = Some c" "speaks_http c"
    and fd: "fd \<in> watched (kern p) (epoll_fd (wk_epoll w))"
    and wire: "wire_valid wr" "conn_data c @ avail (cc_ssl c) = wire_bytes wr @ x"
    and up: "wants_upgrade (wire_view wr :: 'j HttpRequest)"
  shows "\<exists>p1 c2. handleClientData env fd (w, p) = Some ((w, p1), Inr ()) \<and> tasks p1 = tasks p \<and>
    conns p1 cid = Some c2 \<and> is_websocket c2 \<and> ws_path c2 = rq_path (wire_view wr :: 'j HttpRequest) \<and>
    conn_data c2 = x \<and> fd \<in> watched (kern p1) (epoll_fd (wk_epoll w)) \<and>
    sent (cc_ssl c2) = sent (cc_ssl c) @ serialize (switching_protocols (generateAcceptKey env
       (req_header (wire_view wr :: 'j HttpRequest) ''Sec-WebSocket-Key'')))"
proof -
  have h: "handshakeComplete c" "\<not> is_http2 c" "\<not> is_websocket c" "expects_request c"
    using c(3) by (simp_all add: speaks_http_def)
  let ?d = "conn_data c @ avail (cc_ssl c)"
  obtain s k t where s: "sent s = sent (cc_ssl c)" and same: "same_tables opened watched (kern p) k"
    and run: "handleClientData env fd (w, p) =
      (case data_loop env fd cid (w, p\<lparr>kern := k, conns := (conns p)(cid \<mapsto> fed t s ?d c)\<rparr>) of
         (st', r) \<Rightarrow> Some (case r of Inl e \<Rightarrow> disconnectClient env fd st' | Inr _ \<Rightarrow> (st', Inr ())))"
    by (rule handleClientData_reads [OF tr px c(1,2) h(1,2)])
  let ?p = "p\<lparr>kern := k, conns := (conns p)(cid \<mapsto> fed t s ?d c)\<rparr>"
  have p: "conns ?p cid = Some (fed t s ?d c)" "expects_request (fed t s ?d c)"
    "conn_data (fed t s ?d c) = wire_bytes wr @ x" "fd \<in> watched (kern ?p) (epoll_fd (wk_epoll w))"
    using h(4) wire(2) fd same by (simp_all add: same_tables_def)
  obtain s2 k2 where t: "http_turn env fd cid (w, ?p) =
      ((w, ?p\<lparr>kern := k2, conns := (conns ?p)(cid \<mapsto> (fed t s ?d c)\<lparr>cc_ssl := s2, readBuffer := \<lparr>buffer = x\<rparr>,
          is_websocket := True, ws_path := rq_path (wire_view wr :: 'j HttpRequest)\<rparr>)\<rparr>), Inr ())"
    "same_tables opened watched (kern ?p) k2"
    "sent s2 = sent (cc_ssl (fed t s ?d c)) @ serialize (switching_protocols (generateAcceptKey env
       (req_header (wire_view wr :: 'j HttpRequest) ''Sec-WebSocket-Key'')))"
    by (rule upgrade_turn_wire [OF tr px p(1,2,3) wire(1) p(4) up])
  have "data_loop env fd cid (w, ?p) = http_turn env fd cid (w, ?p)" using h(3) by (intro data_loop_http [OF p(1)]) simp
  then show ?thesis
    using run t p(4) s by (auto simp: same_tables_def conn_data_def rb_data_def)
qed

section \<open>Messages on an upgraded connection\<close>

lemma take_message:
  assumes "message_valid m" "conn_data c = message_bytes m @ x" "length x < 2 ^ 62"
  shows "take_frame c = (c\<lparr>readBuffer := \<lparr>buffer = x\<rparr>\<rparr>, Inr (message_frame m, Complete))"
proof -
  have "rb_data (readBuffer c) = wire_frame (wm_fin m) (wm_opcode m) (wm_key m) (wm_payload m) @ x"
    using assms(2) by (simp add: conn_data_def message_bytes_def)
  then obtain b where "parseWebSocketFrame c blank_frame =
      (c\<lparr>readBuffer := b\<rparr>, message_frame m, Inr Complete)" "rb_data b = x"
    using parse_wire_frame [of "wm_opcode m" "wm_key m" "wm_payload m" c "wm_fin m" x blank_frame] assms
    by (auto simp: message_valid_def message_frame_def)
  then show ?thesis by (cases b) (simp add: take_frame_def rb_data_def)
qed

text \<open>Frames that are neither data nor Close are skipped; the descriptor is re-armed for each of them.\<close>

definition skipped :: "wire_message \<Rightarrow> bool" where
  "skipped m \<longleftrightarrow> message_valid m \<and> wm_opcode m \<noteq> WsClose \<and> wm_opcode m \<noteq> WsText \<and> wm_opcode m \<noteq> WsBinary"

lemma data_loop_skips:
  fixes y :: string
  defines "c' \<equiv> \<lambda>c :: ('j, 's, 'h) ClientConnection. c\<lparr>readBuffer := \<lparr>buffer = y\<rparr>\<rparr>"
  assumes a: "skipped a" and c: "conns p cid = Some c" "is_websocket c" "conn_data c = message_bytes a @ y"
      "length (conn_data c) < 2 ^ 62"
    and k: "rearm env fd REARM (w, p\<lparr>conns := (conns p)(cid \<mapsto> c' c)\<rparr>) = ((w, p\<lparr>conns := (conns p)(cid \<mapsto> c' c), kern := k\<rparr>), Inr ())"
  shows "data_loop env fd cid (w, p) = data_loop env fd cid (w, p\<lparr>conns := (conns p)(cid \<mapsto> c' c), kern := k\<rparr>)"
proof -
  have tf: "take_frame c = (c' c, Inr (message_frame a, Complete))"
    unfolding c'_def using a c(3,4) by (intro take_message) (simp_all add: skipped_def)
  have op: "opcode (message_frame a) \<noteq> WsClose" "opcode (message_frame a) \<noteq> WsText" "opcode (message_frame a) \<noteq> WsBinary"
    using a by (simp_all add: skipped_def message_frame_def)
  have "ws_turn env fd cid (w, p) = ((w, p\<lparr>conns := (conns p)(cid \<mapsto> c' c), kern := k\<rparr>), Inr True)"
    using c(1) tf k op by (simp add: ws_turn_def eff_bind_def eff_return_def on_process_def on_conn_def)
  then show ?thesis using c(1,2) by (subst data_loop.simps) simp
qed

lemma data_loop_messages:
  assumes px: "posix_ok (e_os env) opened watched"
    and m: "message_valid m" "wm_opcode m = WsText \<or> wm_opcode m = WsBinary"
  shows "list_all skipped ms \<Longrightarrow> conns p cid = Some c \<Longrightarrow> is_websocket c \<Longrightarrow>
    conn_data c = concat (map message_bytes ms) @ message_bytes m @ x \<Longrightarrow> length (conn_data c) < 2 ^ 62 \<Longrightarrow>
    fd \<in> watched (kern p) (epoll_fd (wk_epoll w)) \<Longrightarrow>
    \<exists>k. same_tables opened watched (kern p) k \<and> data_loop env fd cid (w, p) =
      ((w, enqueue (WsTask (wk_epoll w) cid (message_frame m) fd)
         (p\<lparr>kern := k, conns := (conns p)(cid \<mapsto> c\<lparr>readBuffer := \<lparr>buffer = x\<rparr>\<rparr>)\<rparr>)), Inr ())"
proof (induction ms arbitrary: p c)
  case Nil
  then have "take_frame c = (c\<lparr>readBuffer := \<lparr>buffer = x\<rparr>\<rparr>, Inr (message_frame m, Complete))"
    using m(1) by (intro take_message) simp_all
  with Nil m(2) show ?case
    by (intro exI [of _ "kern p"], subst data_loop.simps)
      (auto simp: ws_turn_def message_frame_def eff_bind_def eff_get_def eff_return_def eff_modify_def on_process_def
        on_conn_def)
next
  case (Cons a ms)
  let ?y = "concat (map message_bytes ms) @ message_bytes m @ x"
  let ?c = "c\<lparr>readBuffer := \<lparr>buffer = ?y\<rparr>\<rparr>"
  let ?p = "p\<lparr>conns := (conns p)(cid \<mapsto> ?c)\<rparr>"
  obtain k where k: "rearm env fd REARM (w, ?p) = ((w, ?p\<lparr>kern := k\<rparr>), Inr ())" "same_tables opened watched (kern p) k"
    using rearm_watched [OF px, of fd ?p w REARM thesis] Cons.prems(6) by simp
  have step: "data_loop env fd cid (w, p) = data_loop env fd cid (w, ?p\<lparr>kern := k\<rparr>)"
    by (rule data_loop_skips [OF _ Cons.prems(2,3) _ Cons.prems(5) k(1)]) (use Cons.prems in simp_all)
  have d: "conn_data ?c = ?y" by (simp add: conn_data_def rb_data_def)
  have "\<exists>k'. same_tables opened watched (kern (?p\<lparr>kern := k\<rparr>)) k' \<and> data_loop env fd cid (w, ?p\<lparr>kern := k\<rparr>) =
      ((w, enqueue (WsTask (wk_epoll w) cid (message_frame m) fd) (?p\<lparr>kern := k, kern := k',
         conns := (conns (?p\<lparr>kern := k\<rparr>))(cid \<mapsto> ?c\<lparr>readBuffer := \<lparr>buffer = x\<rparr>\<rparr>)\<rparr>)), Inr ())"
    by (rule Cons.IH) (use Cons.prems k(2) d in \<open>simp_all add: same_tables_def\<close>)
  then obtain k' where k': "same_tables opened watched k k'" "data_loop env fd cid (w, ?p\<lparr>kern := k\<rparr>) =
      ((w, enqueue (WsTask (wk_epoll w) cid (message_frame m) fd)
         (p\<lparr>kern := k', conns := (conns p)(cid \<mapsto> c\<lparr>readBuffer := \<lparr>buffer = x\<rparr>\<rparr>)\<rparr>)), Inr ())"
    by auto
  have "same_tables opened watched (kern p) k'" using k(2) k'(1) by (simp add: same_tables_def)
  then show ?case using trans [OF step k'(2)] by (intro exI conjI)
qed

lemma run_task_message:
  assumes px: "posix_ok (e_os env) opened watched" and fd: "fd \<in> watched (kern p) (epoll_fd ep)"
    and c: "conns p cid = Some c" "1 < use_count p cid" "running p"
    and h: "handleWs (e_router env) cid c frame (world p) = ((w', c'), Inr ())"
  shows "let q = run_task env (WsTask ep cid frame fd) p in
    conns q cid = Some c' \<and> world q = w' \<and> same_tables opened watched (kern p) (kern q)"
proof -
  have "fd \<in> opened (kern p)" using fd posix_ok_watched [OF px, of "kern p"] by auto
  then obtain k where k: "epoll_modify (e_os env) ep fd REARM (kern p) = (k, Inr ())" "same_tables opened watched (kern p) k"
    using fd epoll_modify_same [OF px, where k = "kern p" and ep = ep and fd = fd and events = REARM]
    by (cases "epoll_modify (e_os env) ep fd REARM (kern p)") auto
  have "ws_task_body env ep cid frame fd p = (p\<lparr>world := w', conns := (conns p)(cid \<mapsto> c'), kern := k\<rparr>, Inr True)"
    using c(1,3) h k(1)
    by (simp add: ws_task_body_def eff_bind_def eff_get_def eff_return_def isRunning_def on_kernel_def)
  with c(2) k(2) show ?thesis by (simp add: run_task_def close_unless_rearmed_def release_def)
qed

lemma message_answered:
  assumes tr: "transport_ok (e_ssl env) avail sent" and px: "posix_ok (e_os env) opened watched"
    and c: "map_of (wk_active w) fd = Some cid" "conns p cid = Some c" "handshakeComplete c" "\<not> is_http2 c"
      "is_websocket c" "0 < use_count p cid"
    and fd: "fd \<in> watched (kern p) (epoll_fd (wk_epoll w))"
    and wire: "conn_data c @ avail (cc_ssl c) = concat (map message_bytes ms) @ message_bytes m @ x"
      "length (conn_data c @ avail (cc_ssl c)) < 2 ^ 62" "list_all skipped ms" "message_valid m"
      "wm_opcode m = WsText \<or> wm_opcode m = WsBinary"
  obtains p1 c1 where "handleClientData env fd (w, p) = Some ((w, p1), Inr ())"
    "tasks p1 = tasks p @ [WsTask (wk_epoll w) cid (message_frame m) fd]" "conns p1 cid = Some c1"
    "conn_data c1 = x" "ws_path c1 = ws_path c" "is_websocket c1" "sent (cc_ssl c1) = sent (cc_ssl c)"
    "world p1 = world p" "running p1 = running p" "1 < use_count p1 cid" "same_tables opened watched (kern p) (kern p1)"
proof -
  let ?d = "conn_data c @ avail (cc_ssl c)" and ?t = "WsTask (wk_epoll w) cid (message_frame m) fd"
  obtain s k t where s: "sent s = sent (cc_ssl c)" and same: "same_tables opened watched (kern p) k"
    and run: "handleClientData env fd (w, p) =
      (case data_loop env fd cid (w, p\<lparr>kern := k, conns := (conns p)(cid \<mapsto> fed t s ?d c)\<rparr>) of
         (st', r) \<Rightarrow> Some (case r of Inl e \<Rightarrow> disconnectClient env fd st' | Inr _ \<Rightarrow> (st', Inr ())))"
    by (rule handleClientData_reads [OF tr px c(1-4)])
  let ?p = "p\<lparr>kern := k, conns := (conns p)(cid \<mapsto> fed t s ?d c)\<rparr>"
  have "\<exists>k'. same_tables opened watched (kern ?p) k' \<and> data_loop env fd cid (w, ?p) = ((w, enqueue ?t
      (?p\<lparr>kern := k', conns := (conns ?p)(cid \<mapsto> (fed t s ?d c)\<lparr>readBuffer := \<lparr>buffer = x\<rparr>\<rparr>)\<rparr>)), Inr ())"
    by (rule data_loop_messages [OF px wire(4,5,3)])
      (use c(5) wire(1,2) fd same in \<open>simp_all add: same_tables_def\<close>)
  then obtain k' where k': "same_tables opened watched k k'" "data_loop env fd cid (w, ?p) =
      ((w, enqueue ?t (p\<lparr>kern := k', conns := (conns p)(cid \<mapsto> fed t s x c)\<rparr>)), Inr ())"
    by (auto simp: fed_def)
  show thesis
    by (rule that [of "enqueue ?t (p\<lparr>kern := k', conns := (conns p)(cid \<mapsto> fed t s x c)\<rparr>)" "fed t s x c"])
      (use run k' s same c(5,6) in \<open>simp_all add: enqueue_def same_tables_def, simp add: fed_def\<close>)
qed
end
