(* ===== verification/Thread_Pool.thy ===== *)
theory Thread_Pool
  imports Http_Prelude "HOL-Library.Multiset"
begin

text \<open>
  \<^verbatim>\<open>src/src/concurrency/ThreadPool.cpp\<close>: a bounded ring buffer between threads that enqueue tasks and
  worker threads that run them, guarded by a spin lock and two counting semaphores.

  The threads interleave. A thread's program counter says which atomic action it does next, and
  \<open>enqueue_step\<close>, \<open>worker_step\<close> and \<open>destructor_step\<close> do one action of the function they are named
  after, in the order of its statements; \<open>None\<close> means that the action cannot be done now (a semaphore
  is zero, the lock is held, a worker is not joinable yet). \<open>pool_step\<close> is the interleaving of any
  number of callers of \<open>enqueue\<close>, the workers and the destructor. Accesses to the ring buffer and
  its two indices happen only under the lock (proved below), so they are ordered by its
  acquire/release operations, and interleaving single actions is an adequate semantics.

  Ghost histories record the tasks in the order in which they were stored, taken and run.
\<close>

section \<open>State\<close>

definition CAPACITY :: nat where "CAPACITY = 1024"

lemma CAPACITY_pos [simp]: "0 < CAPACITY" by (simp add: CAPACITY_def)

text \<open>An empty \<open>std::function\<close> is \<open>None\<close>.\<close>

record 't ThreadPool =
  tp_ring :: "'t option list"
  tp_head :: nat
  tp_tail :: nat
  tp_lock :: bool
  tp_tasks_available :: nat
  tp_space_available :: nat
  tp_stop :: bool
  tp_pending :: size_t

definition new_pool :: "'t ThreadPool" where
  "new_pool = \<lparr>tp_ring = replicate CAPACITY None, tp_head = 0, tp_tail = 0, tp_lock = False,
     tp_tasks_available = 0, tp_space_available = CAPACITY, tp_stop = False, tp_pending = 0\<rparr>"

definition getPendingTaskCount :: "'t ThreadPool \<Rightarrow> size_t" where
  "getPendingTaskCount p = tp_pending p"

section \<open>Enqueueing\<close>

datatype 't caller = Idle | Count 't | AcquireSpace 't | Lock 't | Store 't | AdvanceTail | Unlock
  | ReleaseTask

fun enqueue_step :: "'t caller \<Rightarrow> 't ThreadPool \<Rightarrow> ('t caller \<times> 't ThreadPool) option" where
  "enqueue_step Idle p = None"
| "enqueue_step (Count t) p = Some (AcquireSpace t, p\<lparr>tp_pending := tp_pending p + 1\<rparr>)"
| "enqueue_step (AcquireSpace t) p =
     (if 0 < tp_space_available p
      then Some (Lock t, p\<lparr>tp_space_available := tp_space_available p - 1\<rparr>) else None)"
| "enqueue_step (Lock t) p = (if tp_lock p then None else Some (Store t, p\<lparr>tp_lock := True\<rparr>))"
| "enqueue_step (Store t) p = Some (AdvanceTail, p\<lparr>tp_ring := (tp_ring p)[tp_tail p := Some t]\<rparr>)"
| "enqueue_step AdvanceTail p = Some (Unlock, p\<lparr>tp_tail := (tp_tail p + 1) mod CAPACITY\<rparr>)"
| "enqueue_step Unlock p = Some (ReleaseTask, p\<lparr>tp_lock := False\<rparr>)"
| "enqueue_step ReleaseTask p = Some (Idle, p\<lparr>tp_tasks_available := tp_tasks_available p + 1\<rparr>)"

section \<open>The workers\<close>

datatype 't worker = AcquireTask | CheckStop | WLock | Take | AdvanceHead "'t option"
  | WUnlock "'t option" | ReleaseSpace "'t option" | Uncount "'t option" | Run "'t option" | Exited

text \<open>Moving out of a slot leaves an empty function there.\<close>

fun worker_step :: "'t worker \<Rightarrow> 't ThreadPool \<Rightarrow> ('t worker \<times> 't ThreadPool) option" where
  "worker_step AcquireTask p =
     (if 0 < tp_tasks_available p
      then Some (CheckStop, p\<lparr>tp_tasks_available := tp_tasks_available p - 1\<rparr>) else None)"
| "worker_step CheckStop p = Some (if tp_stop p then Exited else WLock, p)"
| "worker_step WLock p = (if tp_lock p then None else Some (Take, p\<lparr>tp_lock := True\<rparr>))"
| "worker_step Take p =
     Some (AdvanceHead (tp_ring p ! tp_head p), p\<lparr>tp_ring := (tp_ring p)[tp_head p := None]\<rparr>)"
| "worker_step (AdvanceHead x) p = Some (WUnlock x, p\<lparr>tp_head := (tp_head p + 1) mod CAPACITY\<rparr>)"
| "worker_step (WUnlock x) p = Some (ReleaseSpace x, p\<lparr>tp_lock := False\<rparr>)"
| "worker_step (ReleaseSpace x) p =
     Some (Uncount x, p\<lparr>tp_space_available := tp_space_available p + 1\<rparr>)"
| "worker_step (Uncount x) p = Some (Run x, p\<lparr>tp_pending := tp_pending p - 1\<rparr>)"
| "worker_step (Run x) p = Some (AcquireTask, p)"
| "worker_step Exited p = None"

section \<open>The destructor\<close>

datatype destroyer = NotStarted | Release nat | Join nat | Destroyed

text \<open>\<open>n\<close> is the number of workers, \<open>exited i\<close> says whether worker \<open>i\<close> has returned.\<close>

fun destructor_step :: "nat \<Rightarrow> (nat \<Rightarrow> bool) \<Rightarrow> destroyer \<Rightarrow> 't ThreadPool \<Rightarrow>
    (destroyer \<times> 't ThreadPool) option" where
  "destructor_step n exited NotStarted p = Some (Release 0, p\<lparr>tp_stop := True\<rparr>)"
| "destructor_step n exited (Release i) p =
     (if i < n then Some (Release (i + 1), p\<lparr>tp_tasks_available := tp_tasks_available p + 1\<rparr>)
      else Some (Join 0, p))"
| "destructor_step n exited (Join i) p =
     (if i < n then (if exited i then Some (Join (i + 1), p) else None) else Some (Destroyed, p))"
| "destructor_step n exited Destroyed p = None"

section \<open>Interleaving\<close>

record 't config =
  pool :: "'t ThreadPool"
  callers :: "'t caller list"
  workers :: "'t worker list"
  destroyer :: destroyer
  stored :: "'t list"
  taken :: "'t option list"
  executed :: "'t list"

definition pool_init :: "'t config \<Rightarrow> bool" where
  "pool_init c \<longleftrightarrow> pool c = new_pool \<and> (\<forall>x \<in> set (callers c). x = Idle) \<and>
     (\<forall>x \<in> set (workers c). x = AcquireTask) \<and> destroyer c = NotStarted \<and>
     stored c = [] \<and> taken c = [] \<and> executed c = []"

text \<open>What an action adds to the histories.\<close>

fun stores :: "'t caller \<Rightarrow> 't list" where
  "stores (Store t) = [t]"
| "stores _ = []"

fun takes :: "'t worker \<Rightarrow> 't ThreadPool \<Rightarrow> 't option list" where
  "takes Take p = [tp_ring p ! tp_head p]"
| "takes _ p = []"

fun runs :: "'t worker \<Rightarrow> 't list" where
  "runs (Run (Some t)) = [t]"
| "runs _ = []"

inductive pool_step :: "'t config \<Rightarrow> 't config \<Rightarrow> bool" where
  call: "i < length (callers c) \<Longrightarrow> callers c ! i = Idle \<Longrightarrow>
    pool_step c (c\<lparr>callers := (callers c)[i := Count t]\<rparr>)"
| enqueue: "i < length (callers c) \<Longrightarrow> enqueue_step (callers c ! i) (pool c) = Some (x, p) \<Longrightarrow>
    pool_step c (c\<lparr>pool := p, callers := (callers c)[i := x], stored := stored c @ stores (callers c ! i)\<rparr>)"
| work: "i < length (workers c) \<Longrightarrow> worker_step (workers c ! i) (pool c) = Some (x, p) \<Longrightarrow>
    pool_step c (c\<lparr>pool := p, workers := (workers c)[i := x],
      taken := taken c @ takes (workers c ! i) (pool c), executed := executed c @ runs (workers c ! i)\<rparr>)"
| destroy: "destructor_step (length (workers c)) (\<lambda>i. workers c ! i = Exited) (destroyer c) (pool c) =
      Some (d, p) \<Longrightarrow>
    pool_step c (c\<lparr>pool := p, destroyer := d\<rparr>)"

inductive_cases pool_stepE: "pool_step c c'"

section \<open>The invariant\<close>

text \<open>Classes of program counters.\<close>

fun c_locked :: "'t caller \<Rightarrow> bool" where
  "c_locked (Store t) = True" | "c_locked AdvanceTail = True" | "c_locked Unlock = True" | "c_locked _ = False"

fun c_space :: "'t caller \<Rightarrow> bool" where
  "c_space (Lock t) = True" | "c_space (Store t) = True" | "c_space _ = False"

fun c_unreleased :: "'t caller \<Rightarrow> bool" where
  "c_unreleased AdvanceTail = True" | "c_unreleased Unlock = True" | "c_unreleased ReleaseTask = True"
| "c_unreleased _ = False"

fun c_adv :: "'t caller \<Rightarrow> bool" where
  "c_adv AdvanceTail = True" | "c_adv _ = False"

fun c_counted :: "'t caller \<Rightarrow> bool" where
  "c_counted (AcquireSpace t) = True" | "c_counted (Lock t) = True" | "c_counted (Store t) = True"
| "c_counted _ = False"

fun w_locked :: "'t worker \<Rightarrow> bool" where
  "w_locked Take = True" | "w_locked (AdvanceHead x) = True" | "w_locked (WUnlock x) = True"
| "w_locked _ = False"

fun w_holding :: "'t worker \<Rightarrow> bool" where
  "w_holding (AdvanceHead x) = True" | "w_holding (WUnlock x) = True" | "w_holding (ReleaseSpace x) = True"
| "w_holding _ = False"

fun w_token :: "'t worker \<Rightarrow> bool" where
  "w_token CheckStop = True" | "w_token WLock = True" | "w_token Take = True" | "w_token _ = False"

fun w_go :: "'t worker \<Rightarrow> bool" where
  "w_go WLock = True" | "w_go Take = True" | "w_go _ = False"

fun w_exited :: "'t worker \<Rightarrow> bool" where
  "w_exited Exited = True" | "w_exited _ = False"

fun w_adv :: "'t worker \<Rightarrow> bool" where
  "w_adv (AdvanceHead x) = True" | "w_adv _ = False"

fun w_counted :: "'t worker \<Rightarrow> bool" where
  "w_counted (AdvanceHead x) = True" | "w_counted (WUnlock x) = True" | "w_counted (ReleaseSpace x) = True"
| "w_counted (Uncount x) = True" | "w_counted _ = False"

fun carries :: "'t worker \<Rightarrow> 't option list" where
  "carries (AdvanceHead x) = [x]" | "carries (WUnlock x) = [x]" | "carries (ReleaseSpace x) = [x]"
| "carries (Uncount x) = [x]" | "carries (Run x) = [x]" | "carries _ = []"

text \<open>At most one thread is between taking and giving back the lock.\<close>

definition inv_lock :: "'t config \<Rightarrow> bool" where
  "inv_lock c \<longleftrightarrow> cnt c_locked (callers c) + cnt w_locked (workers c) =
     (if tp_lock (pool c) then 1 else 0)"

text \<open>The indices follow the histories.\<close>

definition inv_index :: "'t config \<Rightarrow> bool" where
  "inv_index c \<longleftrightarrow> length (tp_ring (pool c)) = CAPACITY \<and>
     tp_tail (pool c) < CAPACITY \<and> tp_head (pool c) < CAPACITY \<and>
     (tp_tail (pool c) + cnt c_adv (callers c)) mod CAPACITY = length (stored c) mod CAPACITY \<and>
     (tp_head (pool c) + cnt w_adv (workers c)) mod CAPACITY = length (taken c) mod CAPACITY"

text \<open>Every slot is free, reserved by a caller, full, or being emptied by a worker.\<close>

definition inv_space :: "'t config \<Rightarrow> bool" where
  "inv_space c \<longleftrightarrow> tp_space_available (pool c) + cnt c_space (callers c) + length (stored c) +
     cnt w_holding (workers c) = CAPACITY + length (taken c)"

text \<open>Every stored task not taken yet is announced, about to be announced, or claimed by a worker.\<close>

definition inv_token :: "'t config \<Rightarrow> bool" where
  "inv_token c \<longleftrightarrow> tp_stop (pool c) = (destroyer c \<noteq> NotStarted) \<and>
     (\<not> tp_stop (pool c) \<longrightarrow> length (stored c) = length (taken c) + tp_tasks_available (pool c) +
        cnt c_unreleased (callers c) + cnt w_token (workers c))"

definition inv_go :: "'t config \<Rightarrow> bool" where
  "inv_go c \<longleftrightarrow> length (taken c) + cnt w_go (workers c) \<le> length (stored c)"

text \<open>A worker returns only after \<open>stop_\<close> was set.\<close>

definition inv_exit :: "'t config \<Rightarrow> bool" where
  "inv_exit c \<longleftrightarrow> (\<not> tp_stop (pool c) \<longrightarrow> cnt w_exited (workers c) = 0)"

text \<open>First in, first out, and the ring holds what is in between.\<close>

definition inv_fifo :: "'t config \<Rightarrow> bool" where
  "inv_fifo c \<longleftrightarrow> taken c = map Some (take (length (taken c)) (stored c)) \<and>
     (\<forall>k. length (taken c) \<le> k \<longrightarrow> k < length (stored c) \<longrightarrow>
        tp_ring (pool c) ! (k mod CAPACITY) = Some (stored c ! k))"

text \<open>The pending counter, modulo \<open>2 ^ 64\<close>, and the tasks under way.\<close>

definition inv_count :: "'t config \<Rightarrow> bool" where
  "inv_count c \<longleftrightarrow> tp_pending (pool c) + of_nat (length (taken c)) =
     of_nat (cnt c_counted (callers c) + length (stored c) + cnt w_counted (workers c))"

definition inv_run :: "'t config \<Rightarrow> bool" where
  "inv_run c \<longleftrightarrow> image_mset Some (mset (executed c)) + mset (concat (map carries (workers c))) =
     mset (taken c)"

lemma concat_map_update:
  "i < length xs \<Longrightarrow> mset (concat (map f (xs[i := y]))) + mset (f (xs ! i)) =
     mset (concat (map f xs)) + mset (f y)"
proof (induction xs arbitrary: i)
  case (Cons x xs)
  then show ?case by (cases i) auto
qed simp

lemma mod_neq:
  assumes "a < b" "b < a + n"
  shows "a mod n \<noteq> b mod (n :: nat)"
proof
  assume "a mod n = b mod n"
  then have "n dvd b - a" using mod_eq_dvd_iff_nat [of a b n] assms(1) by simp
  then show False using assms by (auto dest: dvd_imp_le)
qed

lemma inv_lock_step: "inv_lock c \<Longrightarrow> pool_step c c' \<Longrightarrow> inv_lock c'"
proof (erule pool_stepE, goal_cases)
  case (1 i t)
  then show ?case using cnt_update [of i "callers c" c_locked "Count t"] by (simp add: inv_lock_def)
next
  case (2 i x p)
  then show ?case using cnt_update [of i "callers c" c_locked x]
    by (cases "callers c ! i") (auto simp: inv_lock_def split: if_splits)
next
  case (3 i x p)
  then show ?case using cnt_update [of i "workers c" w_locked x]
    by (cases "workers c ! i") (auto simp: inv_lock_def split: if_splits)
next
  case (4 d p)
  then show ?case by (cases "destroyer c") (auto simp: inv_lock_def split: if_splits)
qed

lemma inv_space_step: "inv_space c \<Longrightarrow> pool_step c c' \<Longrightarrow> inv_space c'"
proof (erule pool_stepE, goal_cases)
  case (1 i t)
  then show ?case using cnt_update [of i "callers c" c_space "Count t"] by (simp add: inv_space_def)
next
  case (2 i x p)
  then show ?case using cnt_update [of i "callers c" c_space x]
    by (cases "callers c ! i") (auto simp: inv_space_def split: if_splits)
next
  case (3 i x p)
  then show ?case using cnt_update [of i "workers c" w_holding x]
    by (cases "workers c ! i") (auto simp: inv_space_def split: if_splits)
next
  case (4 d p)
  then show ?case by (cases "destroyer c") (auto simp: inv_space_def split: if_splits)
qed

lemma w_go_token: "w_go x \<Longrightarrow> w_token x"
  by (cases x) simp_all

lemma cnt_go_token: "cnt w_go xs \<le> cnt w_token xs"
  by (rule cnt_mono) (rule w_go_token)

lemma inv_token_step: "inv_token c \<Longrightarrow> pool_step c c' \<Longrightarrow> inv_token c'"
proof (erule pool_stepE, goal_cases)
  case (1 i t)
  then show ?case using cnt_update [of i "callers c" c_unreleased "Count t"] by (simp add: inv_token_def)
next
  case (2 i x p)
  then show ?case using cnt_update [of i "callers c" c_unreleased x]
    by (cases "callers c ! i") (auto simp: inv_token_def split: if_splits)
next
  case (3 i x p)
  then show ?case using cnt_update [of i "workers c" w_token x]
    by (cases "workers c ! i") (auto simp: inv_token_def split: if_splits)
next
  case (4 d p)
  then show ?case by (cases "destroyer c") (auto simp: inv_token_def split: if_splits)
qed

text \<open>A worker that saw \<open>stop_\<close> unset holds a token for a stored task.\<close>

lemma check_stop_go:
  assumes "inv_token c" "i < length (workers c)" "workers c ! i = CheckStop" "\<not> tp_stop (pool c)"
  shows "length (taken c) + cnt w_go (workers c) < length (stored c)"
proof -
  have "cnt w_go ((workers c)[i := WLock]) = Suc (cnt w_go (workers c))"
    "cnt w_token ((workers c)[i := WLock]) = cnt w_token (workers c)"
    using cnt_update [OF assms(2), of w_go WLock] cnt_update [OF assms(2), of w_token WLock] assms(3)
    by simp_all
  then have "Suc (cnt w_go (workers c)) \<le> cnt w_token (workers c)"
    using cnt_go_token [of "(workers c)[i := WLock]"] by simp
  then show ?thesis using assms(1,4) by (simp add: inv_token_def)
qed

lemma inv_go_step: "inv_go c \<Longrightarrow> inv_token c \<Longrightarrow> pool_step c c' \<Longrightarrow> inv_go c'"
proof (erule pool_stepE, goal_cases)
  case (2 i x p)
  then show ?case by (simp add: inv_go_def)
next
  case (3 i x p)
  then show ?case using cnt_update [of i "workers c" w_go x] check_stop_go [of c i]
    by (cases "workers c ! i") (auto simp: inv_go_def split: if_splits)
qed (simp_all add: inv_go_def)

lemma inv_exit_step: "inv_exit c \<Longrightarrow> inv_token c \<Longrightarrow> pool_step c c' \<Longrightarrow> inv_exit c'"
proof (erule pool_stepE, goal_cases)
  case (2 i x p)
  then show ?case by (cases "callers c ! i") (auto simp: inv_exit_def split: if_splits)
next
  case (3 i x p)
  then show ?case using cnt_update [of i "workers c" w_exited x]
    by (cases "workers c ! i") (auto simp: inv_exit_def split: if_splits)
next
  case (4 d p)
  then show ?case
    by (cases "destroyer c") (auto simp: inv_exit_def inv_token_def split: if_splits)
qed (simp add: inv_exit_def)

text \<open>The index, the FIFO order and the counters, given exclusion and the slot count.\<close>

lemma c_adv_locked: "cnt c_adv xs \<le> cnt c_locked xs"
  by (rule cnt_mono) (erule c_adv.elims; simp)

lemma w_adv_locked: "cnt w_adv xs \<le> cnt w_locked xs"
  by (rule cnt_mono) (erule w_adv.elims; simp)

lemma lock_exclusive:
  assumes "inv_lock c"
  shows "i < length (callers c) \<Longrightarrow> c_locked (callers c ! i) \<Longrightarrow>
      cnt w_locked (workers c) = 0 \<and> cnt c_locked (callers c) = 1"
    and "i < length (workers c) \<Longrightarrow> w_locked (workers c ! i) \<Longrightarrow>
      cnt c_locked (callers c) = 0 \<and> cnt w_locked (workers c) = 1"
  using assms cnt_pos [of i "callers c" c_locked] cnt_pos [of i "workers c" w_locked]
  by (auto simp: inv_lock_def split: if_splits)

lemma cnt_one:
  "cnt P xs = 1 \<Longrightarrow> i < length xs \<Longrightarrow> P (xs ! i) \<Longrightarrow> (\<And>x. Q x \<Longrightarrow> P x) \<Longrightarrow>
     cnt Q xs = of_bool (Q (xs ! i))"
proof (induction xs arbitrary: i)
  case (Cons x xs)
  show ?case
  proof (cases i)
    case 0
    then have "cnt P xs = 0" using Cons.prems by simp
    then have "cnt Q xs = 0" using cnt_mono [of Q P xs] Cons.prems(4) by simp
    then show ?thesis using 0 by simp
  next
    case (Suc j)
    then have "0 < cnt P xs" using Cons.prems cnt_pos [of j xs P] by simp
    then have "\<not> P x" "cnt P xs = 1" using Cons.prems(1) by (auto split: if_splits)
    then show ?thesis using Suc Cons by auto
  qed
qed simp

lemma caller_adv:
  assumes "inv_lock c" "i < length (callers c)" "c_locked (callers c ! i)"
  shows "cnt c_adv (callers c) = of_bool (c_adv (callers c ! i))" "cnt w_adv (workers c) = 0"
proof -
  have "\<And>x. c_adv x \<Longrightarrow> c_locked x" by (erule c_adv.elims; simp)
  then show "cnt c_adv (callers c) = of_bool (c_adv (callers c ! i))"
    using lock_exclusive(1) [OF assms] assms(2,3) by (intro cnt_one [of c_locked]) auto
  show "cnt w_adv (workers c) = 0"
    using lock_exclusive(1) [OF assms] w_adv_locked [of "workers c"] by simp
qed

lemma worker_adv:
  assumes "inv_lock c" "i < length (workers c)" "w_locked (workers c ! i)"
  shows "cnt w_adv (workers c) = of_bool (w_adv (workers c ! i))" "cnt c_adv (callers c) = 0"
proof -
  have "\<And>x. w_adv x \<Longrightarrow> w_locked x" by (erule w_adv.elims; simp)
  then show "cnt w_adv (workers c) = of_bool (w_adv (workers c ! i))"
    using lock_exclusive(2) [OF assms] assms(2,3) by (intro cnt_one [of w_locked]) auto
  show "cnt c_adv (callers c) = 0"
    using lock_exclusive(2) [OF assms] c_adv_locked [of "callers c"] by simp
qed

text \<open>A thread about to write or read a slot finds the index at the end of its history.\<close>

lemma store_index:
  assumes "inv_lock c" "inv_index c" "i < length (callers c)" "callers c ! i = Store t"
  shows "tp_tail (pool c) = length (stored c) mod CAPACITY"
  using caller_adv(1) [of c i] assms by (auto simp: inv_index_def)

lemma take_index:
  assumes "inv_lock c" "inv_index c" "i < length (workers c)" "workers c ! i = Take"
  shows "tp_head (pool c) = length (taken c) mod CAPACITY"
  using worker_adv(1) [of c i] assms by (auto simp: inv_index_def)

lemma inv_index_step: "inv_lock c \<Longrightarrow> inv_index c \<Longrightarrow> pool_step c c' \<Longrightarrow> inv_index c'"
proof (erule pool_stepE, goal_cases)
  case (1 i t)
  then show ?case using cnt_update [of i "callers c" c_adv "Count t"] by (simp add: inv_index_def)
next
  case (2 i x p)
  then show ?case using cnt_update [of i "callers c" c_adv x] caller_adv(1) [of c i]
    by (cases "callers c ! i") (auto simp: inv_index_def mod_simps split: if_splits)
next
  case (3 i x p)
  then show ?case using cnt_update [of i "workers c" w_adv x] worker_adv(1) [of c i]
    by (cases "workers c ! i") (auto simp: inv_index_def mod_simps split: if_splits)
next
  case (4 d p)
  then show ?case by (cases "destroyer c") (auto simp: inv_index_def split: if_splits)
qed

lemma store_room:
  assumes "inv_space c" "i < length (callers c)" "callers c ! i = Store t"
  shows "length (stored c) < length (taken c) + CAPACITY"
  using assms cnt_pos [of i "callers c" c_space] by (simp add: inv_space_def)

lemma take_avail:
  assumes "inv_go c" "i < length (workers c)" "workers c ! i = Take"
  shows "length (taken c) < length (stored c)"
  using assms cnt_pos [of i "workers c" w_go] by (simp add: inv_go_def)

lemma queue_bound: "inv_space c \<Longrightarrow> length (stored c) \<le> length (taken c) + CAPACITY"
  by (simp add: inv_space_def)

lemma inv_fifo_store:
  assumes "inv_fifo c" "tp_tail (pool c) = length (stored c) mod CAPACITY"
    "length (tp_ring (pool c)) = CAPACITY" "length (stored c) < length (taken c) + CAPACITY"
    "length (taken c) \<le> length (stored c)"
  shows "inv_fifo (c\<lparr>pool := (pool c)\<lparr>tp_ring := (tp_ring (pool c))[tp_tail (pool c) := Some t]\<rparr>,
    callers := xs, stored := stored c @ [t]\<rparr>)"
proof -
  have "length (stored c) mod CAPACITY \<noteq> k mod CAPACITY"
    if "length (taken c) \<le> k" "k < length (stored c)" for k
    using that assms(4) by (intro mod_neq [symmetric]) auto
  then show ?thesis
    using assms by (auto simp: inv_fifo_def nth_append nth_list_update less_Suc_eq)
qed

lemma inv_fifo_take:
  assumes fifo: "inv_fifo c" and hd: "tp_head (pool c) = length (taken c) mod CAPACITY"
    and len: "length (tp_ring (pool c)) = CAPACITY" "length (stored c) \<le> length (taken c) + CAPACITY"
      "length (taken c) < length (stored c)"
  shows "tp_ring (pool c) ! tp_head (pool c) = Some (stored c ! length (taken c))"
    and "inv_fifo (c\<lparr>pool := (pool c)\<lparr>tp_ring := (tp_ring (pool c))[tp_head (pool c) := None]\<rparr>,
      workers := ws, taken := taken c @ [tp_ring (pool c) ! tp_head (pool c)]\<rparr>)"
proof -
  show slot: "tp_ring (pool c) ! tp_head (pool c) = Some (stored c ! length (taken c))"
    using fifo hd len(3) by (simp add: inv_fifo_def)
  have ne: "length (taken c) mod CAPACITY \<noteq> k mod CAPACITY"
    if "length (taken c) < k" "k < length (stored c)" for k
    using that len(2) by (intro mod_neq) auto
  have "taken c = map Some (take (length (taken c)) (stored c))"
    using fifo by (simp add: inv_fifo_def)
  then have "taken c @ [Some (stored c ! length (taken c))] =
      map Some (take (Suc (length (taken c))) (stored c))"
    using len(3) by (simp add: take_Suc_conv_app_nth)
  then show "inv_fifo (c\<lparr>pool := (pool c)\<lparr>tp_ring := (tp_ring (pool c))[tp_head (pool c) := None]\<rparr>,
      workers := ws, taken := taken c @ [tp_ring (pool c) ! tp_head (pool c)]\<rparr>)"
    using fifo ne len(3) unfolding slot
    by (auto simp: inv_fifo_def hd nth_list_update Suc_le_eq min_def simp flip: len(1))
qed

lemma inv_fifo_step:
  assumes "inv_lock c" "inv_index c" "inv_space c" "inv_go c" "inv_fifo c" "pool_step c c'"
  shows "inv_fifo c'"
  using assms(6)
proof (rule pool_stepE, goal_cases)
  case (1 i t)
  then show ?case using assms(5) by (simp add: inv_fifo_def)
next
  case (2 i x p)
  show ?case
  proof (cases "\<exists>t. callers c ! i = Store t")
    case True
    then obtain t where t: "callers c ! i = Store t" by blast
    have "length (taken c) \<le> length (stored c)" using assms(4) by (simp add: inv_go_def)
    then show ?thesis
      using 2 t inv_fifo_store [OF assms(5) store_index [OF assms(1,2) _ t] _ store_room [OF assms(3) _ t]]
        assms(2) by (auto simp: inv_index_def)
  next
    case False
    then show ?thesis using 2 assms(5)
      by (cases "callers c ! i") (auto simp: inv_fifo_def split: if_splits)
  qed
next
  case (3 i x p)
  show ?case
  proof (cases "workers c ! i = Take")
    case True
    then show ?thesis
      using 3 inv_fifo_take(2) [OF assms(5) take_index [OF assms(1,2) _ True] _ queue_bound [OF assms(3)]
          take_avail [OF assms(4) _ True]] assms(2)
      by (auto simp: inv_index_def)
  next
    case False
    then show ?thesis using 3 assms(5)
      by (cases "workers c ! i") (auto simp: inv_fifo_def split: if_splits)
  qed
next
  case (4 d p)
  then show ?case using assms(5)
    by (cases "destroyer c") (auto simp: inv_fifo_def split: if_splits)
qed

lemma cnt_update_word:
  assumes "i < length xs"
  shows "(of_nat (cnt P (xs[i := y])) :: size_t) =
    of_nat (cnt P xs) + of_bool (P y) - of_bool (P (xs ! i))"
  using arg_cong [OF cnt_update [OF assms, of P y], of "of_nat :: nat \<Rightarrow> size_t"]
  by (simp add: algebra_simps)

lemma inv_count_step: "inv_count c \<Longrightarrow> pool_step c c' \<Longrightarrow> inv_count c'"
proof (erule pool_stepE, goal_cases)
  case (1 i t)
  then show ?case by (simp add: inv_count_def cnt_update_word)
next
  case (2 i x p)
  then show ?case
    by (cases "callers c ! i") (auto simp: inv_count_def cnt_update_word algebra_simps split: if_splits)
next
  case (3 i x p)
  then show ?case
    by (cases "workers c ! i") (auto simp: inv_count_def cnt_update_word algebra_simps split: if_splits)
next
  case (4 d p)
  then show ?case by (cases "destroyer c") (auto simp: inv_count_def split: if_splits)
qed

lemma inv_run_step: "inv_run c \<Longrightarrow> (\<forall>x \<in> set (workers c). None \<notin> set (carries x)) \<Longrightarrow> pool_step c c' \<Longrightarrow> inv_run c'"
proof (erule pool_stepE, goal_cases)
  case (3 i x p)
  have *: "workers c ! i \<in> set (workers c)" using 3 by simp
  have u: "mset (concat (map carries ((workers c)[i := x]))) + mset (carries (workers c ! i)) =
      mset (concat (map carries (workers c))) + mset (carries x)"
    using 3 by (intro concat_map_update)
  show ?case
  proof (cases "workers c ! i")
    case (Run y)
    then obtain t where "y = Some t" using 3 * by (cases y) auto
    then have "image_mset Some (mset (executed c)) + {#Some t#} +
        mset (concat (map carries ((workers c)[i := x]))) = mset (taken c)"
      using 3 u Run by (simp add: inv_run_def) (metis add_mset_add_single union_mset_add_mset_right)
    then show ?thesis using 3 Run \<open>y = Some t\<close> by (simp add: inv_run_def)
  qed (use 3 u in \<open>auto simp: inv_run_def split: if_splits\<close>)
qed (auto simp: inv_run_def)

definition pool_inv :: "'t config \<Rightarrow> bool" where
  "pool_inv c \<longleftrightarrow> inv_lock c \<and> inv_index c \<and> inv_space c \<and> inv_token c \<and> inv_go c \<and> inv_exit c \<and> inv_fifo c \<and>
     inv_count c \<and> inv_run c \<and> (\<forall>x \<in> set (workers c). None \<notin> set (carries x))"

text \<open>Workers only ever hold real tasks: the test \<open>if (task)\<close> always succeeds.\<close>

lemma carries_step:
  assumes "pool_inv c" "pool_step c c'"
  shows "\<forall>x \<in> set (workers c'). None \<notin> set (carries x)"
  using assms(2)
proof (rule pool_stepE, goal_cases)
  case (3 i x p)
  have inv: "inv_lock c" "inv_index c" "inv_space c" "inv_go c" "inv_fifo c"
    and car: "\<forall>x \<in> set (workers c). None \<notin> set (carries x)"
    using assms(1) by (simp_all add: pool_inv_def)
  have old: "None \<notin> set (carries (workers c ! i))" using car 3 by simp
  have "None \<notin> set (carries x)"
  proof (cases "workers c ! i = Take")
    case True
    have "length (tp_ring (pool c)) = CAPACITY" using inv(2) by (simp add: inv_index_def)
    from inv_fifo_take(1) [OF inv(5) take_index [OF inv(1,2) 3(2) True] this queue_bound [OF inv(3)]
        take_avail [OF inv(4) 3(2) True]]
    show ?thesis using 3 True by auto
  next
    case False
    then show ?thesis using 3 old by (cases "workers c ! i") (auto split: if_splits)
  qed
  then show ?case using 3 car by (auto dest!: set_update_subset_insert [THEN subsetD])
qed (use assms(1) in \<open>auto simp: pool_inv_def\<close>)

lemma pool_inv_init: "pool_init c \<Longrightarrow> pool_inv c"
proof -
  assume i: "pool_init c"
  then have z: "cnt c_locked (callers c) = 0" "cnt c_adv (callers c) = 0" "cnt c_space (callers c) = 0"
    "cnt c_unreleased (callers c) = 0" "cnt c_counted (callers c) = 0" "cnt w_locked (workers c) = 0"
    "cnt w_adv (workers c) = 0" "cnt w_holding (workers c) = 0" "cnt w_token (workers c) = 0"
    "cnt w_go (workers c) = 0" "cnt w_exited (workers c) = 0" "cnt w_counted (workers c) = 0" "concat (map carries (workers c)) = []"
    by (auto simp: pool_init_def cnt_zero_iff)
  have "\<forall>x \<in> set (workers c). None \<notin> set (carries x)" using i by (auto simp: pool_init_def)
  then show ?thesis
    using i z by (simp add: pool_inv_def pool_init_def new_pool_def inv_lock_def inv_index_def inv_space_def
        inv_token_def inv_go_def inv_exit_def inv_fifo_def inv_count_def inv_run_def)
qed

lemma pool_inv_step: "pool_inv c \<Longrightarrow> pool_step c c' \<Longrightarrow> pool_inv c'"
  using carries_step [of c c'] inv_lock_step [of c c'] inv_index_step [of c c'] inv_space_step [of c c']
    inv_token_step [of c c'] inv_go_step [of c c'] inv_exit_step [of c c'] inv_fifo_step [of c c'] inv_count_step [of c c'] inv_run_step [of c c']
  by (simp add: pool_inv_def)

interpretation tp: invariant_system pool_init pool_step pool_inv
  by unfold_locales (fact pool_inv_init, fact pool_inv_step)

lemmas pool_inv_defs = pool_inv_def inv_lock_def inv_index_def inv_space_def inv_token_def inv_go_def inv_exit_def
  inv_fifo_def inv_count_def inv_run_def

section \<open>The pool is a bounded queue\<close>

text \<open>
  What the pool promises: tasks wait in a queue of bounded length, the oldest is started first, and a task
  that was started is finished once. The queue is what was stored and not taken; a task is running
  from the moment a worker has taken it until it has run it.
\<close>

record 't task_queue =
  tq_waiting :: "'t list"
  tq_running :: "'t multiset"
  tq_finished :: "'t list"

definition queue_init :: "'t task_queue \<Rightarrow> bool" where
  "queue_init q \<longleftrightarrow> q = \<lparr>tq_waiting = [], tq_running = {#}, tq_finished = []\<rparr>"

inductive queue_step :: "'t task_queue \<Rightarrow> 't task_queue \<Rightarrow> bool" where
  submit: "length (tq_waiting q) < CAPACITY \<Longrightarrow> queue_step q (q\<lparr>tq_waiting := tq_waiting q @ [t]\<rparr>)"
| start: "tq_waiting q = t # ts \<Longrightarrow>
    queue_step q (q\<lparr>tq_waiting := ts, tq_running := add_mset t (tq_running q)\<rparr>)"
| finish: "tq_running q = add_mset t r \<Longrightarrow>
    queue_step q (q\<lparr>tq_running := r, tq_finished := tq_finished q @ [t]\<rparr>)"

definition queue :: "'t config \<Rightarrow> 't list" where
  "queue c = drop (length (taken c)) (stored c)"

definition in_hand :: "'t worker list \<Rightarrow> 't multiset" where
  "in_hand ws = image_mset the (mset (concat (map carries ws)))"

definition pool_view :: "'t config \<Rightarrow> 't task_queue" where
  "pool_view c = \<lparr>tq_waiting = queue c, tq_running = in_hand (workers c), tq_finished = executed c\<rparr>"

lemma in_hand_update:
  "i < length ws \<Longrightarrow> in_hand (ws[i := x]) + image_mset the (mset (carries (ws ! i))) =
     in_hand ws + image_mset the (mset (carries x))"
  using arg_cong [OF concat_map_update, of i ws "image_mset the" carries x] by (simp add: in_hand_def)

lemma pool_view_store:
  assumes inv: "pool_inv c" and i: "i < length (callers c)" "callers c ! i = Store t"
  shows "queue_step (pool_view c) (pool_view (c\<lparr>pool := p, callers := cs, stored := stored c @ [t]\<rparr>))"
proof -
  have "length (stored c) < length (taken c) + CAPACITY"
    using store_room [of c i t] inv i by (simp add: pool_inv_def)
  moreover have "length (taken c) \<le> length (stored c)" using inv by (simp add: pool_inv_defs)
  ultimately show ?thesis using submit [of "pool_view c" t] by (auto simp: pool_view_def queue_def)
qed

lemma pool_view_take:
  assumes inv: "pool_inv c" and i: "i < length (workers c)" "workers c ! i = Take"
  shows "queue_step (pool_view c) (pool_view (c\<lparr>pool := p, workers := (workers c)[i := AdvanceHead (tp_ring (pool c) ! tp_head (pool c))],
    taken := taken c @ [tp_ring (pool c) ! tp_head (pool c)]\<rparr>))"
proof -
  have inv': "inv_lock c" "inv_index c" "inv_space c" "inv_go c" "inv_fifo c" "length (tp_ring (pool c)) = CAPACITY"
    using inv by (simp_all add: pool_inv_def inv_index_def)
  let ?t = "stored c ! length (taken c)"
  have less: "length (taken c) < length (stored c)" using take_avail [OF inv'(4) i] .
  have slot: "tp_ring (pool c) ! tp_head (pool c) = Some ?t"
    by (rule inv_fifo_take(1) [OF inv'(5) take_index [OF inv'(1,2) i] inv'(6) queue_bound [OF inv'(3)] less])
  have "tq_waiting (pool_view c) = ?t # drop (Suc (length (taken c))) (stored c)"
    using less by (simp add: pool_view_def queue_def Cons_nth_drop_Suc)
  from start [OF this] show ?thesis
    using in_hand_update [OF i(1), of "AdvanceHead (Some ?t)"] i(2) slot by (simp add: pool_view_def queue_def)
qed

lemma pool_view_run:
  assumes inv: "pool_inv c" and i: "i < length (workers c)" "workers c ! i = Run y"
  shows "queue_step (pool_view c) (pool_view (c\<lparr>pool := p, workers := (workers c)[i := AcquireTask],
    executed := executed c @ runs (workers c ! i)\<rparr>))"
proof -
  have "workers c ! i \<in> set (workers c)" using i(1) by simp
  then obtain t where t: "y = Some t" using inv i(2) by (cases y) (auto simp: pool_inv_def)
  then have "tq_running (pool_view c) = add_mset t (in_hand ((workers c)[i := AcquireTask]))"
    using in_hand_update [OF i(1), of AcquireTask] i(2) by (simp add: pool_view_def)
  from finish [OF this] show ?thesis using i(2) t by (simp add: pool_view_def queue_def)
qed

lemma pool_refines_queue:
  assumes inv: "pool_inv c" and "pool_step c c'"
  shows "pool_view c' = pool_view c \<or> queue_step (pool_view c) (pool_view c')"
  using assms(2)
proof (rule pool_stepE, goal_cases)
  case (1 i t)
  then show ?case by (simp add: pool_view_def queue_def)
next
  case (2 i x p)
  show ?case
  proof (cases "callers c ! i")
    case (Store t)
    then show ?thesis using pool_view_store [OF inv 2(2) Store, where p = p and cs = "(callers c)[i := x]"] 2 by simp
  qed (use 2 in \<open>auto simp: pool_view_def queue_def split: if_splits\<close>)
next
  case (3 i x p)
  have u: "in_hand ((workers c)[i := x]) + image_mset the (mset (carries (workers c ! i))) =
      in_hand (workers c) + image_mset the (mset (carries x))" by (rule in_hand_update [OF 3(2)])
  show ?case
  proof (cases "workers c ! i")
    case Take
    then show ?thesis using pool_view_take [OF inv 3(2) Take, where p = p] 3 by auto
  next
    case (Run y)
    then show ?thesis using pool_view_run [OF inv 3(2) Run, where p = p] 3 by auto
  qed (use 3 u in \<open>auto simp: pool_view_def queue_def split: if_splits\<close>)
next
  case (4 d p)
  then show ?case by (simp add: pool_view_def queue_def)
qed

interpretation tq: refinement_system pool_init pool_step pool_inv pool_view queue_init queue_step
proof
  show "queue_init (pool_view c)" if "pool_init c" for c :: "'t config"
  proof -
    have "concat (map carries (workers c)) = []" using that by (auto simp: pool_init_def)
    then show ?thesis using that by (simp add: pool_init_def pool_view_def queue_init_def queue_def in_hand_def)
  qed
qed (rule pool_refines_queue)

interpretation bq: invariant_system queue_init queue_step "\<lambda>q. length (tq_waiting q) \<le> CAPACITY"
  by unfold_locales (auto simp: queue_init_def elim: queue_step.cases)

lemma pool_queue_bounded: "reachable pool_init pool_step c \<Longrightarrow> length (queue c) \<le> CAPACITY"
  using tq.view_inv [OF bq.invariant_system_axioms, of c] by (simp add: pool_view_def)

text \<open>No deadlock: unless everybody waits for work, some thread can act.\<close>

definition quiescent :: "'t config \<Rightarrow> bool" where
  "quiescent c \<longleftrightarrow> (\<forall>x \<in> set (callers c). x = Idle) \<and> (\<forall>x \<in> set (workers c). x = AcquireTask)"

lemma locked_enabled:
  "c_locked x \<Longrightarrow> \<exists>y q. enqueue_step x p = Some (y, q)" "w_locked z \<Longrightarrow> \<exists>y q. worker_step z p = Some (y, q)"
  by (cases x; simp) (cases z; simp)

lemma free_enabled:
  assumes "\<not> tp_lock p"
  shows "x \<noteq> Idle \<Longrightarrow> (\<forall>t. x \<noteq> AcquireSpace t) \<Longrightarrow> \<exists>y q. enqueue_step x p = Some (y, q)"
    and "z \<noteq> Exited \<Longrightarrow> z \<noteq> AcquireTask \<Longrightarrow> \<exists>y q. worker_step z p = Some (y, q)"
  by (cases x; simp add: assms) (cases z; simp add: assms)

lemma pool_progress:
  assumes inv: "pool_inv c" and run: "\<not> tp_stop (pool c)" "workers c \<noteq> []" and "\<not> quiescent c"
  shows "(\<exists>x \<in> set (callers c). enqueue_step x (pool c) \<noteq> None) \<or>
    (\<exists>z \<in> set (workers c). worker_step z (pool c) \<noteq> None)"
proof (rule ccontr)
  assume "\<not> ?thesis"
  then have cb: "\<And>x. x \<in> set (callers c) \<Longrightarrow> enqueue_step x (pool c) = None"
    and wb: "\<And>z. z \<in> set (workers c) \<Longrightarrow> worker_step z (pool c) = None"
    by blast+
  have "\<not> c_locked x" if "x \<in> set (callers c)" for x
    using locked_enabled(1) [of x "pool c"] cb [OF that] by auto
  moreover have "\<not> w_locked z" if "z \<in> set (workers c)" for z
    using locked_enabled(2) [of z "pool c"] wb [OF that] by auto
  ultimately have "cnt c_locked (callers c) = 0" "cnt w_locked (workers c) = 0"
    by (simp_all add: cnt_zero_iff)
  then have free: "\<not> tp_lock (pool c)" using inv by (simp add: pool_inv_def inv_lock_def split: if_splits)
  have ex: "\<forall>z \<in> set (workers c). \<not> w_exited z" using inv run by (simp add: pool_inv_defs cnt_zero_iff)
  have w: "z = AcquireTask" if "z \<in> set (workers c)" for z
    using free_enabled(2) [OF free, of z] wb [OF that] ex that by (cases "z = Exited") auto
  have cl: "x = Idle \<or> (\<exists>t. x = AcquireSpace t)" if "x \<in> set (callers c)" for x
    using free_enabled(1) [OF free, of x] cb [OF that] by auto
  have "\<not> w_token z \<and> \<not> w_holding z" if "z \<in> set (workers c)" for z
    using w [OF that] by simp
  then have z: "cnt w_token (workers c) = 0" "cnt w_holding (workers c) = 0"
    by (simp_all add: cnt_zero_iff)
  have "\<not> c_unreleased x \<and> \<not> c_space x" if "x \<in> set (callers c)" for x
    using cl [OF that] by auto
  then have zc: "cnt c_unreleased (callers c) = 0" "cnt c_space (callers c) = 0"
    by (simp_all add: cnt_zero_iff)
  have "AcquireTask \<in> set (workers c)" using w run(2) by (metis last_in_set)
  then have "tp_tasks_available (pool c) = 0"
    using wb [of AcquireTask] by (simp split: if_splits)
  then have "0 < tp_space_available (pool c)" using inv run z zc by (simp add: pool_inv_defs)
  then have "x = Idle" if "x \<in> set (callers c)" for x
    using cl [OF that] cb [OF that] by auto
  then show False using assms(4) w unfolding quiescent_def by blast
qed

text \<open>When everybody waits, every task that was enqueued has run exactly once.\<close>

lemma quiescent_done:
  assumes inv: "pool_inv c" and "quiescent c" "\<not> tp_stop (pool c)" and idle: "tp_tasks_available (pool c) = 0"
  shows "mset (executed c) = mset (stored c) \<and> tp_pending (pool c) = 0"
proof -
  have z: "cnt w_token (workers c) = 0" "cnt w_counted (workers c) = 0" "cnt c_unreleased (callers c) = 0"
    "cnt c_counted (callers c) = 0" "concat (map carries (workers c)) = []"
    using assms(2) by (auto simp: quiescent_def cnt_zero_iff)
  then have len: "length (taken c) = length (stored c)"
    using inv assms(3) idle by (simp add: pool_inv_defs)
  then have "taken c = map Some (stored c)" using inv by (simp add: pool_inv_defs)
  then have "image_mset Some (mset (executed c)) = image_mset Some (mset (stored c))"
    using inv z by (simp add: pool_inv_defs)
  then have "image_mset the (image_mset Some (mset (executed c))) =
      image_mset the (image_mset Some (mset (stored c)))" by (rule arg_cong)
  then have "mset (executed c) = mset (stored c)" by (simp add: multiset.map_comp comp_def)
  moreover have "tp_pending (pool c) = 0" using inv z len by (simp add: pool_inv_defs)
  ultimately show ?thesis by blast
qed

section \<open>The pool comes to rest\<close>

text \<open>
  What the threads do while nobody calls \<open>enqueue\<close> anew: the calls under way and the workers go on. A
  caller has at most seven actions left, and announcing its task makes a worker do at most nine.
\<close>

inductive drain_step :: "'t config \<Rightarrow> 't config \<Rightarrow> bool" where
  drain_enqueue: "i < length (callers c) \<Longrightarrow> enqueue_step (callers c ! i) (pool c) = Some (x, p) \<Longrightarrow>
    drain_step c (c\<lparr>pool := p, callers := (callers c)[i := x], stored := stored c @ stores (callers c ! i)\<rparr>)"
| drain_work: "i < length (workers c) \<Longrightarrow> worker_step (workers c ! i) (pool c) = Some (x, p) \<Longrightarrow>
    drain_step c (c\<lparr>pool := p, workers := (workers c)[i := x],
      taken := taken c @ takes (workers c ! i) (pool c), executed := executed c @ runs (workers c ! i)\<rparr>)"

inductive_cases drain_stepE: "drain_step c c'"

lemma drain_pool_step: "drain_step c c' \<Longrightarrow> pool_step c c'"
  by (erule drain_stepE) (auto intro: pool_step.enqueue pool_step.work)

fun c_rank :: "'t caller \<Rightarrow> nat" where
  "c_rank Idle = 0" | "c_rank (Count t) = 16" | "c_rank (AcquireSpace t) = 15" | "c_rank (Lock t) = 14"
| "c_rank (Store t) = 13" | "c_rank AdvanceTail = 12" | "c_rank Unlock = 11" | "c_rank ReleaseTask = 10"

fun w_rank :: "'t worker \<Rightarrow> nat" where
  "w_rank AcquireTask = 0" | "w_rank CheckStop = 8" | "w_rank WLock = 7" | "w_rank Take = 6"
| "w_rank (AdvanceHead x) = 5" | "w_rank (WUnlock x) = 4" | "w_rank (ReleaseSpace x) = 3"
| "w_rank (Uncount x) = 2" | "w_rank (Run x) = 1" | "w_rank Exited = 0"

definition pool_work :: "'t config \<Rightarrow> nat" where
  "pool_work c = sum_list (map c_rank (callers c)) + sum_list (map w_rank (workers c)) +
     9 * tp_tasks_available (pool c)"

lemma enqueue_step_work:
  "enqueue_step x p = Some (y, q) \<Longrightarrow>
     c_rank y + 9 * tp_tasks_available q < c_rank x + 9 * tp_tasks_available p"
  by (cases x) (auto split: if_splits)

lemma worker_step_work:
  "worker_step x p = Some (y, q) \<Longrightarrow>
     w_rank y + 9 * tp_tasks_available q < w_rank x + 9 * tp_tasks_available p"
  by (cases x) (auto split: if_splits)

lemma sum_list_update_rank:
  "i < length xs \<Longrightarrow> sum_list (map f (xs[i := y])) + f (xs ! i) = sum_list (map f xs) + (f y :: nat)"
proof (induction xs arbitrary: i)
  case (Cons x xs)
  then show ?case by (cases i) auto
qed simp

lemma drain_step_work: "drain_step c c' \<Longrightarrow> pool_work c' < pool_work c"
proof (erule drain_stepE, goal_cases)
  case (1 i x p)
  then show ?case using enqueue_step_work [of "callers c ! i" "pool c" x p] sum_list_update_rank [of i "callers c" c_rank x]
    by (simp add: pool_work_def)
next
  case (2 i x p)
  then show ?case using worker_step_work [of "workers c ! i" "pool c" x p] sum_list_update_rank [of i "workers c" w_rank x]
    by (simp add: pool_work_def)
qed

interpretation dr: terminating_system "\<lambda>c. pool_inv c \<and> \<not> tp_stop (pool c) \<and> workers c \<noteq> []" drain_step pool_work
proof
  fix c c' :: "'t config"
  assume c: "pool_inv c \<and> \<not> tp_stop (pool c) \<and> workers c \<noteq> []" and st: "drain_step c c'"
  have "pool_inv c'" using c drain_pool_step [OF st] pool_inv_step by blast
  moreover have "tp_stop (pool c') = tp_stop (pool c)" using st
  proof (cases rule: drain_step.cases)
    case (drain_enqueue i x p)
    then show ?thesis by (cases "callers c ! i") (auto split: if_splits)
  next
    case (drain_work i x p)
    then show ?thesis by (cases "workers c ! i") (auto split: if_splits)
  qed
  moreover have "workers c' \<noteq> []" using c st by (auto elim: drain_stepE)
  ultimately show "pool_inv c' \<and> \<not> tp_stop (pool c') \<and> workers c' \<noteq> []" using c by simp
qed (rule drain_step_work)

text \<open>The tasks of the calls under way that are not stored yet, and that none of them gets lost.\<close>

fun submits :: "'t caller \<Rightarrow> 't list" where
  "submits (Count t) = [t]" | "submits (AcquireSpace t) = [t]" | "submits (Lock t) = [t]" | "submits (Store t) = [t]"
| "submits _ = []"

definition submitted :: "'t config \<Rightarrow> 't multiset" where
  "submitted c = mset (stored c) + mset (concat (map submits (callers c)))"

lemma drain_submitted: "drain_step c c' \<Longrightarrow> submitted c' = submitted c"
proof (erule drain_stepE, goal_cases)
  case (1 i x p)
  have e: "mset (submits (callers c ! i)) = mset (stores (callers c ! i)) + mset (submits x)"
    using 1 by (cases "callers c ! i") (auto split: if_splits)
  have "mset (concat (map submits ((callers c)[i := x]))) + mset (stores (callers c ! i)) + mset (submits x) =
      mset (concat (map submits (callers c))) + mset (submits x)"
    using concat_map_update [OF 1(2), of submits x] unfolding e add.assoc .
  then have "mset (concat (map submits ((callers c)[i := x]))) + mset (stores (callers c ! i)) =
      mset (concat (map submits (callers c)))" by (rule add_right_imp_eq)
  then show ?case unfolding 1(1) submitted_def by (simp add: ac_simps del: mset_concat)
qed (simp add: submitted_def)

lemma drained_submitted: "rtranclp drain_step c c' \<Longrightarrow> submitted c' = submitted c"
  by (induction rule: rtranclp_induct) (auto simp: drain_submitted)

lemma stuck_quiescent:
  assumes inv: "pool_inv c" and run: "\<not> tp_stop (pool c)" "workers c \<noteq> []" and stuck: "\<And>c'. \<not> drain_step c c'"
  shows "quiescent c" "tp_tasks_available (pool c) = 0"
proof -
  have cb: "enqueue_step x (pool c) = None" if "x \<in> set (callers c)" for x
    using that stuck by (cases "enqueue_step x (pool c)") (auto simp: in_set_conv_nth dest: drain_enqueue)
  have wb: "worker_step x (pool c) = None" if "x \<in> set (workers c)" for x
    using that stuck by (cases "worker_step x (pool c)") (auto simp: in_set_conv_nth dest: drain_work)
  show q: "quiescent c" by (rule ccontr) (use pool_progress [OF inv run] cb wb in auto)
  then have "AcquireTask \<in> set (workers c)" using run(2) by (metis quiescent_def last_in_set)
  then show "tp_tasks_available (pool c) = 0" using wb [of AcquireTask] by (simp split: if_splits)
qed

lemma drained:
  assumes inv: "pool_inv c" and run: "\<not> tp_stop (pool c)" "workers c \<noteq> []"
    and st: "rtranclp drain_step c c'" "\<And>c''. \<not> drain_step c' c''"
  shows "quiescent c'" "mset (executed c') = submitted c" "tp_pending (pool c') = 0"
proof -
  have c': "pool_inv c'" "\<not> tp_stop (pool c')" "workers c' \<noteq> []" using dr.run_inv [OF st(1)] assms by auto
  note s = stuck_quiescent [OF c' st(2)]
  show "quiescent c'" by fact
  then have "concat (map submits (callers c')) = []" by (auto simp: quiescent_def)
  then have "submitted c' = mset (stored c')" unfolding submitted_def by simp
  then show "mset (executed c') = submitted c" "tp_pending (pool c') = 0"
    using quiescent_done [OF c'(1) s(1) c'(2) s(2)] drained_submitted [OF st(1)] by simp_all
qed

end
