(* ===== verification/Server_System.thy ===== *)
theory Server_System
  imports Tcp_Safety
begin

text \<open>
  The server as a whole: the invariant of all workers together, kept by every step of \<open>server_step\<close> in
  which the pending tasks settle, so that no thread ever ends the process; and what happens after a
  task that closes its descriptor itself.
\<close>

section \<open>The invariant of the server\<close>

fun looping :: "wthread list \<Rightarrow> Worker list" where
  "looping [] = []"
| "looping (Looping w # ts) = w # looping ts"
| "looping (Starting # ts) = looping ts"
| "looping (Ended # ts) = looping ts"

definition descriptors :: "Worker list \<Rightarrow> int list" where
  "descriptors ws = concat (map (\<lambda>w. [socket_fd (wk_socket w), epoll_fd (wk_epoll w)]) ws)"

definition table :: "Worker list \<Rightarrow> (int \<times> int \<times> nat) list" where
  "table ws = concat (map entries ws)"

text \<open>\<open>base\<close> are the descriptors that were open before the server started.\<close>

definition server_view ::
  "('k \<Rightarrow> int set) \<Rightarrow> ('k \<Rightarrow> int \<Rightarrow> int set) \<Rightarrow> int set \<Rightarrow> Worker list \<Rightarrow> 'k view" where
  "server_view opened watched base ws =
     \<lparr>v_opened = opened, v_watched = watched, v_reserved = base \<union> set (descriptors ws)\<rparr>"

text \<open>While no worker has ended, the counter is the number of entries in all tables.\<close>

definition server_inv ::
  "('k \<Rightarrow> int set) \<Rightarrow> ('k \<Rightarrow> int \<Rightarrow> int set) \<Rightarrow> int set \<Rightarrow> ('j, 's, 'h, 'w, 'k) server \<Rightarrow> bool" where
  "server_inv opened watched base sv \<longleftrightarrow> \<not> sv_terminated sv \<and>
     (let ws = looping (sv_threads sv) in
      proc_inv (server_view opened watched base ws) (table ws) [] (sv_process sv) \<and>
      (\<forall>w \<in> set ws. distinct (map fst (wk_active w))) \<and> distinct (descriptors ws) \<and>
      (\<forall>fd \<in> set (descriptors ws). 0 \<le> fd \<and> fd \<notin> base) \<and>
      (Ended \<notin> set (sv_threads sv) \<longrightarrow>
        active_count (sv_process sv) = of_nat (length (table ws))))"

definition new_process :: "'k \<Rightarrow> 'w \<Rightarrow> ('j, 's, 'h, 'w, 'k) process" where
  "new_process k w = \<lparr>kern = k, world = w, conns = Map.empty, use_count = \<lambda>_. 0, next_conn = 0,
     tasks = [], running = True, active_count = 0, total_requests = 0\<rparr>"

text \<open>
  The assumptions about what is outside the program, and the steps in which every pending task
  would settle if it were run now.
\<close>

definition calm_world ::
  "('j, 's, 'h, 'w, 'k) env \<Rightarrow> int \<Rightarrow> ('k \<Rightarrow> 'k \<Rightarrow> bool) \<Rightarrow> ('k \<Rightarrow> int set) \<Rightarrow> ('k \<Rightarrow> int \<Rightarrow> int set) \<Rightarrow>
   ('k \<Rightarrow> nat) \<Rightarrow> ('s \<Rightarrow> string) \<Rightarrow> bool" where
  "calm_world env port outside opened watched backlog avail \<longleftrightarrow>
     posix_ok (e_os env) opened watched \<and> calm_kernel (e_os env) opened \<and>
     ssl_neutral env (server_view opened watched {} []) \<and> finite_backlog env backlog \<and>
     ssl_read_ok (e_ssl env) avail \<and> ws_handlers_keep env \<and>
     (\<forall>k k'. outside k k' \<longrightarrow> same_tables opened watched k k') \<and>
     (\<forall>k. \<not> isl (snd (new_Worker (e_os env) port k)))"

definition calm_step ::
  "('j, 's, 'h, 'w, 'k) env \<Rightarrow> int \<Rightarrow> ('k \<Rightarrow> 'k \<Rightarrow> bool) \<Rightarrow>
   ('j, 's, 'h, 'w, 'k) server \<Rightarrow> ('j, 's, 'h, 'w, 'k) server \<Rightarrow> bool" where
  "calm_step env port outside sv sv' \<longleftrightarrow> server_step env port outside sv sv' \<and>
     (\<forall>t \<in> set (tasks (sv_process sv)). settled env t (sv_process sv))"

section \<open>One worker among all\<close>

lemma looping_append: "looping (xs @ ys) = looping xs @ looping ys"
  by (induction xs rule: looping.induct) simp_all

lemma table_append: "table (xs @ ys) = table xs @ table ys"
  and descriptors_append: "descriptors (xs @ ys) = descriptors xs @ descriptors ys"
  and descriptors_Cons: "descriptors (w # ws) = [socket_fd (wk_socket w), epoll_fd (wk_epoll w)] @ descriptors ws"
  by (simp_all add: table_def descriptors_def)

lemma looping_split:
  assumes "i < length ts" "ts ! i = Looping w"
  obtains A B where "looping ts = A @ w # B" "\<And>w'. looping (ts[i := Looping w']) = A @ w' # B"
    "looping (ts[i := Ended]) = A @ B"
proof
  have "ts = take i ts @ ts ! i # drop (Suc i) ts" using assms(1) by (rule id_take_nth_drop)
  then show "looping ts = looping (take i ts) @ w # looping (drop (Suc i) ts)"
    using assms(2) by (metis looping.simps(2) looping_append)
qed (use assms in \<open>simp_all add: upd_conv_take_nth_drop looping_append\<close>)

lemma looping_start:
  assumes "i < length ts" "ts ! i = Starting"
  obtains A B where "looping ts = A @ B" "looping (ts[i := Looping w]) = A @ w # B"
proof
  have "ts = take i ts @ ts ! i # drop (Suc i) ts" using assms(1) by (rule id_take_nth_drop)
  then show "looping ts = looping (take i ts) @ looping (drop (Suc i) ts)"
    using assms(2) by (metis looping.simps(3) looping_append)
qed (use assms in \<open>simp_all add: upd_conv_take_nth_drop looping_append\<close>)

lemma proc_inv_cong:
  assumes "mset E = mset E'" "v_opened v = v_opened v'" "v_watched v = v_watched v'"
    "v_reserved v = v_reserved v'"
  shows "proc_inv v E X p = proc_inv v' E' X p"
proof -
  have "set E = set E'" using assms(1) by (rule mset_eq_setD)
  moreover have "mset (map entry_conn E) = mset (map entry_conn E')" using assms(1) by simp
  then have "count_list (map entry_conn E) = count_list (map entry_conn E')"
    by (simp add: fun_eq_iff flip: count_mset)
  ultimately show ?thesis using assms(2-4) by (simp add: proc_inv_def)
qed

lemma table_mset: "mset (table (A @ w # B)) = mset (entries w @ table (A @ B))"
  by (simp add: table_def)

lemma table_epolls: "fst ` set (table ws) \<subseteq> set (map (\<lambda>w. epoll_fd (wk_epoll w)) ws)"
  by (auto simp: table_def entries_def)

definition worker_view ::
  "('k \<Rightarrow> int set) \<Rightarrow> ('k \<Rightarrow> int \<Rightarrow> int set) \<Rightarrow> int set \<Rightarrow> Worker list \<Rightarrow> Worker \<Rightarrow> Worker list \<Rightarrow> size_t \<Rightarrow> 'k wview" where
  "worker_view opened watched base A w B n =
     \<lparr>v_opened = opened, v_watched = watched, v_reserved = base \<union> set (descriptors (A @ w # B)),
      v_others = table (A @ B), v_socket = wk_socket w, v_epoll = wk_epoll w, v_keep = {}, v_count = n\<rparr>"

lemma worker_view_inv:
  assumes inv: "proc_inv (server_view opened watched base (A @ w # B)) (table (A @ w # B)) [] p"
    and d: "distinct (map fst (wk_active w))" "distinct (descriptors (A @ w # B))"
    and n: "active_count p = n + of_nat (length (wk_active w))"
  shows "winv (worker_view opened watched base A w B n) {} (w, p)"
proof -
  have "epoll_fd (wk_epoll w) \<notin> set (map (\<lambda>w. epoll_fd (wk_epoll w)) (A @ B))"
    using d(2) by (auto simp: descriptors_def)
  then have "epoll_fd (wk_epoll w) \<notin> fst ` set (table (A @ B))"
    using table_epolls [of "A @ B"] by blast
  moreover have "proc_inv (worker_view opened watched base A w B n) (entries w @ table (A @ B)) [] p"
    using inv table_mset [of A w B]
    by (subst proc_inv_cong [where E' = "table (A @ w # B)" and v' = "server_view opened watched base (A @ w # B)"])
      (simp_all add: worker_view_def server_view_def)
  ultimately show ?thesis
    using d(1) n by (simp add: winv_def worker_view_def descriptors_def)
qed

lemma worker_view_back:
  assumes inv: "winv (worker_view opened watched base A w B n) {} (w', p)"
  shows "proc_inv (server_view opened watched base (A @ w' # B)) (table (A @ w' # B)) [] p"
    "distinct (map fst (wk_active w'))" "descriptors (A @ w' # B) = descriptors (A @ w # B)"
    "active_count p = n + of_nat (length (wk_active w'))"
proof -
  have w: "wk_socket w' = wk_socket w" "wk_epoll w' = wk_epoll w"
    using inv by (simp_all add: winv_def worker_view_def)
  then show desc: "descriptors (A @ w' # B) = descriptors (A @ w # B)" by (simp add: descriptors_def)
  have "proc_inv (worker_view opened watched base A w B n) (entries w' @ table (A @ B)) [] p"
    using winv_proc [OF inv] by (simp add: worker_view_def)
  then show "proc_inv (server_view opened watched base (A @ w' # B)) (table (A @ w' # B)) [] p"
    using table_mset [of A w' B] desc
    by (subst proc_inv_cong [where E' = "entries w' @ table (A @ B)" and v' = "worker_view opened watched base A w B n"])
      (simp_all add: worker_view_def server_view_def)
  show "distinct (map fst (wk_active w'))" "active_count p = n + of_nat (length (wk_active w'))"
    using inv by (simp_all add: winv_def worker_view_def)
qed

section \<open>Every step keeps the invariant\<close>

lemma server_invD:
  assumes "server_inv opened watched base sv" and "looping (sv_threads sv) = ws"
  shows "proc_inv (server_view opened watched base ws) (table ws) [] (sv_process sv)"
    "\<And>w. w \<in> set ws \<Longrightarrow> distinct (map fst (wk_active w))" "distinct (descriptors ws)"
    "Ended \<notin> set (sv_threads sv) \<Longrightarrow> active_count (sv_process sv) = of_nat (length (table ws))"
    "\<And>fd. fd \<in> set (descriptors ws) \<Longrightarrow> 0 \<le> fd \<and> fd \<notin> base"
  using assms by (simp_all add: server_inv_def Let_def)

lemma Ended_update: "Ended \<notin> set (ts[i := Looping w]) \<Longrightarrow> ts ! i \<noteq> Ended \<Longrightarrow> Ended \<notin> set ts"
  by (metis in_set_conv_nth length_list_update nth_list_update_neq)

lemma calm_iteration:
  assumes calm: "calm_world env port outside opened watched backlog avail"
    and inv: "server_inv opened watched base sv" and i: "i < length (sv_threads sv)" "sv_threads sv ! i = Looping w"
  shows "\<exists>w' p'. run_iteration env (w, sv_process sv) = Some ((w', p'), Inr ()) \<and>
    server_inv opened watched base (sv\<lparr>sv_threads := (sv_threads sv)[i := Looping w'], sv_process := p'\<rparr>)"
proof -
  obtain A B where AB: "looping (sv_threads sv) = A @ w # B"
    "\<And>w'. looping ((sv_threads sv)[i := Looping w']) = A @ w' # B"
    using looping_split [OF i] by metis
  note sv = server_invD [OF inv AB(1)]
  define n where "n = active_count (sv_process sv) - of_nat (length (wk_active w))"
  let ?v = "worker_view opened watched base A w B n"
  have "winv ?v {} (w, sv_process sv)"
    using sv(2) by (intro worker_view_inv sv(1,3)) (simp_all add: n_def)
  moreover have "posix_ok (e_os env) (v_opened ?v) (v_watched ?v)" "calm_kernel (e_os env) (v_opened ?v)"
    "ssl_neutral env ?v" "finite_backlog env backlog" "ssl_read_ok (e_ssl env) avail" "v_keep ?v = {}"
    using calm by (simp_all add: calm_world_def worker_view_def ssl_neutral_def server_view_def)
  ultimately obtain st where st: "run_iteration env (w, sv_process sv) = Some (st, Inr ())" "winv ?v {} st"
    using run_iteration_ok by blast
  obtain w' p' where wp: "st = (w', p')" by fastforce
  have "winv ?v {} (w', p')" using st(2) wp by simp
  note ret = worker_view_back [OF this]
  have count: "Ended \<notin> set ((sv_threads sv)[i := Looping w']) \<Longrightarrow>
      active_count p' = of_nat (length (table (A @ w' # B)))"
  proof -
    assume "Ended \<notin> set ((sv_threads sv)[i := Looping w'])"
    then have "Ended \<notin> set (sv_threads sv)" using i(2) by (auto dest: Ended_update)
    then have "n = of_nat (length (table (A @ B)))"
      using sv(4) by (simp add: n_def table_def entries_def)
    then show "active_count p' = of_nat (length (table (A @ w' # B)))"
      using ret(4) by (simp add: table_def entries_def)
  qed
  have "\<forall>x \<in> set (A @ w' # B). distinct (map fst (wk_active x))" using sv(2) ret(2) by auto
  then have "server_inv opened watched base (sv\<lparr>sv_threads := (sv_threads sv)[i := Looping w'], sv_process := p'\<rparr>)"
    using inv ret(1,3) sv(3,5) count by (simp add: server_inv_def AB(2))
  with st wp show ?thesis by blast
qed

lemma calm_thread_ends:
  assumes calm: "calm_world env port outside opened watched backlog avail"
    and inv: "server_inv opened watched base sv" and i: "i < length (sv_threads sv)" "sv_threads sv ! i = Looping w"
  shows "server_inv opened watched base (sv\<lparr>sv_threads := (sv_threads sv)[i := Ended],
      sv_process := delete_Worker (e_os env) (w, sv_process sv)\<rparr>)"
proof -
  let ?os = "e_os env"
  obtain A B where AB: "looping (sv_threads sv) = A @ w # B"
    "looping ((sv_threads sv)[i := Ended]) = A @ B"
    using looping_split [OF i] by metis
  note sv = server_invD [OF inv AB(1)]
  let ?v = "server_view opened watched base (A @ w # B)"
  have px: "posix_ok ?os opened watched" using calm by (simp add: calm_world_def)
  have "proc_inv ?v (map (\<lambda>(fd, cid). (epoll_fd (wk_epoll w), fd, cid)) (wk_active w) @ table (A @ B)) []
      (sv_process sv)"
    using sv(1) table_mset [of A w B]
    by (subst proc_inv_cong [where E' = "table (A @ w # B)" and v' = ?v]) (simp_all add: entries_def)
  then have 1: "proc_inv ?v (table (A @ B)) [] (fold (\<lambda>(fd, cid). release ?os cid) (wk_active w) (sv_process sv))"
    (is "proc_inv _ _ _ ?p") using px by (intro proc_inv_release_table) (simp_all add: server_view_def)
  let ?s = "file_descriptor (wk_socket w)" and ?e = "epoll_fd (wk_epoll w)"
  have nn: "?e \<noteq> - 1" "?s \<noteq> - 1" "?e \<notin> base" "?s \<notin> base"
    using sv(5) [of ?e] sv(5) [of ?s] by (auto simp: descriptors_def socket_fd_def)
  from proc_inv_shrink [OF _ 1, of ?os ?e] px sv(3) nn
  have 2: "proc_inv (?v\<lparr>v_reserved := v_reserved ?v - {?e}\<rparr>) (table (A @ B)) []
      (?p\<lparr>kern := delete_Epoll ?os (wk_epoll w) (kern ?p)\<rparr>)"
    by (simp add: server_view_def delete_Epoll_def descriptors_def)
  from proc_inv_shrink [OF _ 2, of ?os ?s] px sv(3) nn
  have "proc_inv (?v\<lparr>v_reserved := v_reserved ?v - {?e} - {?s}\<rparr>) (table (A @ B)) []
      (delete_Worker ?os (w, sv_process sv))"
    by (auto simp: server_view_def delete_Worker_def descriptors_def socket_close_def socket_fd_def Let_def)
  moreover have "v_reserved ?v - {?e} - {?s} = base \<union> set (descriptors (A @ B))"
    using sv(3) nn by (auto simp: server_view_def descriptors_def socket_fd_def)
  ultimately have "proc_inv (server_view opened watched base (A @ B)) (table (A @ B)) []
      (delete_Worker ?os (w, sv_process sv))"
    by (simp add: server_view_def)
  moreover have "distinct (descriptors (A @ B))" using sv(3) by (auto simp: descriptors_def)
  ultimately show ?thesis
    using inv sv(2,5) i(1) by (auto simp: server_inv_def AB(2) set_update_memI descriptors_append descriptors_Cons)
qed

lemma calm_thread_starts:
  assumes calm: "calm_world env port outside opened watched backlog avail"
    and inv: "server_inv opened watched base sv" and i: "i < length (sv_threads sv)" "sv_threads sv ! i = Starting"
    and new: "new_Worker (e_os env) port (kern (sv_process sv)) = (k', Inr w)"
  shows "server_inv opened watched base (sv\<lparr>sv_threads := (sv_threads sv)[i := Looping w],
      sv_process := (sv_process sv)\<lparr>kern := k'\<rparr>\<rparr>)"
proof -
  obtain A B where AB: "looping (sv_threads sv) = A @ B" "looping ((sv_threads sv)[i := Looping w]) = A @ w # B"
    using looping_start [OF i] by metis
  note sv = server_invD [OF inv AB(1)]
  have px: "posix_ok (e_os env) opened watched" using calm by (simp add: calm_world_def)
  note w = new_Worker_Inr [OF px new]
  let ?R = "{socket_fd (wk_socket w), epoll_fd (wk_epoll w)}" and ?v = "server_view opened watched base (A @ B)"
  have tab: "table (A @ w # B) = table (A @ B)" using w(1) by (simp add: table_def entries_def)
  have "proc_inv (?v\<lparr>v_reserved := ?R \<union> v_reserved ?v\<rparr>) (table (A @ B)) [] ((sv_process sv)\<lparr>kern := k'\<rparr>)"
    using w by (intro proc_inv_grow [OF sv(1)]) (auto simp: server_view_def)
  moreover have "?v\<lparr>v_reserved := ?R \<union> v_reserved ?v\<rparr> = server_view opened watched base (A @ w # B)"
    by (auto simp: server_view_def descriptors_def)
  ultimately have "proc_inv (server_view opened watched base (A @ w # B)) (table (A @ w # B)) []
      ((sv_process sv)\<lparr>kern := k'\<rparr>)" by (simp add: tab)
  moreover have R: "base \<union> set (descriptors (A @ B)) \<subseteq> opened (kern (sv_process sv))"
    using proc_invD(10) [OF sv(1)] by (simp add: server_view_def)
  then have "distinct (descriptors (A @ w # B))" using sv(3) w(2-4) by (auto simp: descriptors_def)
  moreover have "\<forall>fd \<in> set (descriptors (A @ w # B)). 0 \<le> fd \<and> fd \<notin> base"
    using sv(5) R w(2,3,7,8) by (auto simp: descriptors_append descriptors_Cons)
  moreover have "\<forall>x \<in> set (A @ w # B). distinct (map fst (wk_active x))" using sv(2) w(1) by auto
  moreover have "active_count (sv_process sv) = of_nat (length (table (A @ w # B)))"
    if "Ended \<notin> set ((sv_threads sv)[i := Looping w])"
    using Ended_update [OF that] i(2) sv(4) tab by simp
  ultimately show ?thesis using inv by (simp add: server_inv_def AB(2))
qed

lemma server_inv_process:
  assumes "server_inv opened watched base sv"
    and "\<And>E v. v_opened v = opened \<Longrightarrow> v_watched v = watched \<Longrightarrow> proc_inv v E [] (sv_process sv) \<Longrightarrow>
      proc_inv (v :: 'k view) E [] p'"
    and "active_count p' = active_count (sv_process sv)"
  shows "server_inv opened watched base (sv\<lparr>sv_process := p'\<rparr>)"
  using assms by (simp add: server_inv_def Let_def server_view_def)

lemma calm_step_inv:
  assumes calm: "calm_world env port outside opened watched backlog avail"
    and inv: "server_inv opened watched base sv" and step: "calm_step env port outside sv sv'"
  shows "server_inv opened watched base sv'"
proof -
  have px: "posix_ok (e_os env) opened watched" and ws: "ws_handlers_keep env"
    and out: "\<And>k k'. outside k k' \<Longrightarrow> same_tables opened watched k k'"
    and boot: "\<And>k. \<not> isl (snd (new_Worker (e_os env) port k))"
    using calm by (simp_all add: calm_world_def)
  have settle: "\<And>t. t \<in> set (tasks (sv_process sv)) \<Longrightarrow> settled env t (sv_process sv)"
    and st: "server_step env port outside sv sv'" using step by (simp_all add: calm_step_def)
  from st show ?thesis
  proof cases
    case (thread_starts i k' w)
    then show ?thesis using calm_thread_starts [OF calm inv] by simp
  next
    case (thread_fails i k' e)
    with boot [of "kern (sv_process sv)"] show ?thesis by simp
  next
    case (iteration i w w' p' r)
    then show ?thesis using calm_iteration [OF calm inv, of i w] inv by (auto simp: server_inv_def)
  next
    case (thread_ends i w)
    then show ?thesis using calm_thread_ends [OF calm inv] by simp
  next
    case (task t)
    note run = run_task_ok [OF _ ws task(3) settle [OF task(3)]]
    have "active_count (run_task env t (sv_process sv)) = active_count (sv_process sv)"
      using run(2) [OF _ server_invD(1) [OF inv refl]] px by (simp add: server_view_def)
    then show ?thesis unfolding task(1)
      by (rule server_inv_process [OF inv, rotated]) (use run(1) px in auto)
  next
    case stop
    then show ?thesis by (auto simp: server_stop_def intro!: server_inv_process [OF inv])
  next
    case (time_passes k')
    from out [OF time_passes(3)] show ?thesis unfolding time_passes(1)
      by (intro server_inv_process [OF inv]) (auto intro: proc_inv_kern)
  next
    case (peer_acts cid c ssl)
    then show ?thesis by (auto intro!: server_inv_process [OF inv] proc_inv_conn)
  qed
qed

definition calm_init ::
  "('j, 's, 'h, 'w, 'k) env \<Rightarrow> int \<Rightarrow> ('k \<Rightarrow> 'k \<Rightarrow> bool) \<Rightarrow> ('k \<Rightarrow> int set) \<Rightarrow> ('k \<Rightarrow> int \<Rightarrow> int set) \<Rightarrow>
   ('k \<Rightarrow> nat) \<Rightarrow> ('s \<Rightarrow> string) \<Rightarrow> int set \<Rightarrow> ('j, 's, 'h, 'w, 'k) server \<Rightarrow> bool" where
  "calm_init env port outside opened watched backlog avail base sv \<longleftrightarrow>
     calm_world env port outside opened watched backlog avail \<and>
     (\<exists>n k w. opened k = base \<and> sv = TcpServer_start n (new_process k w))"

definition calm_inv ::
  "('j, 's, 'h, 'w, 'k) env \<Rightarrow> int \<Rightarrow> ('k \<Rightarrow> 'k \<Rightarrow> bool) \<Rightarrow> ('k \<Rightarrow> int set) \<Rightarrow> ('k \<Rightarrow> int \<Rightarrow> int set) \<Rightarrow>
   ('k \<Rightarrow> nat) \<Rightarrow> ('s \<Rightarrow> string) \<Rightarrow> int set \<Rightarrow> ('j, 's, 'h, 'w, 'k) server \<Rightarrow> bool" where
  "calm_inv env port outside opened watched backlog avail base sv \<longleftrightarrow>
     calm_world env port outside opened watched backlog avail \<and> server_inv opened watched base sv"

lemma server_inv_start: "server_inv opened watched (opened k) (TcpServer_start n (new_process k w))"
proof -
  have l: "looping (replicate m Starting) = []" for m by (induction m) simp_all
  show ?thesis
    by (simp add: server_inv_def TcpServer_start_def l table_def descriptors_def server_view_def
        new_process_def proc_inv_def)
qed

interpretation srv: invariant_system "calm_init env port outside opened watched backlog avail base"
  "calm_step env port outside" "calm_inv env port outside opened watched backlog avail base"
  for env port outside opened watched backlog avail base
proof
  show "\<And>s. calm_init env port outside opened watched backlog avail base s \<Longrightarrow>
      calm_inv env port outside opened watched backlog avail base s"
    by (auto simp: calm_init_def calm_inv_def server_inv_start)
  show "\<And>s t. calm_inv env port outside opened watched backlog avail base s \<Longrightarrow>
      calm_step env port outside s t \<Longrightarrow> calm_inv env port outside opened watched backlog avail base t"
    by (auto simp: calm_inv_def intro: calm_step_inv)
qed

text \<open>No descriptor leaks; when all workers have ended and all tasks are done, the process has those it started with.\<close>

lemma looping_Ended: "set ts \<subseteq> {Ended} \<Longrightarrow> looping ts = []"
  by (induction ts rule: looping.induct) auto

lemma server_inv_descriptors:
  assumes "server_inv opened watched base sv"
  shows "opened (kern (sv_process sv)) =
      base \<union> set (descriptors (looping (sv_threads sv))) \<union> cc_socket ` ran (conns (sv_process sv))"
    and "set (sv_threads sv) \<subseteq> {Ended} \<Longrightarrow> tasks (sv_process sv) = [] \<Longrightarrow> opened (kern (sv_process sv)) = base"
proof -
  let ?p = "sv_process sv"
  note inv = server_invD(1) [OF assms refl]
  show op: "opened (kern ?p) = base \<union> set (descriptors (looping (sv_threads sv))) \<union> cc_socket ` ran (conns ?p)"
    using proc_invD(5,10,11) [OF inv] by (force simp: server_view_def ran_def)
  assume e: "set (sv_threads sv) \<subseteq> {Ended}" and t: "tasks ?p = []"
  then have "conns ?p cid = None" for cid
    using proc_invD(3,4) [OF inv, of cid] looping_Ended [OF e] by (simp add: table_def)
  then show "opened (kern ?p) = base" using op looping_Ended [OF e] by (auto simp: descriptors_def ran_def)
qed

section \<open>A task that closes its descriptor\<close>

text \<open>
  A task without keep-alive closes the descriptor, but the worker's table keeps the entry, and with it
  the connection: the next time the worker removes the descriptor from its epoll instance, the call
  fails and the exception leaves the event loop.
\<close>

lemma http_task_body_closing: "snd (http_task_body env ep cid req fd False p) \<noteq> Inr True"
proof
  assume "snd (http_task_body env ep cid req fd False p) = Inr True"
  then obtain p' where "http_task_body env ep cid req fd False p = (p', Inr True)"
    by (metis prod.collapse)
  then show False by (auto simp: http_task_body_def eff_bind_eq_Inr eff_return_def)
qed

lemma closing_task_state:
  assumes px: "posix_ok (e_os env) (v_opened v) (v_watched v)" and inv: "proc_inv v E [] p"
    and e: "(e, fd, cid) \<in> set E" and t: "HttpTask ep cid req fd False \<in> set (tasks p)"
  shows "\<exists>c. conns (run_task env (HttpTask ep cid req fd False) p) cid = Some c \<and> cc_socket c = fd"
    and "fd \<notin> v_watched v (kern (run_task env (HttpTask ep cid req fd False) p)) e'"
    and "fd \<notin> v_opened v (kern (run_task env (HttpTask ep cid req fd False) p))"
proof -
  let ?t = "HttpTask ep cid req fd False"
  obtain p1 r where b: "http_task_body env ep cid req fd False p = (p1, r)" by fastforce
  have "task_inv v E (tasks p) (active_count p) p" using inv by (simp add: task_inv_def)
  from tripleD [OF task_triple_http [OF px] this, of ep cid req fd False p1] b
  have p1: "proc_inv v E [] p1" "tasks p1 = tasks p" by (cases r; simp add: task_inv_def)+
  have c: "run_closure env ?t p = raw_close (e_os env) fd p1"
    using b http_task_body_closing [of env ep cid req fd p] by (simp add: close_unless_rearmed_def)
  have "cid \<in> set (map entry_conn E)" using e by (force simp: entry_conn_def)
  moreover have "cid \<in> set (map task_conn (tasks p1))" using t p1(2) by force
  ultimately have "1 \<le> count_list (map entry_conn E) cid" "1 \<le> count_list (map task_conn (tasks p1)) cid"
    by (metis One_nat_def Suc_leI count_list_0_iff gr0I)+
  then have "1 < use_count p1 cid" using proc_invD(3) [OF p1(1), of cid] by simp
  then have run: "run_task env ?t p = (raw_close (e_os env) fd p1)\<lparr>tasks := remove1 ?t (tasks p),
      use_count := (use_count p1)(cid := use_count p1 cid - 1)\<rparr>"
    unfolding run_task_def c by (simp add: release_def raw_close_def)
  show "\<exists>c. conns (run_task env ?t p) cid = Some c \<and> cc_socket c = fd"
    using proc_invD(2) [OF p1(1) e] by (simp add: run raw_close_def)
  show "fd \<notin> v_watched v (kern (run_task env ?t p)) e'" "fd \<notin> v_opened v (kern (run_task env ?t p))"
    by (simp_all add: run raw_close_def closed_tables [OF px])
qed

lemma disconnect_all_throws:
  assumes px: "posix_ok (e_os env) opened watched"
  shows "fd \<in> set fds \<Longrightarrow> fd \<notin> watched (kern (snd st)) (epoll_fd (wk_epoll (fst st))) \<Longrightarrow>
    \<exists>st'. disconnect_all env fds st =
      (st', Inl (runtime_error ''Failed to remove file descriptor from epoll''))"
proof (induction fds arbitrary: st)
  case (Cons f fds)
  let ?k = "kern (snd st)" and ?ep = "wk_epoll (fst st)" and ?e = "epoll_fd (wk_epoll (fst st))"
  show ?case
  proof (cases "f \<in> opened ?k \<and> f \<in> watched ?k ?e")
    case True
    then obtain k' where k': "epoll_remove (e_os env) ?ep f ?k = (k', Inr ())"
      "watched k' = (watched ?k)(?e := watched ?k ?e - {f})"
      using epoll_remove_ok [OF px] by metis
    let ?st = "erase_active (e_os env) f (fst st, (snd st)\<lparr>kern := k'\<rparr>)"
    have "disconnectClient env f st = (?st, Inr ())"
      using k' by (simp add: disconnectClient_def eff_bind_def eff_modify_def on_process_def on_kernel_def)
    moreover have "watched (kern (snd ?st)) ?e \<subseteq> watched k' ?e" "wk_epoll (fst ?st) = ?ep"
      using closed_tables(2) [OF px]
      by (auto simp: erase_active_def release_def socket_close_def Let_def split: option.splits)
    moreover have "f \<noteq> fd" using True Cons.prems(2) by auto
    ultimately show ?thesis using Cons.IH [of ?st] Cons.prems k' by (auto simp: eff_bind_def)
  next
    case False
    then obtain k' where "epoll_remove (e_os env) ?ep f ?k =
        (k', Inl (runtime_error ''Failed to remove file descriptor from epoll''))"
      using epoll_remove_fails [OF px] by metis
    then show ?thesis
      by (simp add: disconnectClient_def eff_bind_def on_process_def on_kernel_def)
  qed
qed simp

lemma sweep_throws:
  assumes px: "posix_ok (e_os env) opened watched"
    and idle: "fd \<in> set (snd (collect_idle (e_os env) (conns p) (wk_active w) (kern p)))"
    and fd: "fd \<notin> watched (kern p) (epoll_fd (wk_epoll w))"
  shows "\<exists>st'. sweepIdleConnections env (w, p) =
    (st', Inl (runtime_error ''Failed to remove file descriptor from epoll''))"
proof -
  obtain k' fds where col: "collect_idle (e_os env) (conns p) (wk_active w) (kern p) = (k', fds)" by fastforce
  have "same_tables opened watched (kern p) k'"
    using collect_idle_same [of "e_os env" "server_view opened watched {} []" "kern p" "conns p" "wk_active w"] px col
    by (simp add: server_view_def)
  then have "watched k' = watched (kern p)" by (simp add: same_tables_def)
  then show ?thesis
    using disconnect_all_throws [OF px, of fd fds "(w, p\<lparr>kern := k'\<rparr>)"] fd col idle
    by (simp add: sweepIdleConnections_def)
qed

lemma closing_task_ends_loop:
  assumes px: "posix_ok (e_os env) opened watched" and inv: "server_inv opened watched base sv"
    and i: "i < length (sv_threads sv)" "sv_threads sv ! i = Looping w" and a: "(fd, cid) \<in> set (wk_active w)"
    and t: "HttpTask ep cid req fd False \<in> set (tasks (sv_process sv))"
    and p: "p = run_task env (HttpTask ep cid req fd False) (sv_process sv)"
    and k: "same_tables opened watched (kern p) k" "epoll_wait (e_os env) (wk_epoll w) 1000 k = (k', Inr [])"
    and idle: "fd \<in> set (snd (collect_idle (e_os env) (conns p) (wk_active w) k'))"
  shows "\<exists>st'. run_iteration env (w, p\<lparr>kern := k\<rparr>) =
    Some (st', Inl (runtime_error ''Failed to remove file descriptor from epoll''))"
proof -
  obtain A B where AB: "looping (sv_threads sv) = A @ w # B" using looping_split [OF i] by metis
  let ?v = "server_view opened watched base (A @ w # B)" and ?E = "table (A @ w # B)"
  have e: "(epoll_fd (wk_epoll w), fd, cid) \<in> set ?E" using a by (force simp: table_def entries_def)
  have "posix_ok (e_os env) (v_opened ?v) (v_watched ?v)" using px by (simp add: server_view_def)
  from closing_task_state(2) [OF this server_invD(1) [OF inv AB] e t]
  have "fd \<notin> watched (kern p) (epoll_fd (wk_epoll w))" by (simp add: p server_view_def)
  moreover have "same_tables opened watched k k'" using epoll_wait_same [OF px, of k "wk_epoll w" 1000] k(2) by simp
  ultimately have "fd \<notin> watched k' (epoll_fd (wk_epoll w))" using k(1) by (simp add: same_tables_def)
  then obtain st' where "sweepIdleConnections env (w, p\<lparr>kern := k'\<rparr>) =
      (st', Inl (runtime_error ''Failed to remove file descriptor from epoll''))"
    using sweep_throws [OF px, of fd "p\<lparr>kern := k'\<rparr>" w] idle by auto
  then show ?thesis
    using k(2) by (simp add: run_iteration_def on_process_def on_kernel_def)
qed

text \<open>When the descriptor is used again for a new connection first, the assignment to the table's entry
  destroys the old connection, whose socket closes the descriptor of the new one.\<close>

lemma stale_entry_accept_throws:
  assumes px: "posix_ok (e_os env) opened watched" and calm: "calm_kernel (e_os env) opened"
    and ssl: "ssl_neutral env (server_view opened watched {} [])"
    and acc: "socket_accept (e_os env) (wk_socket w) (kern p) = (k1, Inr (Socket_of fd))" "fd \<noteq> - 1"
    and old: "map_of (wk_active w) fd = Some cid" "conns p cid = Some c" "cc_socket c = fd"
      "use_count p cid = 1" "cid \<noteq> next_conn p"
  shows "\<exists>st'. accept_one env (w, p) =
    (st', Inl (runtime_error ''Failed to add file descriptor to epoll''))"
proof -
  let ?os = "e_os env" and ?s = "Socket_of fd"
  have fd: "file_descriptor ?s = fd" "socket_fd ?s = fd" "socket_valid ?s"
    using acc(2) by (simp_all add: Socket_of_def socket_fd_def socket_valid_def)
  have "fd \<in> opened k1" using px acc
    by (cases rule: socket_accept_cases) (auto simp: Socket_of_def Socket_invalid_def)
  then have "fd \<in> v_opened (server_view opened watched {} []) k1" by (simp add: server_view_def)
  then obtain k2 k3 sl k4 t where nb: "setNonBlocking ?os ?s k1 = (k2, Inr ())"
    and sn: "e_new_ssl env fd k2 = (k3, sl)" and nw: "sys_now ?os k3 = (k4, t)"
    and "same_tables (v_opened (server_view opened watched {} [])) (v_watched (server_view opened watched {} [])) k1 k4"
    using px calm by (elim accept_prepare [OF _ _ ssl, rotated -1]) (simp_all add: server_view_def)
  let ?k5 = "fst (sys_close ?os fd k4)"
  have "fd \<notin> opened ?k5" by (simp add: closed_tables [OF px])
  then obtain k6 where add: "epoll_add ?os (wk_epoll w) fd REARM ?k5 =
      (k6, Inl (runtime_error ''Failed to add file descriptor to epoll''))"
    using epoll_add_fails [OF px] by metis
  have "fst (socket_close ?os \<lparr>file_descriptor = fd\<rparr> k4) = ?k5" using acc(2) by (simp add: socket_close_def)
  then show ?thesis
    using acc nb sn nw add old fd
    by (simp add: accept_one_def on_process_def on_kernel_def eff_defs closing_on_throw_def
        new_ssl_def now_def register_client_def release_def Let_def Socket_of_def)
qed

section \<open>A request in two pieces\<close>

text \<open>The parts of a request that come from its request line.\<close>

definition line_of :: "'j HttpRequest \<Rightarrow> HttpMethod \<times> string \<times> string \<times> string" where
  "line_of r = (rq_method r, rq_target r, rq_version r, rq_path r)"

lemma line_of_simps [simp]:
  "line_of (req_addHeader r name v) = line_of r"
  "line_of (req_setBody r b) = line_of r"
  by (simp_all add: line_of_def req_addHeader_def req_setBody_def)

lemma parseHeaders_loop_line: "line_of (snd (parseHeaders_loop d i n r)) = line_of r"
proof (induction d i n r rule: parseHeaders_loop.induct)
  case (1 d i n r)
  then show ?case
    by (subst parseHeaders_loop.simps) (simp add: Let_def split: option.splits)
qed

lemma parser_step_line:
  assumes "parser_step d p r = (p', r', v)" "state p \<noteq> StRequestLine"
  shows "line_of r' = line_of r" "state p' \<noteq> StRequestLine"
proof -
  have sf: "select_framing q s = (p', r', v) \<Longrightarrow> line_of r' = line_of s" for q s
    by (auto simp: select_framing_def parser_fail_def Let_def split: if_splits prod.splits)
  have hd: "line_of s = line_of r" if "parseHeaders x r = (w, s)" for x w s
    using parseHeaders_loop_line [of x 0 0 r] that by (simp add: parseHeaders_def)
  show "line_of r' = line_of r"
  proof (cases "state p")
    case StHeaders
    then show ?thesis using assms
      by (auto simp: parser_step_def handleHeaders_def parser_fail_def Let_def
          split: if_splits option.splits prod.splits ParseResult.splits dest!: sf hd)
  qed (use assms in \<open>auto simp: parser_step_def handler_defs parser_fail_def Let_def
      split: if_splits option.splits prod.splits ParseResult.splits\<close>)
  have sf': "select_framing q s = (p', r', v) \<Longrightarrow> state p' \<noteq> StRequestLine" for q s
    by (auto simp: select_framing_def parser_fail_def Let_def split: if_splits prod.splits)
  show "state p' \<noteq> StRequestLine"
  proof (cases "state p")
    case StHeaders
    then show ?thesis using assms
      by (auto simp: parser_step_def handleHeaders_def parser_fail_def Let_def
          split: if_splits option.splits prod.splits ParseResult.splits dest!: sf')
  qed (use assms in \<open>auto simp: parser_step_def handler_defs parser_fail_def Let_def
      split: if_splits option.splits prod.splits ParseResult.splits\<close>)
qed

lemma parse_line:
  assumes "parse d p r = (p', r', v)" "state p \<noteq> StRequestLine"
  shows "line_of r' = line_of r"
  using assms
proof (induction rule: parse_run_induct)
  case (finish p r)
  then show ?case by (rule parser_step_line(1))
next
  case (continue p r q s)
  from continue(3) [OF parser_step_line(2) [OF continue(1,4)]] parser_step_line(1) [OF continue(1,4)]
  show ?case by simp
qed

text \<open>
  The worker parses into a request that is new in every call. When the request line came in an
  earlier piece, the parser goes on behind it, and the request that is dispatched has none.
\<close>

abbreviation tasks_are :: "'j task list \<Rightarrow> ('j, 's, 'h, 'w, 'k) wstate \<Rightarrow> bool" where
  "tasks_are ts \<equiv> \<lambda>st. tasks (snd st) = ts"

lemma tasks_triples:
  "triple (tasks_are ts) (on_process (on_kernel m)) (\<lambda>_. tasks_are ts) (tasks_are ts)"
  "triple (tasks_are ts) (on_process (on_conn cid g)) (\<lambda>_. tasks_are ts) (tasks_are ts)"
  "triple (tasks_are ts) (rearm env fd ev) (\<lambda>_. tasks_are ts) (tasks_are ts)"
  by (auto intro!: triple_keeps simp: on_process_def on_kernel_def on_conn_def rearm_def
      split: prod.splits option.splits)

lemma tasks_disconnect:
  "triple (tasks_are ts) (disconnectClient env fd) (\<lambda>_. tasks_are ts) (tasks_are ts)"
  by (rule triple_keeps) (auto simp: disconnectClient_def eff_bind_def eff_modify_def on_process_def
      on_kernel_def erase_active_def release_def Let_def split: prod.splits sum.splits option.splits)

lemma tasks_upgrade:
  "triple (tasks_are ts) (upgrade_turn env fd cid req) (\<lambda>_. tasks_are ts) (tasks_are ts)"
  unfolding upgrade_turn_def by (intro triple_seq tasks_triples)

lemma tasks_dispatch:
  "triple (tasks_are ts) (dispatch_turn env fd cid req)
     (\<lambda>_ st. \<exists>ep. tasks_are (ts @ [HttpTask ep cid req fd (keep_alive req)]) st) (tasks_are ts)"
  unfolding dispatch_turn_def
proof (intro triple_seq tasks_triples, goal_cases)
  case (1 x)
  show ?case by (rule triple_keeps) (simp add: on_process_def eff_modify_def)
next
  case (2 x y)
  show ?case by (rule triple_get) simp
next
  case (3 x y ep)
  show ?case by (rule tripleI) (auto simp: on_process_def eff_modify_def enqueue_def)
qed

definition http_verdict ::
  "('j, 's, 'h, 'w, 'k) env \<Rightarrow> int \<Rightarrow> nat \<Rightarrow> 'j HttpRequest \<Rightarrow> ParseResult \<Rightarrow>
   (('j, 's, 'h, 'w, 'k) wstate, unit) effect" where
  "http_verdict env fd cid req v =
     (case v of
        Incomplete \<Rightarrow> rearm env fd REARM
      | Invalid \<Rightarrow>
          eff_bind (on_process (on_conn cid (\<lambda>c. conn_send (e_ssl env) c (serialize bad_request)))) (\<lambda>_.
            disconnectClient env fd)
      | Complete \<Rightarrow>
          if wants_upgrade req then upgrade_turn env fd cid req else dispatch_turn env fd cid req)"

lemma tasks_http_verdict:
  fixes env :: "('j, 's, 'h, 'w, 'k) env"
  assumes ka: "\<not> keep_alive req"
  shows "triple (tasks_are ts) (http_verdict env fd cid req v)
    (\<lambda>_ st. tasks_are ts st \<or> (\<exists>ep. tasks_are (ts @ [HttpTask ep cid req fd False]) st)) (tasks_are ts)"
    (is "triple _ _ ?R _")
proof -
  have w: "triple (tasks_are ts) m (\<lambda>_. tasks_are ts) (tasks_are ts) \<Longrightarrow> triple (tasks_are ts) m ?R (tasks_are ts)"
    for m :: "(('j, 's, 'h, 'w, 'k) wstate, unit) effect"
    by (erule triple_conseq) auto
  have disp: "triple (tasks_are ts) (dispatch_turn env fd cid req) ?R (tasks_are ts)"
    by (rule triple_conseq [OF tasks_dispatch]) (auto simp: ka)
  show ?thesis
  proof (cases v)
    case Complete
    show ?thesis unfolding http_verdict_def Complete ParseResult.case
      by (rule triple_if) (rule w [OF tasks_upgrade], rule disp)
  next
    case Incomplete
    show ?thesis unfolding http_verdict_def Incomplete ParseResult.case by (rule w [OF tasks_triples(3)])
  next
    case Invalid
    show ?thesis unfolding http_verdict_def Invalid ParseResult.case
      by (rule w) (rule triple_seq [OF tasks_triples(2) tasks_disconnect])
  qed
qed

lemma http_turn_line_lost:
  fixes st :: "('j, 's, 'h, 'w, 'k) wstate"
  assumes c: "conns (snd st) cid = Some c" and s: "state (parser c) \<noteq> StRequestLine"
    and run: "http_turn env fd cid st = (st', r)"
  shows "tasks (snd st') = tasks (snd st) \<or>
    (\<exists>ep req. tasks (snd st') = tasks (snd st) @ [HttpTask ep cid req fd False] \<and>
       rq_method req = UNKNOWN \<and> rq_path req = [] \<and> rq_version req = [])"
proof -
  let ?ts = "tasks (snd st)"
  obtain p' v and req :: "'j HttpRequest" where q: "parse (rb_data (readBuffer c)) (parser c) new_request = (p', req, v)"
    by (metis prod_cases3)
  have "line_of req = line_of (new_request :: 'j HttpRequest)" by (rule parse_line [OF q s])
  then have line: "rq_method req = UNKNOWN" "rq_path req = []" "rq_version req = []"
    by (simp_all add: line_of_def new_request_def make_request_def)
  then have ka: "\<not> keep_alive req" by (simp add: keep_alive_def)
  let ?st = "(fst st, (snd st)\<lparr>conns := (conns (snd st))(cid \<mapsto> c\<lparr>parser := p'\<rparr>)\<rparr>)"
  have run': "http_verdict env fd cid req v ?st = (st', r)"
    using run c q
    by (simp add: http_turn_def http_verdict_def eff_bind_def on_process_def on_conn_def take_request_def parseRequest_def)
  note t = tripleD [OF tasks_http_verdict [OF ka, of ?ts env fd cid v], of ?st st']
  show ?thesis
  proof (cases r)
    case (Inl e)
    with t(2) run' show ?thesis by simp
  next
    case (Inr x)
    with t(1) run' have "tasks_are ?ts st' \<or> (\<exists>ep. tasks_are (?ts @ [HttpTask ep cid req fd False]) st')"
      by simp
    with line show ?thesis by blast
  qed
qed

end
