(* ===== verification/App_Services.thy ===== *)
theory App_Services
  imports Router
begin

text \<open>
  The utilities and middlewares of the application: \<^verbatim>\<open>src/src/utils/EnvParser.cpp\<close>,
  \<^verbatim>\<open>src/src/utils/CryptoUtils.cpp\<close>, \<^verbatim>\<open>src/src/utils/JwtUtils.cpp\<close>, \<^verbatim>\<open>src/src/utils/SslManager.cpp\<close>,
  \<^verbatim>\<open>src/src/middlewares/AuthMiddleware.cpp\<close> and \<^verbatim>\<open>src/src/middlewares/RateLimiter.cpp\<close>.

  libsodium, jwt-cpp, redis++ and OpenSSL's context functions are records of parameters that act on
  the world \<open>'w\<close> of the request handlers.
\<close>

section \<open>EnvParser\<close>

text \<open>\<open>std::getline\<close> until the end of the file: a newline ends a line and is dropped.\<close>

function getlines :: "string \<Rightarrow> string list" where
  "getlines s =
     (if s = [] then []
      else takeWhile (\<lambda>c. c \<noteq> LF) s # getlines (drop 1 (dropWhile (\<lambda>c. c \<noteq> LF) s)))"
  by pat_completeness auto
termination
proof (relation "measure length")
  show "wf (measure length)" by simp
  fix s :: string
  assume "s \<noteq> []"
  have "length (dropWhile (\<lambda>c. c \<noteq> LF) s) \<le> length s" by (rule length_dropWhile_le)
  with \<open>s \<noteq> []\<close> show "(drop 1 (dropWhile (\<lambda>c. c \<noteq> LF) s), s) \<in> measure length"
    by (cases s) auto
qed

declare getlines.simps [simp del]

definition env_blank :: "char \<Rightarrow> bool" where
  "env_blank c \<longleftrightarrow> c = CHR '' '' \<or> c = HTAB \<or> c = CR \<or> c = LF"

definition env_trim :: "string \<Rightarrow> string" where
  "env_trim str = rev (dropWhile env_blank (rev (dropWhile env_blank str)))"

text \<open>\<open>c_str()\<close> handed to a C function ends at the first null byte.\<close>

definition cstr :: "string \<Rightarrow> string" where
  "cstr s = takeWhile (\<lambda>c. c \<noteq> CHR 0x00) s"

text \<open>\<open>setenv\<close> refuses an empty name; the key of a line has no equals sign.\<close>

definition setenv :: "string \<Rightarrow> string \<Rightarrow> (string \<rightharpoonup> string) \<Rightarrow> (string \<rightharpoonup> string)" where
  "setenv key value vars = (if cstr key = [] then vars else vars(cstr key \<mapsto> cstr value))"

definition strip_quotes :: "string \<Rightarrow> string" where
  "strip_quotes v =
     (if 2 \<le> length v \<and> hd v = CHR 0x22 \<and> last v = CHR 0x22 then sv_substr v 1 (length v - 2) else v)"

definition env_line :: "string \<Rightarrow> (string \<rightharpoonup> string) \<Rightarrow> (string \<rightharpoonup> string)" where
  "env_line raw vars =
     (let line = env_trim raw in
      if line = [] \<or> line ! 0 = CHR ''#'' then vars
      else
        (case sv_find ''='' line of
           None \<Rightarrow> vars
         | Some delimiter_pos \<Rightarrow>
             setenv (env_trim (sv_substr line 0 delimiter_pos))
               (strip_quotes (env_trim (drop (delimiter_pos + 1) line))) vars))"

text \<open>\<open>file\<close> is the contents, \<open>None\<close> when it cannot be opened.\<close>

definition EnvParser_load :: "string option \<Rightarrow> (string \<rightharpoonup> string) \<Rightarrow> (string \<rightharpoonup> string)" where
  "EnvParser_load file vars =
     (case file of None \<Rightarrow> vars | Some contents \<Rightarrow> fold env_line (getlines contents) vars)"

section \<open>CryptoUtils\<close>

record 'w sodium =
  so_init :: "'w \<Rightarrow> 'w \<times> int"
  so_pwhash_str :: "string \<Rightarrow> 'w \<Rightarrow> 'w \<times> int \<times> string"
  so_pwhash_str_verify :: "string \<Rightarrow> string \<Rightarrow> int"

text \<open>
  \<open>std::call_once\<close>: \<open>sodium_init\<close> is safe to call again and then returns 1, so the flag only saves the
  call; when it fails, the next use tries again.
\<close>

definition ensureSodiumInitialized :: "'w sodium \<Rightarrow> ('w, unit) effect" where
  "ensureSodiumInitialized so w =
     (case so_init so w of
        (w', r) \<Rightarrow> (w', if r < 0 then Inl (runtime_error ''libsodium initialization failed'') else Inr ()))"

definition hashPassword :: "'w sodium \<Rightarrow> string \<Rightarrow> ('w, string) effect" where
  "hashPassword so plaintext =
     eff_bind (ensureSodiumInitialized so) (\<lambda>_ w.
       case so_pwhash_str so plaintext w of
         (w', r, h) \<Rightarrow>
           (w', if r \<noteq> 0 then Inl (runtime_error ''Out of memory while hashing password'') else Inr (cstr h)))"

definition verifyPassword :: "'w sodium \<Rightarrow> string \<Rightarrow> string \<Rightarrow> ('w, bool) effect" where
  "verifyPassword so plaintext hsh =
     eff_bind (ensureSodiumInitialized so) (\<lambda>_.
       eff_return (so_pwhash_str_verify so (cstr hsh) plaintext = 0))"

section \<open>JwtUtils\<close>

text \<open>
  \<open>jw_sign\<close> builds and signs a token from the issuer, the type, the payload claims, the times of issue
  and expiry and the secret; \<open>jw_decode\<close>, \<open>jw_verify\<close> (secret, issuer) and \<open>jw_claim\<close> throw.
\<close>

record ('w, 't) jwt =
  jw_getenv :: "'w \<Rightarrow> string \<Rightarrow> string option"
  jw_now :: "'w \<Rightarrow> int"
  jw_sign :: "string \<Rightarrow> string \<Rightarrow> (string \<times> string) list \<Rightarrow> int \<Rightarrow> int \<Rightarrow> string \<Rightarrow> string"
  jw_decode :: "string \<Rightarrow> std_exception + 't"
  jw_verify :: "string \<Rightarrow> string \<Rightarrow> int \<Rightarrow> 't \<Rightarrow> std_exception + unit"
  jw_claim :: "'t \<Rightarrow> string \<Rightarrow> std_exception + string"

definition ISSUER :: string where "ISSUER = ''high_performance_cpp_server''"

definition getSecret :: "('w, 't) jwt \<Rightarrow> 'w \<Rightarrow> string" where
  "getSecret jw w =
     (case jw_getenv jw w ''JWT_SECRET'' of None \<Rightarrow> ''default_unsafe_secret'' | Some secret \<Rightarrow> secret)"

text \<open>The time of expiry is 24 hours after the time of issue, in seconds.\<close>

definition generateToken :: "('w, 't) jwt \<Rightarrow> string \<Rightarrow> string \<Rightarrow> 'w \<Rightarrow> string" where
  "generateToken jw userId role w =
     jw_sign jw ISSUER ''JWS'' [(''id'', userId), (''role'', role)] (jw_now jw w)
       (jw_now jw w + 24 * 3600) (getSecret jw w)"

definition verifyToken :: "('w, 't) jwt \<Rightarrow> string \<Rightarrow> 'w \<Rightarrow> string option" where
  "verifyToken jw token w =
     (case jw_decode jw token of
        Inl e \<Rightarrow> None
      | Inr decoded \<Rightarrow>
          (case jw_verify jw (getSecret jw w) ISSUER (jw_now jw w) decoded of
             Inl e \<Rightarrow> None
           | Inr _ \<Rightarrow>
               (case jw_claim jw decoded ''id'' of Inl e \<Rightarrow> None | Inr outUserId \<Rightarrow> Some outUserId)))"

section \<open>SslManager\<close>

record 'c ssl_ctx =
  SSL_CTX_new :: "'c option"
  SSL_CTX_set_min_proto_TLS1_2 :: "'c \<Rightarrow> 'c"
  SSL_CTX_set_alpn_select_cb :: "'c \<Rightarrow> 'c"
  SSL_CTX_use_certificate_file :: "'c \<Rightarrow> string \<Rightarrow> 'c \<times> int"
  SSL_CTX_use_PrivateKey_file :: "'c \<Rightarrow> string \<Rightarrow> 'c \<times> int"
  SSL_CTX_check_private_key :: "'c \<Rightarrow> bool"

text \<open>
  The callback for protocol selection: HTTP/2 before HTTP/1.1. \<open>select\<close> is \<open>SSL_select_next_proto\<close> on the
  server's and the client's list, each name with its length in front; it returns whether it found a
  common protocol, and that protocol.
\<close>

datatype alpn_result = SSL_TLSEXT_ERR_OK | SSL_TLSEXT_ERR_NOACK

definition alpn_protos :: string where
  "alpn_protos = [CHR 0x02] @ ''h2'' @ [CHR 0x08] @ ''http/1.1''"

definition alpn_select_cb :: "(string \<Rightarrow> string \<Rightarrow> bool \<times> string) \<Rightarrow> string \<Rightarrow> string \<times> alpn_result" where
  "alpn_select_cb select client =
     (case select alpn_protos client of
        (negotiated, out) \<Rightarrow> (out, if \<not> negotiated then SSL_TLSEXT_ERR_NOACK else SSL_TLSEXT_ERR_OK))"

text \<open>The manager keeps the context, also one whose set-up failed.\<close>

definition SslManager_initialize :: "'c ssl_ctx \<Rightarrow> string \<Rightarrow> string \<Rightarrow> ('c option, unit) effect" where
  "SslManager_initialize api cert_path key_path old =
     (case SSL_CTX_new api of
        None \<Rightarrow> (None, Inl (runtime_error ''Unable to create SSL context''))
      | Some ctx \<Rightarrow>
          (let ctx1 = SSL_CTX_set_alpn_select_cb api (SSL_CTX_set_min_proto_TLS1_2 api ctx) in
           case SSL_CTX_use_certificate_file api ctx1 (cstr cert_path) of
             (ctx2, r1) \<Rightarrow>
               if r1 \<le> 0 then (Some ctx2, Inl (runtime_error ''Failed to load certificate file''))
               else
                 (case SSL_CTX_use_PrivateKey_file api ctx2 (cstr key_path) of
                    (ctx3, r2) \<Rightarrow>
                      if r2 \<le> 0 then (Some ctx3, Inl (runtime_error ''Failed to load private key file''))
                      else if \<not> SSL_CTX_check_private_key api ctx3
                      then (Some ctx3, Inl (runtime_error ''Private key does not match the public certificate''))
                      else (Some ctx3, Inr ()))))"

section \<open>AuthMiddleware\<close>

definition requireAuth :: "('w, 't) jwt \<Rightarrow> ('j, 'w) Middleware" where
  "requireAuth jw req res w =
     (let auth_header = req_header req ''Authorization'' in
      if auth_header = [] \<or> sv_substr auth_header 0 7 \<noteq> ''Bearer ''
      then (w, Inr (False, req, res_json (res_setStatus res Unauthorized)
             ''{\"error\": \"Missing or invalid Authorization header\"}''))
      else if verifyToken jw (drop 7 auth_header) w = None
      then (w, Inr (False, req, res_json (res_setStatus res Unauthorized)
             ''{\"error\": \"Invalid or expired token\"}''))
      else (w, Inr (True, req, res)))"

section \<open>RateLimiter\<close>

text \<open>\<open>incr\<close> and \<open>expire\<close> of the Redis client; \<open>None\<close> and \<open>False\<close> stand for a thrown \<open>sw::redis::Error\<close>.\<close>

record 'w redis =
  rd_incr :: "string \<Rightarrow> 'w \<Rightarrow> 'w \<times> int option"
  rd_expire :: "string \<Rightarrow> int \<Rightarrow> 'w \<Rightarrow> 'w \<times> bool"

definition rate_key :: "'j HttpRequest \<Rightarrow> string" where
  "rate_key req =
     (let client_id = req_header req ''X-Forwarded-For'' in
      ''rate_limit:'' @ (if client_id = [] then ''unknown_ip'' else client_id))"

definition RateLimiter_create :: "'w redis \<Rightarrow> int \<Rightarrow> int \<Rightarrow> ('j, 'w) Middleware" where
  "RateLimiter_create rd max_requests window_seconds req res w =
     (case rd_incr rd (rate_key req) w of
        (w1, None) \<Rightarrow> (w1, Inr (True, req, res))
      | (w1, Some current_count) \<Rightarrow>
          (case (if current_count = 1 then rd_expire rd (rate_key req) window_seconds w1 else (w1, True)) of
             (w2, ok) \<Rightarrow>
               if \<not> ok then (w2, Inr (True, req, res))
               else if max_requests < current_count
               then (w2, Inr (False, req, res_json (res_setStatus res TooManyRequests)
                      ''{\"error\": \"Too many requests. Please slow down.\"}''))
               else (w2, Inr (True, req, res))))"

section \<open>A printed environment file is read back\<close>

definition env_key :: "string \<Rightarrow> bool" where
  "env_key k \<longleftrightarrow> k \<noteq> [] \<and> \<not> env_blank (hd k) \<and> \<not> env_blank (last k) \<and> hd k \<noteq> CHR ''#'' \<and>
     CHR ''='' \<notin> set k \<and> LF \<notin> set k \<and> CHR 0x00 \<notin> set k"

definition env_value :: "string \<Rightarrow> bool" where
  "env_value v \<longleftrightarrow> LF \<notin> set v \<and> CHR 0x00 \<notin> set v"

definition env_entry :: "string \<times> string \<Rightarrow> string" where
  "env_entry = (\<lambda>(k, v). k @ ''='' @ [CHR 0x22] @ v @ [CHR 0x22])"

definition set_var :: "string \<times> string \<Rightarrow> (string \<rightharpoonup> string) \<Rightarrow> (string \<rightharpoonup> string)" where
  "set_var kv m = m(fst kv \<mapsto> snd kv)"

lemma getlines_line:
  assumes "LF \<notin> set l"
  shows "getlines (l @ LF # rest) = l # getlines rest"
proof -
  have "takeWhile (\<lambda>c. c \<noteq> LF) (l @ LF # rest) = l" "dropWhile (\<lambda>c. c \<noteq> LF) (l @ LF # rest) = LF # rest"
    using assms by (induction l) auto
  then show ?thesis by (simp add: getlines.simps [of "l @ LF # rest"])
qed

lemma getlines_concat:
  "(\<And>l. l \<in> set ls \<Longrightarrow> LF \<notin> set l) \<Longrightarrow> getlines (concat (map (\<lambda>l. l @ [LF]) ls)) = ls"
proof (induction ls)
  case Nil
  show ?case by (simp add: getlines.simps)
next
  case (Cons l ls)
  then show ?case by (simp add: getlines_line)
qed

lemma env_trim_id:
  assumes "s = [] \<or> \<not> env_blank (hd s) \<and> \<not> env_blank (last s)"
  shows "env_trim s = s"
proof (cases s)
  case (Cons a x)
  with assms have "dropWhile env_blank s = s" by simp
  moreover have "dropWhile env_blank (rev s) = rev s"
    using assms Cons by (simp add: dropWhile_eq_self_iff hd_rev del: rev.simps)
  ultimately show ?thesis by (simp add: env_trim_def)
qed (simp add: env_trim_def)

lemma sv_find_char: "c \<notin> set k \<Longrightarrow> sv_find [c] (k @ c # rest) = Some (length k)"
  by (induction k) auto

lemma cstr_id: "CHR 0x00 \<notin> set s \<Longrightarrow> cstr s = s"
  by (auto simp: cstr_def takeWhile_eq_all_conv)

lemma env_line_entry:
  assumes "env_key k" "env_value v"
  shows "env_line (env_entry (k, v)) vars = vars(k \<mapsto> v)"
proof -
  define q where "q = [CHR 0x22] @ v @ [CHR 0x22]"
  have l: "env_entry (k, v) = k @ CHR ''='' # q" by (simp add: env_entry_def q_def)
  have k: "k \<noteq> []" "hd k \<noteq> CHR ''#''" "\<not> env_blank (hd k)" "\<not> env_blank (last k)"
    "CHR ''='' \<notin> set k" "CHR 0x00 \<notin> set k"
    using assms(1) by (simp_all add: env_key_def)
  have q: "q \<noteq> []" "\<not> env_blank (hd q)" "\<not> env_blank (last q)" by (simp_all add: q_def env_blank_def)
  have t: "env_trim (k @ CHR ''='' # q) = k @ CHR ''='' # q" "env_trim k = k" "env_trim q = q"
    using k q by (auto intro!: env_trim_id)
  have f: "sv_find ''='' (k @ CHR ''='' # q) = Some (length k)" by (rule sv_find_char [OF k(5)])
  have sq: "strip_quotes q = v" by (simp add: q_def strip_quotes_def sv_substr_def)
  have "(k @ CHR ''='' # q) ! 0 \<noteq> CHR ''#''" using k by (cases k) auto
  then have "env_line (env_entry (k, v)) vars = setenv k v vars"
    by (simp add: env_line_def Let_def l t f sq sv_substr_def)
  also have "\<dots> = vars(k \<mapsto> v)" using k assms(2) by (simp add: setenv_def cstr_id env_value_def)
  finally show ?thesis .
qed

lemma EnvParser_roundtrip:
  assumes "\<And>k v. (k, v) \<in> set kvs \<Longrightarrow> env_key k \<and> env_value v"
  shows "EnvParser_load (Some (concat (map (\<lambda>kv. env_entry kv @ [LF]) kvs))) vars =
    fold set_var kvs vars"
proof -
  have "getlines (concat (map (\<lambda>l. l @ [LF]) (map env_entry kvs))) = map env_entry kvs"
    using assms by (intro getlines_concat) (fastforce simp: env_entry_def env_key_def env_value_def)
  then have "EnvParser_load (Some (concat (map (\<lambda>kv. env_entry kv @ [LF]) kvs))) vars =
      fold env_line (map env_entry kvs) vars"
    by (simp add: EnvParser_load_def comp_def)
  also have "\<dots> = fold set_var kvs vars"
    using assms
  proof (induction kvs arbitrary: vars)
    case (Cons kv kvs)
    obtain k v where kv: "kv = (k, v)" by fastforce
    have "env_line (env_entry kv) vars = set_var kv vars"
      using Cons.prems [of k v] kv by (simp add: env_line_entry set_var_def)
    moreover have "fold env_line (map env_entry kvs) (set_var kv vars) = fold set_var kvs (set_var kv vars)"
      using Cons.prems by (intro Cons.IH) auto
    ultimately show ?case by simp
  qed simp
  finally show ?thesis .
qed

section \<open>The rate limit\<close>

text \<open>
  \<open>count w key\<close> is the value of a counter in Redis: \<open>incr\<close> adds one to it and returns it, \<open>expire\<close>
  does not change it.
\<close>

definition redis_ok :: "'w redis \<Rightarrow> ('w \<Rightarrow> string \<Rightarrow> int) \<Rightarrow> bool" where
  "redis_ok rd count \<longleftrightarrow>
     (\<forall>key w. snd (rd_incr rd key w) = Some (count w key + 1) \<and>
        count (fst (rd_incr rd key w)) = (count w)(key := count w key + 1)) \<and>
     (\<forall>key secs w. snd (rd_expire rd key secs w) \<and> count (fst (rd_expire rd key secs w)) = count w)"

fun limited :: "('j, 'w) Middleware \<Rightarrow> 'j HttpRequest list \<Rightarrow> 'w \<Rightarrow> bool list \<times> 'w" where
  "limited mw [] w = ([], w)"
| "limited mw (req # reqs) w =
     (case mw req new_response w of
        (w', r) \<Rightarrow>
          (case limited mw reqs w' of
             (rest, w'') \<Rightarrow> ((case r of Inl e \<Rightarrow> False | Inr (passed, req', res) \<Rightarrow> passed) # rest, w'')))"

lemma RateLimiter_call:
  assumes "redis_ok rd count"
  shows "\<exists>w' res'. RateLimiter_create rd limit window req res w = (w', Inr (count w (rate_key req) < limit, req, res')) \<and>
    count w' = (count w)(rate_key req := count w (rate_key req) + 1) \<and>
    (count w (rate_key req) < limit \<longrightarrow> res' = res) \<and>
    (\<not> count w (rate_key req) < limit \<longrightarrow> rs_status res' = TooManyRequests)"
proof -
  obtain w1 where i: "rd_incr rd (rate_key req) w = (w1, Some (count w (rate_key req) + 1))"
    "count w1 = (count w)(rate_key req := count w (rate_key req) + 1)"
    using assms unfolding redis_ok_def by (metis prod.collapse)
  obtain w2 where e: "rd_expire rd (rate_key req) window w1 = (w2, True)" "count w2 = count w1"
    using assms unfolding redis_ok_def by (metis (full_types) prod.collapse)
  show ?thesis
    using i e by (auto simp: RateLimiter_create_def res_json_def res_setStatus_def res_setBody_def res_setHeader_def)
qed

lemma limited_window:
  assumes rd: "redis_ok rd count" and key: "\<And>req. req \<in> set reqs \<Longrightarrow> rate_key req = key"
  shows "fst (limited (RateLimiter_create rd limit window) reqs w) =
    map (\<lambda>i. count w key + int i < limit) [0..<length reqs]"
  using key
proof (induction reqs arbitrary: w)
  case (Cons req reqs)
  have k: "rate_key req = key" using Cons.prems by simp
  from RateLimiter_call [OF rd, of limit window req new_response w] obtain w' res' where
    c: "RateLimiter_create rd limit window req new_response w = (w', Inr (count w key < limit, req, res'))"
    "count w' = (count w)(key := count w key + 1)" unfolding k by blast
  have "fst (limited (RateLimiter_create rd limit window) reqs w') =
      map (\<lambda>i. count w' key + int i < limit) [0..<length reqs]"
    using Cons by simp
  moreover have "map (\<lambda>i. count w key + int i < limit) [0..<Suc (length reqs)] =
      (count w key < limit) # map (\<lambda>i. count w' key + int i < limit) [0..<length reqs]"
    by (simp add: upt_conv_Cons c(2) flip: map_Suc_upt del: upt_Suc) (simp add: comp_def algebra_simps)
  ultimately show ?case
    by (simp add: c(1) split: prod.splits del: upt_Suc) (metis fst_conv)
qed simp

end
