(* ===== verification/User_Controller.thy ===== *)
theory User_Controller
  imports App_Services Socket_Epoll
begin

text \<open>
  \<^verbatim>\<open>src/include/http/models/User.hpp\<close>, \<^verbatim>\<open>src/src/repositories/UserRepository.cpp\<close> and
  \<^verbatim>\<open>src/src/controllers/UserController.cpp\<close>: the users in the database and the REST handlers on them.

  The JSON library and the MongoDB driver are records of parameters. A JSON value has the type \<open>'j\<close>,
  a document of the database the type \<open>'d\<close>; operations that throw return a sum.
\<close>

section \<open>Libraries\<close>

record 'j json_api =
  js_null :: 'j
  js_parse :: "string \<Rightarrow> std_exception + 'j"
  js_dump :: "'j \<Rightarrow> std_exception + string"
  js_contains :: "'j \<Rightarrow> string \<Rightarrow> bool"
  js_index :: "'j \<Rightarrow> string \<Rightarrow> std_exception + 'j"
  js_is_string :: "'j \<Rightarrow> bool"
  js_get_string :: "'j \<Rightarrow> std_exception + string"
  js_erase :: "'j \<Rightarrow> string \<Rightarrow> std_exception + 'j"
  js_empty :: "'j \<Rightarrow> bool"
  js_object :: "(string \<times> string) list \<Rightarrow> 'j"
  js_array :: "'j list \<Rightarrow> 'j"
  js_counters :: "(string \<times> size_t) list \<Rightarrow> 'j"

record ('w, 'd) mongo =
  mg_acquire :: "('w, unit) effect"
  mg_oid :: "string \<Rightarrow> std_exception + string"
  mg_find_name :: "string \<Rightarrow> ('w, 'd option) effect"
  mg_find_id :: "string \<Rightarrow> ('w, 'd option) effect"
  mg_insert_one :: "(string \<times> string) list \<Rightarrow> ('w, unit) effect"
  mg_from_json :: "string \<Rightarrow> std_exception + 'd"
  mg_update_set :: "string \<Rightarrow> 'd \<Rightarrow> ('w, int option) effect"
  mg_delete_one :: "string \<Rightarrow> ('w, int option) effect"
  mg_find :: "int option \<Rightarrow> int option \<Rightarrow> (string \<times> int) option \<Rightarrow>
    ('w, 'd list \<times> std_exception option) effect"
  mg_get_oid :: "'d \<Rightarrow> std_exception + string"
  mg_has :: "'d \<Rightarrow> string \<Rightarrow> bool"
  mg_get_string :: "'d \<Rightarrow> string \<Rightarrow> std_exception + string"

text \<open>A sum as an effect that leaves the state alone.\<close>

definition lift_sum :: "std_exception + 'a \<Rightarrow> ('w, 'a) effect" where
  "lift_sum r w = (w, r)"

fun sum_bind :: "std_exception + 'a \<Rightarrow> ('a \<Rightarrow> std_exception + 'b) \<Rightarrow> std_exception + 'b" where
  "sum_bind (Inl e) f = Inl e"
| "sum_bind (Inr x) f = f x"

fun what :: "std_exception \<Rightarrow> string" where
  "what (runtime_error m) = m"
| "what (out_of_range m) = m"
| "what (length_error m) = m"
| "what (other_exception m) = m"

text \<open>\<open>std::stoi\<close>: blanks, a sign, digits; \<open>None\<close> when there are none or the value is no \<open>int\<close>.\<close>

definition is_space :: "char \<Rightarrow> bool" where
  "is_space c \<longleftrightarrow> c = CHR '' '' \<or> (let n = (of_char c :: nat) in 9 \<le> n \<and> n \<le> 13)"

definition strtol :: "string \<Rightarrow> int option" where
  "strtol s =
     (let s1 = dropWhile is_space s;
          neg = (s1 \<noteq> [] \<and> hd s1 = CHR ''-'');
          s2 = (if s1 \<noteq> [] \<and> (hd s1 = CHR ''-'' \<or> hd s1 = CHR ''+'') then tl s1 else s1);
          digits = takeWhile isdigit s2 in
      if digits = [] then None
      else Some (if neg then - int (dec_val digits) else int (dec_val digits)))"

definition stoi :: "string \<Rightarrow> int option" where
  "stoi s =
     (case strtol s of None \<Rightarrow> None | Some n \<Rightarrow> if - (2 ^ 31) \<le> n \<and> n < 2 ^ 31 then Some n else None)"

section \<open>User and UserRepository\<close>

record User =
  u_id :: string
  u_name :: string
  u_password_hash :: string
  u_role :: string

definition toSafeJson :: "'j json_api \<Rightarrow> User \<Rightarrow> 'j" where
  "toSafeJson js u = js_object js [(''_id'', u_id u), (''name'', u_name u), (''role'', u_role u)]"

definition doc_role :: "('w, 'd) mongo \<Rightarrow> 'd \<Rightarrow> std_exception + string" where
  "doc_role mg d = (if mg_has mg d ''role'' then mg_get_string mg d ''role'' else Inr ''user'')"

definition user_of_doc :: "('w, 'd) mongo \<Rightarrow> 'd \<Rightarrow> std_exception + User" where
  "user_of_doc mg d =
     sum_bind (mg_get_oid mg d) (\<lambda>i.
     sum_bind (mg_get_string mg d ''name'') (\<lambda>n.
     sum_bind (if mg_has mg d ''password_hash'' then mg_get_string mg d ''password_hash'' else Inr []) (\<lambda>h.
     sum_bind (doc_role mg d) (\<lambda>r.
       Inr \<lparr>u_id = i, u_name = n, u_password_hash = h, u_role = r\<rparr>))))"

definition found_user :: "('w, 'd) mongo \<Rightarrow> 'd option \<Rightarrow> ('w, User option) effect" where
  "found_user mg result =
     (case result of
        None \<Rightarrow> eff_return None
      | Some d \<Rightarrow> eff_bind (lift_sum (user_of_doc mg d)) (\<lambda>u. eff_return (Some u)))"

definition repo_findByUsername :: "('w, 'd) mongo \<Rightarrow> string \<Rightarrow> ('w, User option) effect" where
  "repo_findByUsername mg username =
     eff_catch
       (eff_bind (mg_acquire mg) (\<lambda>_.
        eff_bind (mg_find_name mg username) (found_user mg)))
       (\<lambda>e. eff_return None)"

definition repo_findById :: "('w, 'd) mongo \<Rightarrow> string \<Rightarrow> ('w, User option) effect" where
  "repo_findById mg i =
     eff_catch
       (eff_bind (lift_sum (mg_oid mg i)) (\<lambda>document_id.
        eff_bind (mg_acquire mg) (\<lambda>_.
        eff_bind (mg_find_id mg document_id) (found_user mg))))
       (\<lambda>e. eff_return None)"

definition repo_createUser :: "('w, 'd) mongo \<Rightarrow> string \<Rightarrow> string \<Rightarrow> string \<Rightarrow> ('w, bool) effect" where
  "repo_createUser mg name password_hash role =
     eff_catch
       (eff_bind (mg_acquire mg) (\<lambda>_.
        eff_bind (mg_insert_one mg [(''name'', name), (''password_hash'', password_hash), (''role'', role)])
          (\<lambda>_. eff_return True)))
       (\<lambda>e. eff_return False)"

definition positive_count :: "int option \<Rightarrow> bool" where
  "positive_count result = (case result of None \<Rightarrow> False | Some n \<Rightarrow> 0 < n)"

definition repo_updateUser ::
  "'j json_api \<Rightarrow> ('w, 'd) mongo \<Rightarrow> string \<Rightarrow> 'j \<Rightarrow> ('w, bool) effect" where
  "repo_updateUser js mg i updates =
     eff_catch
       (eff_bind (lift_sum (mg_oid mg i)) (\<lambda>document_id.
        eff_bind (mg_acquire mg) (\<lambda>_.
        eff_bind (lift_sum (js_dump js updates)) (\<lambda>text.
        eff_bind (lift_sum (mg_from_json mg text)) (\<lambda>update_doc.
        eff_bind (mg_update_set mg document_id update_doc) (\<lambda>result.
          eff_return (positive_count result)))))))
       (\<lambda>e. eff_return False)"

definition repo_deleteUser :: "('w, 'd) mongo \<Rightarrow> string \<Rightarrow> ('w, bool) effect" where
  "repo_deleteUser mg i =
     eff_catch
       (eff_bind (lift_sum (mg_oid mg i)) (\<lambda>document_id.
        eff_bind (mg_acquire mg) (\<lambda>_.
        eff_bind (mg_delete_one mg document_id) (\<lambda>result. eff_return (positive_count result)))))
       (\<lambda>e. eff_return False)"

text \<open>The loop over the cursor ends at the first document that cannot be read; the users before it stay.\<close>

fun users_of_docs :: "('w, 'd) mongo \<Rightarrow> 'd list \<Rightarrow> User list" where
  "users_of_docs mg [] = []"
| "users_of_docs mg (d # ds) =
     (case sum_bind (mg_get_oid mg d) (\<lambda>i.
           sum_bind (mg_get_string mg d ''name'') (\<lambda>n.
           sum_bind (doc_role mg d) (\<lambda>r.
             Inr \<lparr>u_id = i, u_name = n, u_password_hash = [], u_role = r\<rparr>))) of
        Inl e \<Rightarrow> []
      | Inr u \<Rightarrow> u # users_of_docs mg ds)"

definition repo_getAllUsers ::
  "('w, 'd) mongo \<Rightarrow> int \<Rightarrow> int \<Rightarrow> string \<Rightarrow> int \<Rightarrow> ('w, User list) effect" where
  "repo_getAllUsers mg limit skip sort_field sort_order =
     eff_catch
       (eff_bind (mg_acquire mg) (\<lambda>_.
        eff_bind (mg_find mg (if 0 < limit then Some limit else None) (if 0 < skip then Some skip else None)
            (if sort_field \<noteq> [] then Some (sort_field, sort_order) else None)) (\<lambda>(docs, failure).
          eff_return (users_of_docs mg docs))))
       (\<lambda>e. eff_return [])"

section \<open>UserController\<close>

record ('w, 'd, 'j, 't) backends =
  b_json :: "'j json_api"
  b_mongo :: "('w, 'd) mongo"
  b_sodium :: "'w sodium"
  b_jwt :: "('w, 't) jwt"

definition reply :: "HttpResponse \<Rightarrow> HttpStatus \<Rightarrow> string \<Rightarrow> HttpResponse" where
  "reply res st text = res_json (res_setStatus res st) text"

definition extractJson :: "'j json_api \<Rightarrow> 'j HttpRequest \<Rightarrow> HttpResponse \<Rightarrow> HttpResponse \<times> 'j option" where
  "extractJson js req res =
     (if rq_has_json req
      then (res, Some (case rq_json req of None \<Rightarrow> js_null js | Some j \<Rightarrow> j))
      else if rq_body req \<noteq> [] then
        (case js_parse js (rq_body req) of
           Inr document \<Rightarrow> (res, Some document)
         | Inl e \<Rightarrow> (reply res BadRequest ''{\"error\": \"Invalid JSON\"}'', None))
      else (reply res BadRequest ''{\"error\": \"Missing request body\"}'', None))"

text \<open>A handler on the JSON document; without one the error response is already there.\<close>

definition with_json ::
  "'j json_api \<Rightarrow> 'j HttpRequest \<Rightarrow> HttpResponse \<Rightarrow> ('j \<Rightarrow> ('w, HttpResponse) effect) \<Rightarrow>
   ('w, 'j HttpRequest \<times> HttpResponse) effect" where
  "with_json js req res handle =
     (case extractJson js req res of
        (res', None) \<Rightarrow> eff_return (req, res')
      | (res', Some document) \<Rightarrow> eff_bind (handle document) (\<lambda>r. eff_return (req, r)))"

definition json_string :: "'j json_api \<Rightarrow> 'j \<Rightarrow> string \<Rightarrow> std_exception + string" where
  "json_string js document key = sum_bind (js_index js document key) (js_get_string js)"

definition createUser :: "('w, 'd, 'j, 't) backends \<Rightarrow> ('j, 'w) Handler" where
  "createUser b req res =
     (let js = b_json b in
      with_json js req res (\<lambda>document.
        eff_bind (if js_contains js document ''name'' \<and> js_contains js document ''password''
                  then eff_bind (lift_sum (js_index js document ''password'')) (\<lambda>v. eff_return (js_is_string js v))
                  else eff_return False) (\<lambda>ok.
          if \<not> ok
          then eff_return (reply res BadRequest ''{\"error\": \"Missing or invalid 'name' or 'password' field\"}'')
          else
            eff_catch
              (eff_bind (lift_sum (json_string js document ''name'')) (\<lambda>name.
               eff_bind (lift_sum (json_string js document ''password'')) (\<lambda>plaintext_password.
               eff_bind (if js_contains js document ''role'' then lift_sum (json_string js document ''role'')
                         else eff_return ''user'') (\<lambda>role.
               eff_bind (hashPassword (b_sodium b) plaintext_password) (\<lambda>hashed_password.
               eff_bind (repo_createUser (b_mongo b) name hashed_password role) (\<lambda>created.
                 eff_return
                   (if created
                    then reply res Created ''{\"status\": \"success\", \"message\": \"User added!\"}''
                    else reply res InternalServerError ''{\"error\": \"Failed to create user\"}'')))))))
              (\<lambda>e. eff_return (reply res InternalServerError
                 (''{\"error\": \"'' @ what e @ ''\"}''))))))"

definition getAllUsers :: "('w, 'd, 'j, 't) backends \<Rightarrow> ('j, 'w) Handler" where
  "getAllUsers b req res =
     (let js = b_json b;
          number = (\<lambda>key. if req_query req key = [] then Some 0 else stoi (req_query req key)) in
      case (number ''limit'', number ''skip'') of
        (Some limit, Some skip) \<Rightarrow>
          eff_bind (repo_getAllUsers (b_mongo b) limit skip (req_query req ''sort'')
              (if req_query req ''order'' = ''desc'' then - 1 else 1)) (\<lambda>users.
          eff_bind (lift_sum (js_dump js (js_array js (map (toSafeJson js) users)))) (\<lambda>text.
            eff_return (req, reply res OK text)))
      | _ \<Rightarrow> eff_return (req, reply res BadRequest ''{\"error\": \"Invalid query parameters\"}''))"

definition NOT_FOUND :: string where
  "NOT_FOUND = ''{\"error\": \"User not found or invalid ID\"}''"

definition getUserById :: "('w, 'd, 'j, 't) backends \<Rightarrow> ('j, 'w) Handler" where
  "getUserById b req res =
     eff_bind (repo_findById (b_mongo b) (req_param req ''id'')) (\<lambda>user.
       case user of
         Some u \<Rightarrow> eff_bind (lift_sum (js_dump (b_json b) (toSafeJson (b_json b) u))) (\<lambda>text.
                    eff_return (req, reply res OK text))
       | None \<Rightarrow> eff_return (req, reply res NotFound NOT_FOUND))"

definition sanitize :: "'j json_api \<Rightarrow> 'j \<Rightarrow> std_exception + 'j" where
  "sanitize js document =
     sum_bind (js_erase js document ''_id'') (\<lambda>p1.
     sum_bind (js_erase js p1 ''password'') (\<lambda>p2. js_erase js p2 ''password_hash''))"

definition updateUser :: "('w, 'd, 'j, 't) backends \<Rightarrow> ('j, 'w) Handler" where
  "updateUser b req res =
     (let js = b_json b; user_id = req_param req ''id'' in
      with_json js req res (\<lambda>document0.
        eff_bind (lift_sum (sanitize js document0)) (\<lambda>document.
          if js_empty js document
          then eff_return (reply res BadRequest ''{\"error\": \"No valid fields to update\"}'')
          else eff_bind (repo_updateUser js (b_mongo b) user_id document) (\<lambda>done.
            eff_return
              (if done then reply res OK ''{\"status\": \"success\", \"message\": \"User updated\"}''
               else reply res NotFound NOT_FOUND)))))"

definition deleteUser :: "('w, 'd, 'j, 't) backends \<Rightarrow> ('j, 'w) Handler" where
  "deleteUser b req res =
     eff_bind (repo_deleteUser (b_mongo b) (req_param req ''id'')) (\<lambda>done.
       eff_return (req,
         if done then reply res OK ''{\"status\": \"success\", \"message\": \"User deleted\"}''
         else reply res NotFound NOT_FOUND))"

definition BAD_LOGIN :: string where
  "BAD_LOGIN = ''{\"error\": \"Invalid username or password\"}''"

definition token_json :: "string \<Rightarrow> string" where
  "token_json token = ''{\"status\": \"success\", \"token\": \"'' @ token @ ''\"}''"

text \<open>\<open>loginUser\<close> from the query for the user on.\<close>

definition login_check ::
  "('w, 'd, 'j, 't) backends \<Rightarrow> HttpResponse \<Rightarrow> string \<Rightarrow> string \<Rightarrow> ('w, HttpResponse) effect" where
  "login_check b res username plaintext_password =
     eff_bind (repo_findByUsername (b_mongo b) username) (\<lambda>user.
       case user of
         None \<Rightarrow> eff_return (reply res Unauthorized BAD_LOGIN)
       | Some u \<Rightarrow>
           if u_password_hash u = [] then eff_return (reply res Unauthorized BAD_LOGIN)
           else
             eff_bind (verifyPassword (b_sodium b) plaintext_password (u_password_hash u)) (\<lambda>ok.
               if \<not> ok then eff_return (reply res Unauthorized BAD_LOGIN)
               else eff_bind (eff_get (generateToken (b_jwt b) (u_id u) (u_role u))) (\<lambda>token.
                 eff_return (reply res OK (token_json token)))))"

definition loginUser :: "('w, 'd, 'j, 't) backends \<Rightarrow> ('j, 'w) Handler" where
  "loginUser b req res =
     (let js = b_json b in
      with_json js req res (\<lambda>document.
        if \<not> js_contains js document ''name'' \<or> \<not> js_contains js document ''password''
        then eff_return (reply res BadRequest ''{\"error\": \"Missing 'name' or 'password'\"}'')
        else
          eff_bind (lift_sum (json_string js document ''name'')) (\<lambda>username.
          eff_bind (lift_sum (json_string js document ''password'')) (\<lambda>plaintext_password.
            login_check b res username plaintext_password))))"

definition guarded :: "('w, 't) jwt \<Rightarrow> ('j, 'w) Handler \<Rightarrow> ('j, 'w) Handler" where
  "guarded jw handler req res w =
     (case requireAuth jw req res w of
        (w', Inl e) \<Rightarrow> (w', Inl e)
      | (w', Inr (passed, req', res')) \<Rightarrow>
          if passed then handler req' res' w' else (w', Inr (req', res')))"

definition registerRoutes ::
  "('w, 'd, 'j, 't) backends \<Rightarrow> ('j, 's, 'h, 'w) Router \<Rightarrow> ('j, 's, 'h, 'w) Router" where
  "registerRoutes b router =
     (let guard = guarded (b_jwt b);
          r1 = router_post router ''/api/login'' [] (loginUser b);
          r2 = router_post r1 ''/api/users'' [] (createUser b);
          r3 = router_get r2 ''/api/users'' [] (guard (getAllUsers b));
          r4 = router_get r3 ''/api/users/:id'' [] (guard (getUserById b));
          r5 = router_put r4 ''/api/users/:id'' [] (guard (updateUser b)) in
      router_del r5 ''/api/users/:id'' [] (guard (deleteUser b)))"

end
