(* ===== verification/Application.thy ===== *)
theory Application
  imports User_Controller Tcp_Server
begin

text \<open>
  \<^verbatim>\<open>src/src/services/TelemetryBroadcaster.cpp\<close>, \<^verbatim>\<open>src/src/App.cpp\<close> and \<^verbatim>\<open>src/src/main.cpp\<close>: the application
  that puts the router, the middlewares, the controller and the server together.

  The world of the request handlers has the list of telemetry clients; the rest of it belongs to the
  database, Redis and the other libraries.
\<close>

section \<open>TelemetryBroadcaster\<close>

record app_world =
  tb_clients :: "nat list"

definition addClient :: "nat \<Rightarrow> 'z app_world_scheme \<Rightarrow> 'z app_world_scheme" where
  "addClient cid w = w\<lparr>tb_clients := tb_clients w @ [cid]\<rparr>"

text \<open>
  The loop of \<open>remove_if\<close>: a \<open>weak_ptr\<close> that locks is sent the text and kept, the others are dropped. An
  exception of \<open>send\<close> leaves the loop, the function and the thread.
\<close>

fun broadcast ::
  "'s openssl \<Rightarrow> string \<Rightarrow> nat list \<Rightarrow> (('j, 's, 'h, 'w, 'k) process, nat list) effect" where
  "broadcast api text [] p = (p, Inr [])"
| "broadcast api text (cid # cids) p =
     (case conns p cid of
        None \<Rightarrow> broadcast api text cids p
      | Some c \<Rightarrow>
          (case sendWebSocketMessage api c text WsText of
             (c', Inl e) \<Rightarrow> (p\<lparr>conns := (conns p)(cid \<mapsto> c')\<rparr>, Inl e)
           | (c', Inr _) \<Rightarrow>
               (case broadcast api text cids (p\<lparr>conns := (conns p)(cid \<mapsto> c')\<rparr>) of
                  (p', Inl e) \<Rightarrow> (p', Inl e)
                | (p', Inr kept) \<Rightarrow> (p', Inr (cid # kept)))))"

definition metrics ::
  "'j json_api \<Rightarrow> size_t \<Rightarrow> ('j, 's, 'h, 'w, 'k) process \<Rightarrow> 'j" where
  "metrics js queued p =
     js_counters js [(''active_connections'', active_count p), (''total_requests'', total_requests p),
       (''queued_tasks'', queued)]"

text \<open>One round of \<open>run()\<close> after its sleep; \<open>queued\<close> is \<open>getPendingTaskCount()\<close>.\<close>

definition telemetry_round ::
  "'j json_api \<Rightarrow> 's openssl \<Rightarrow> size_t \<Rightarrow> (('j, 's, 'h, 'z app_world_scheme, 'k) process, unit) effect" where
  "telemetry_round js api queued p =
     eff_bind (lift_sum (js_dump js (metrics js queued p))) (\<lambda>text.
     eff_bind (broadcast api text (tb_clients (world p))) (\<lambda>kept.
       eff_modify (\<lambda>p. p\<lparr>world := (world p)\<lparr>tb_clients := kept\<rparr>\<rparr>))) p"

text \<open>\<open>start()\<close> and \<open>stop()\<close> on the flag and the thread.\<close>

record broadcaster =
  tb_running :: bool
  tb_thread :: bool

definition telemetry_start :: "broadcaster \<Rightarrow> broadcaster" where
  "telemetry_start b = (if tb_running b then b else b\<lparr>tb_running := True, tb_thread := True\<rparr>)"

definition telemetry_stop :: "broadcaster \<Rightarrow> broadcaster" where
  "telemetry_stop b = b\<lparr>tb_running := False, tb_thread := False\<rparr>"

section \<open>App\<close>

definition telemetry_handler :: "('j, 's, 'h, 'z app_world_scheme) WsHandler" where
  "telemetry_handler cid c frame w =
     ((if opcode frame = WsText \<and> payload frame = ''subscribe'' then addClient cid w else w, c), Inr ())"

definition chat_handler :: "'s openssl \<Rightarrow> ('j, 's, 'h, 'w) WsHandler" where
  "chat_handler api cid c frame w =
     (if opcode frame = WsText
      then (case sendWebSocketMessage api c ''Hello from the specialized WS Controller'' WsText of
              (c', r) \<Rightarrow> ((w, c'), r))
      else ((w, c), Inr ()))"

definition log_middleware :: "('j, 'w) Middleware" where
  "log_middleware req res w = (w, Inr (True, req, res))"

definition login_limit :: "('j, 'w) Middleware \<Rightarrow> ('j, 'w) Middleware" where
  "login_limit rateLimit req res w =
     (if rq_path req = ''/api/login'' then rateLimit req res w else (w, Inr (True, req, res)))"

definition App_router ::
  "('z app_world_scheme, 'd, 'j, 't) backends \<Rightarrow> 'z app_world_scheme redis \<Rightarrow>
   'z app_world_scheme filesystem \<Rightarrow> 's openssl \<Rightarrow> string option \<Rightarrow>
   ('j, 's, 'h, 'z app_world_scheme) Router" where
  "App_router b rd fs api env_public_dir =
     (let public_dir = (case env_public_dir of None \<Rightarrow> ''public'' | Some d \<Rightarrow> d);
          r0 = serveFiles fs new_Router ''/'' public_dir;
          r1 = router_ws r0 ''/api/telemetry'' telemetry_handler;
          r2 = router_ws r1 ''/api/chat'' (chat_handler api);
          r3 = router_use r2 log_middleware;
          r4 = router_use r3 (login_limit (RateLimiter_create rd 100000 10)) in
      registerRoutes b r4)"

text \<open>\<open>run()\<close> up to the start of the server: without a TLS context the boot halts.\<close>

definition App_boot ::
  "'c ssl_ctx \<Rightarrow> (string \<rightharpoonup> string) \<Rightarrow> 'c option \<Rightarrow> broadcaster \<Rightarrow> 'c option \<times> broadcaster \<times> bool" where
  "App_boot tls vars ctx tb =
     (let cert_path = (case vars ''SSL_CERT_PATH'' of None \<Rightarrow> ''certs/server.crt'' | Some p \<Rightarrow> p);
          key_path = (case vars ''SSL_KEY_PATH'' of None \<Rightarrow> ''certs/server.key'' | Some p \<Rightarrow> p) in
      case SslManager_initialize tls cert_path key_path ctx of
        (ctx', Inl e) \<Rightarrow> (ctx', tb, False)
      | (ctx', Inr _) \<Rightarrow> (ctx', telemetry_start tb, True))"

section \<open>main\<close>

record AppConfiguration =
  cfg_port :: int
  cfg_db_uri :: string

text \<open>\<open>std::atoi\<close>; a value outside \<open>int\<close> is undefined behaviour there.\<close>

definition atoi :: "string \<Rightarrow> int" where
  "atoi s = (case strtol s of None \<Rightarrow> 0 | Some n \<Rightarrow> n)"

definition main_configuration :: "string option \<Rightarrow> (string \<rightharpoonup> string) \<Rightarrow> AppConfiguration" where
  "main_configuration env_file vars0 =
     (let vars = EnvParser_load env_file vars0 in
      \<lparr>cfg_port = (case vars ''PORT'' of None \<Rightarrow> 8080 | Some s \<Rightarrow> atoi s),
       cfg_db_uri = (case vars ''MONGO_URI'' of None \<Rightarrow> ''mongodb://localhost:27017'' | Some s \<Rightarrow> s)\<rparr>)"

definition handleSignal :: "('j, 's, 'h, 'w, 'k) process \<Rightarrow> ('j, 's, 'h, 'w, 'k) process" where
  "handleSignal p = server_stop p"

section \<open>Facts about the routes\<close>

text \<open>The routes in the order of registration; the first is the mount of the static files.\<close>

lemma App_router_routes:
  "routes (App_router b rd fs api pub) =
    [\<lparr>rt_method = GET, rt_path = ''/'', rt_handler = fileHandler fs ''/''
       (case pub of None \<Rightarrow> ''public'' | Some d \<Rightarrow> d), rt_isPrefix = True, rt_middlewares = []\<rparr>,
     \<lparr>rt_method = POST, rt_path = ''/api/login'', rt_handler = loginUser b, rt_isPrefix = False, rt_middlewares = []\<rparr>,
     \<lparr>rt_method = POST, rt_path = ''/api/users'', rt_handler = createUser b, rt_isPrefix = False, rt_middlewares = []\<rparr>,
     \<lparr>rt_method = GET, rt_path = ''/api/users'', rt_handler = guarded (b_jwt b) (getAllUsers b),
      rt_isPrefix = False, rt_middlewares = []\<rparr>,
     \<lparr>rt_method = GET, rt_path = ''/api/users/:id'', rt_handler = guarded (b_jwt b) (getUserById b),
      rt_isPrefix = False, rt_middlewares = []\<rparr>,
     \<lparr>rt_method = PUT, rt_path = ''/api/users/:id'', rt_handler = guarded (b_jwt b) (updateUser b),
      rt_isPrefix = False, rt_middlewares = []\<rparr>,
     \<lparr>rt_method = DELETE, rt_path = ''/api/users/:id'', rt_handler = guarded (b_jwt b) (deleteUser b),
      rt_isPrefix = False, rt_middlewares = []\<rparr>]"
  by (simp add: App_router_def registerRoutes_def Let_def router_post_def router_get_def router_put_def
      router_del_def add_route_def router_use_def router_ws_def serveFiles_def new_Router_def)

lemma App_router_global:
  "global_middlewares (App_router b rd fs api pub) = [log_middleware, login_limit (RateLimiter_create rd 100000 10)]"
  by (simp add: App_router_def registerRoutes_def Let_def router_post_def router_get_def router_put_def
      router_del_def add_route_def router_use_def router_ws_def serveFiles_def new_Router_def)

lemma App_router_ws:
  "ws_routes (App_router b rd fs api pub) = [''/api/telemetry'' \<mapsto> telemetry_handler, ''/api/chat'' \<mapsto> chat_handler api]"
  by (simp add: App_router_def registerRoutes_def Let_def router_post_def router_get_def router_put_def
      router_del_def add_route_def router_use_def router_ws_def serveFiles_def new_Router_def)

lemma ws_handlers_App:
  "e_router env = App_router b rd fs api pub \<Longrightarrow> ws_routes (e_router env) path = Some h \<Longrightarrow>
   cc_socket (snd (fst (h cid c frame w))) = cc_socket c"
  by (auto simp: App_router_ws telemetry_handler_def chat_handler_def sendWebSocketMessage_def conn_send_def
      split: if_splits prod.splits)

lemma App_global_pass:
  assumes "rq_path req \<noteq> ''/api/login''"
  shows "run_middlewares (global_middlewares (App_router b rd fs api pub)) req res w = (w, Inr (True, req, res))"
  using assms by (simp add: App_router_global log_middleware_def login_limit_def)

text \<open>The mount of the static files matches every path first.\<close>

lemma App_get_shadowed:
  assumes "rq_method req = GET" "prefix ''/'' (rq_path req)" "rq_path req \<noteq> ''/api/login''"
  shows "router_handle (App_router b rd fs api pub) req w =
    fileHandler fs ''/'' (case pub of None \<Rightarrow> ''public'' | Some d \<Rightarrow> d) req new_response w"
  using assms
  by (simp add: router_handle_def App_global_pass App_router_routes route_matches_def run_route_def)

section \<open>Changes need a token\<close>

definition authorized :: "('w, 't) jwt \<Rightarrow> HttpHeaders \<Rightarrow> 'w \<Rightarrow> bool" where
  "authorized jw hs w \<longleftrightarrow>
     (\<exists>token. hdr_get hs ''Authorization'' = ''Bearer '' @ token \<and> verifyToken jw token w \<noteq> None)"

text \<open>A handler that leaves the world alone and answers 401 to every request with the given headers.\<close>

definition refuses :: "HttpHeaders \<Rightarrow> 'w \<Rightarrow> ('j, 'w) Handler \<Rightarrow> bool" where
  "refuses hs w h \<longleftrightarrow> (\<forall>req res. rq_headers req = hs \<longrightarrow>
     (\<exists>req' res'. h req res w = (w, Inr (req', res')) \<and> rs_status res' = Unauthorized))"

lemma guarded_refuses:
  fixes h :: "('j, 'w) Handler"
  assumes "\<not> authorized jw hs w"
  shows "refuses hs w (guarded jw h)"
  unfolding refuses_def
proof (intro allI impI)
  fix req :: "'j HttpRequest" and res
  assume h: "rq_headers req = hs"
  let ?a = "req_header req ''Authorization''"
  have "?a = [] \<or> sv_substr ?a 0 7 \<noteq> ''Bearer '' \<or> verifyToken jw (drop 7 ?a) w = None"
  proof (rule ccontr)
    assume n: "\<not> ?thesis"
    then have "?a = ''Bearer '' @ drop 7 ?a"
      using append_take_drop_id [of 7 ?a] by (simp add: sv_substr_def)
    moreover have "?a = hdr_get hs ''Authorization''" using h by (simp add: req_header_def)
    ultimately show False using assms n unfolding authorized_def by metis
  qed
  then show "\<exists>req' res'. guarded jw h req res w = (w, Inr (req', res')) \<and> rs_status res' = Unauthorized"
    by (auto simp: guarded_def requireAuth_def Let_def res_json_def res_setStatus_def res_setBody_def
        res_setHeader_def)
qed

lemma route_matches_keeps:
  assumes "route_matches route req = (m, req')"
  shows "rq_headers req' = rq_headers req" "rq_method req' = rq_method req"
  using assms by (auto simp: route_matches_def matchDynamicPath_spec split: if_splits)

lemma route_loop_refused:
  assumes "\<And>r. r \<in> set rs \<Longrightarrow> rt_method r = m \<Longrightarrow> rt_middlewares r = [] \<and> refuses hs w (rt_handler r)"
    and "rq_headers req = hs" "rq_method req = m"
  shows "\<exists>req' res'. route_loop rs found req res w = (w, Inr (req', res')) \<and>
    rs_status res' \<in> {Unauthorized, NotFound, MethodNotAllowed}"
  using assms
proof (induction rs arbitrary: found req)
  case Nil
  then show ?case by (simp add: res_setBody_def res_setStatus_def)
next
  case (Cons r rs)
  obtain ok req1 where m: "route_matches r req = (ok, req1)" by fastforce
  have h: "rq_headers req1 = hs" "rq_method req1 = m" using route_matches_keeps [OF m] Cons.prems by auto
  show ?case
  proof (cases "ok \<and> rt_method r = m")
    case True
    with Cons.prems(1) [of r] have r: "rt_middlewares r = []" "refuses hs w (rt_handler r)" by auto
    then obtain req' res' where "rt_handler r req1 res w = (w, Inr (req', res'))" "rs_status res' = Unauthorized"
      using h unfolding refuses_def by blast
    with True m h r show ?thesis by (simp add: run_route_def)
  next
    case False
    then show ?thesis
      using Cons.IH [of req1 found] Cons.IH [of req1 True] Cons.prems(1) h m by auto
  qed
qed

lemma App_unauthorized:
  assumes "rq_method req = PUT \<or> rq_method req = DELETE" "rq_path req \<noteq> ''/api/login''"
    and no: "\<not> authorized (b_jwt b) (rq_headers req) w"
  shows "\<exists>req' res'. router_handle (App_router b rd fs api pub) req w = (w, Inr (req', res')) \<and>
    rs_status res' \<in> {Unauthorized, NotFound, MethodNotAllowed}"
proof -
  have "\<exists>req' res'. route_loop (routes (App_router b rd fs api pub)) False req new_response w = (w, Inr (req', res')) \<and>
      rs_status res' \<in> {Unauthorized, NotFound, MethodNotAllowed}"
    using assms(1) guarded_refuses [OF no]
    by (intro route_loop_refused [where hs = "rq_headers req" and m = "rq_method req"])
      (auto simp: App_router_routes)
  then show ?thesis using assms(2) by (simp add: router_handle_def App_global_pass)
qed

section \<open>Logging in\<close>

lemma eff_bind_InrE:
  assumes "eff_bind m f s = (s', Inr y)"
  obtains s1 x where "m s = (s1, Inr x)" "f x s1 = (s', Inr y)"
  using assms by (auto simp: eff_bind_eq_Inr)

lemma reply_status [simp]: "rs_status (reply res st text) = st"
  by (simp add: reply_def res_json_def res_setStatus_def res_setBody_def res_setHeader_def)

lemma lift_sum_Inr: "lift_sum r s = (s', Inr x) \<longleftrightarrow> s' = s \<and> r = Inr x"
  by (auto simp: lift_sum_def)

lemma eff_return_Inr: "eff_return x s = (s', Inr y) \<longleftrightarrow> s' = s \<and> x = y"
  by (auto simp: eff_return_def)

lemma login_check_ok:
  assumes run: "login_check b res name password w = (w', Inr res')" and ok: "rs_status res' = OK"
  obtains u w1 where "repo_findByUsername (b_mongo b) name w = (w1, Inr (Some u))" "u_password_hash u \<noteq> []"
    "so_pwhash_str_verify (b_sodium b) (cstr (u_password_hash u)) password = 0"
    "res' = reply res OK (token_json (generateToken (b_jwt b) (u_id u) (u_role u) w'))"
proof -
  from run obtain w1 user where f: "repo_findByUsername (b_mongo b) name w = (w1, Inr user)"
    and r: "(case user of
         None \<Rightarrow> eff_return (reply res Unauthorized BAD_LOGIN)
       | Some u \<Rightarrow>
           if u_password_hash u = [] then eff_return (reply res Unauthorized BAD_LOGIN)
           else
             eff_bind (verifyPassword (b_sodium b) password (u_password_hash u)) (\<lambda>ok.
               if \<not> ok then eff_return (reply res Unauthorized BAD_LOGIN)
               else eff_bind (eff_get (generateToken (b_jwt b) (u_id u) (u_role u))) (\<lambda>token.
                 eff_return (reply res OK (token_json token))))) w1 = (w', Inr res')"
    unfolding login_check_def by (elim eff_bind_InrE)
  obtain u where u: "user = Some u" "u_password_hash u \<noteq> []"
    using r ok by (cases user) (auto simp: eff_return_Inr split: if_splits)
  have "so_pwhash_str_verify (b_sodium b) (cstr (u_password_hash u)) password = 0 \<and>
      res' = reply res OK (token_json (generateToken (b_jwt b) (u_id u) (u_role u) w'))"
    using r u ok
    by (auto simp: eff_bind_eq_Inr eff_return_Inr eff_get_def verifyPassword_def split: if_splits)
  with f u show thesis by (intro that) auto
qed

lemma loginUser_ok:
  assumes run: "loginUser b req res w = (w', Inr (req', res'))" and ok: "rs_status res' = OK"
  obtains document name password u w1 where
    "extractJson (b_json b) req res = (res, Some document)"
    "json_string (b_json b) document ''name'' = Inr name"
    "json_string (b_json b) document ''password'' = Inr password"
    "repo_findByUsername (b_mongo b) name w = (w1, Inr (Some u))" "u_password_hash u \<noteq> []"
    "so_pwhash_str_verify (b_sodium b) (cstr (u_password_hash u)) password = 0"
    "res' = reply res OK (token_json (generateToken (b_jwt b) (u_id u) (u_role u) w'))"
proof -
  obtain document where d: "extractJson (b_json b) req res = (res, Some document)"
    using run ok
    by (auto simp: loginUser_def with_json_def extractJson_def eff_return_def Let_def
        split: if_splits sum.splits)
  with run ok obtain name password where
    n: "json_string (b_json b) document ''name'' = Inr name" "json_string (b_json b) document ''password'' = Inr password"
    and c: "login_check b res name password w = (w', Inr res')"
    by (auto simp: loginUser_def with_json_def Let_def eff_bind_eq_Inr eff_return_Inr lift_sum_Inr
        split: if_splits)
  from c ok show thesis by (rule login_check_ok) (rule that [OF d n])
qed

section \<open>Broadcasting\<close>

lemma broadcast_frame:
  "broadcast api text cids p = (p', Inr kept) \<Longrightarrow>
   kept = filter (\<lambda>cid. conns p cid \<noteq> None) cids \<and> dom (conns p') = dom (conns p) \<and>
   (\<forall>cid. cid \<notin> set cids \<longrightarrow> conns p' cid = conns p cid) \<and>
   kern p' = kern p \<and> tasks p' = tasks p \<and> use_count p' = use_count p \<and> world p' = world p"
proof (induction cids arbitrary: p p' kept)
  case (Cons cid cids)
  show ?case
  proof (cases "conns p cid")
    case None
    with Cons show ?thesis by simp
  next
    case (Some c)
    obtain c' r where s: "sendWebSocketMessage api c text WsText = (c', r)" by fastforce
    let ?p = "p\<lparr>conns := (conns p)(cid \<mapsto> c')\<rparr>"
    obtain kept' where b: "r = Inr ()" "broadcast api text cids ?p = (p', Inr kept')" "kept = cid # kept'"
      using Cons.prems Some s by (cases r) (auto split: prod.splits sum.splits)
    have "(conns ?p x \<noteq> None) = (conns p x \<noteq> None)" for x using Some by auto
    with Cons.IH [OF b(2)] b(3) Some show ?thesis by auto
  qed
qed simp

text \<open>The bytes a client has got, \<open>sent (cc_ssl c)\<close>, grow by exactly one frame for each live client.\<close>

lemma broadcast_sent:
  assumes w: "ssl_write_ok api sent" and all: "\<forall>s d. d \<noteq> [] \<longrightarrow> 0 < fst (SSL_write api s d)"
  shows "distinct cids \<Longrightarrow> \<exists>p'. broadcast api text cids p = (p', Inr (filter (\<lambda>cid. conns p cid \<noteq> None) cids)) \<and>
    (\<forall>cid \<in> set cids. \<forall>c. conns p cid = Some c \<longrightarrow> (\<exists>c'. conns p' cid = Some c' \<and>
      sent (cc_ssl c') = sent (cc_ssl c) @ ws_frame text WsText)) \<and>
    (\<forall>cid. cid \<notin> set cids \<longrightarrow> conns p' cid = conns p cid)"
proof (induction cids arbitrary: p)
  case (Cons cid cids)
  show ?case
  proof (cases "conns p cid")
    case None
    with Cons.IH [of p] Cons.prems show ?thesis by auto
  next
    case (Some c)
    obtain s' where s: "conn_send_loop api (cc_ssl c) (ws_frame text WsText) = (s', Inr ())"
      "sent s' = sent (cc_ssl c) @ ws_frame text WsText"
      using conn_send_loop_all [OF w all] by blast
    let ?c = "c\<lparr>cc_ssl := s'\<rparr>" and ?p = "p\<lparr>conns := (conns p)(cid \<mapsto> c\<lparr>cc_ssl := s'\<rparr>)\<rparr>"
    have m: "sendWebSocketMessage api c text WsText = (?c, Inr ())"
      using s(1) by (simp add: sendWebSocketMessage_def conn_send_def)
    have nin: "cid \<notin> set cids" and d: "distinct cids" using Cons.prems by auto
    obtain p' where p': "broadcast api text cids ?p = (p', Inr (filter (\<lambda>x. conns ?p x \<noteq> None) cids))"
      "\<forall>x \<in> set cids. \<forall>c. conns ?p x = Some c \<longrightarrow> (\<exists>c'. conns p' x = Some c' \<and>
        sent (cc_ssl c') = sent (cc_ssl c) @ ws_frame text WsText)"
      "\<forall>x. x \<notin> set cids \<longrightarrow> conns p' x = conns ?p x"
      using Cons.IH [OF d, of ?p] by auto
    have f: "filter (\<lambda>x. conns ?p x \<noteq> None) cids = filter (\<lambda>x. conns p x \<noteq> None) cids"
      using nin by (intro filter_cong) auto
    have "broadcast api text (cid # cids) p = (p', Inr (filter (\<lambda>x. conns p x \<noteq> None) (cid # cids)))"
      using Some m p'(1) f by simp
    moreover have "\<exists>c'. conns p' x = Some c' \<and> sent (cc_ssl c') = sent (cc_ssl y) @ ws_frame text WsText"
      if "x \<in> set (cid # cids)" "conns p x = Some y" for x y
    proof (cases "x = cid")
      case True
      with p'(3) nin Some that s(2) show ?thesis by auto
    next
      case False
      with p'(2) that show ?thesis by auto
    qed
    moreover have "\<forall>x. x \<notin> set (cid # cids) \<longrightarrow> conns p' x = conns p x" using p'(3) by auto
    ultimately show ?thesis by blast
  qed
qed simp

lemma broadcast_throws:
  assumes "conns p cid = Some c" and "sendWebSocketMessage api c text WsText = (c', Inl e)"
  shows "\<exists>p'. broadcast api text (cid # cids) p = (p', Inl e)"
  using assms by simp

end
