(* ===== verification/Startup.thy ===== *)
theory Startup
  imports Application
begin

text \<open>
  \<^verbatim>\<open>src/src/utils/Logger.cpp\<close>, \<^verbatim>\<open>src/src/database/MongoPool.cpp\<close>, the members of \<open>App\<close> and \<open>main\<close> up to the start of
  the server: which failures are survived, which end the process and which end it quietly.

  spdlog, the MongoDB driver and the Redis client are parameters; their calls act on a state \<open>'l\<close> of all
  libraries together and may throw.
\<close>

section \<open>Logger\<close>

datatype log_level = Level_trace | Level_info | Level_warn

datatype overflow_policy = Overflow_block

record ('l, 'sink, 'logger) spdlog =
  sl_init_thread_pool :: "nat \<Rightarrow> nat \<Rightarrow> ('l, unit) effect"
  sl_stdout_color_sink :: "('l, 'sink) effect"
  sl_rotating_file_sink :: "string \<Rightarrow> nat \<Rightarrow> nat \<Rightarrow> ('l, 'sink) effect"
  sl_sink_level :: "'sink \<Rightarrow> log_level \<Rightarrow> ('l, unit) effect"
  sl_sink_pattern :: "'sink \<Rightarrow> string \<Rightarrow> ('l, unit) effect"
  sl_async_logger :: "string \<Rightarrow> 'sink list \<Rightarrow> overflow_policy \<Rightarrow> ('l, 'logger) effect"
  sl_set_default_logger :: "'logger \<Rightarrow> ('l, unit) effect"
  sl_set_level :: "log_level \<Rightarrow> ('l, unit) effect"
  sl_flush_on :: "log_level \<Rightarrow> ('l, unit) effect"
  sl_is_spdlog_ex :: "std_exception \<Rightarrow> bool"
  sl_cout :: "string \<Rightarrow> 'l \<Rightarrow> 'l"

definition Logger_setup :: "('l, 'sink, 'logger) spdlog \<Rightarrow> ('l, unit) effect" where
  "Logger_setup sp =
     eff_bind (sl_init_thread_pool sp 8192 1) (\<lambda>_.
     eff_bind (sl_stdout_color_sink sp) (\<lambda>console_sink.
     eff_bind (sl_sink_level sp console_sink Level_info) (\<lambda>_.
     eff_bind (sl_sink_pattern sp console_sink ''[%^%l%$] %v'') (\<lambda>_.
     eff_bind (sl_rotating_file_sink sp ''logs/server.log'' (1024 * 1024 * 5) 3) (\<lambda>file_sink.
     eff_bind (sl_sink_level sp file_sink Level_trace) (\<lambda>_.
     eff_bind (sl_sink_pattern sp file_sink ''[%Y-%m-%d %H:%M:%S.%e] [%t] [%l] %v'') (\<lambda>_.
     eff_bind (sl_async_logger sp ''multi_sink'' [console_sink, file_sink] Overflow_block) (\<lambda>async_logger.
     eff_bind (sl_set_default_logger sp async_logger) (\<lambda>_.
     eff_bind (sl_set_level sp Level_info) (\<lambda>_.
       sl_flush_on sp Level_warn))))))))))"

definition Logger_init :: "('l, 'sink, 'logger) spdlog \<Rightarrow> ('l, unit) effect" where
  "Logger_init sp =
     eff_catch (Logger_setup sp) (\<lambda>e.
       if sl_is_spdlog_ex sp e
       then eff_modify (sl_cout sp (''Log initialization failed: '' @ what e @ [LF]))
       else eff_throw e)"

text \<open>A failure of the logging library never stops the start; it is printed.\<close>

lemma Logger_init_survives:
  assumes "Logger_init sp l = (l', Inl e)"
  shows "\<not> sl_is_spdlog_ex sp e"
  using assms by (auto simp: Logger_init_def eff_catch_def eff_modify_def eff_throw_def split: prod.splits sum.splits if_splits)

section \<open>MongoPool\<close>

record ('l, 'u, 'p, 'e) mongocxx =
  mx_instance :: "('l, unit) effect"
  mx_uri :: "string \<Rightarrow> ('l, 'u) effect"
  mx_pool :: "'u \<Rightarrow> ('l, 'p) effect"
  mx_acquire :: "'p \<Rightarrow> ('l, 'e) effect"

record ('u, 'p) MongoPool =
  mp_uri :: 'u
  mp_pool :: 'p

definition new_MongoPool :: "('l, 'u, 'p, 'e) mongocxx \<Rightarrow> string \<Rightarrow> ('l, ('u, 'p) MongoPool) effect" where
  "new_MongoPool mx uri_string =
     eff_bind (mx_uri mx uri_string) (\<lambda>u.
     eff_bind (mx_pool mx u) (\<lambda>p. eff_return \<lparr>mp_uri = u, mp_pool = p\<rparr>))"

definition MongoPool_acquire :: "('l, 'u, 'p, 'e) mongocxx \<Rightarrow> ('u, 'p) MongoPool \<Rightarrow> ('l, 'e) effect" where
  "MongoPool_acquire mx pool = mx_acquire mx (mp_pool pool)"

section \<open>The members of App and main\<close>

record ('u, 'p, 'r) App =
  app_config :: AppConfiguration
  app_db_pool :: "('u, 'p) MongoPool"
  app_public_dir :: string
  app_redis :: 'r

definition new_App ::
  "('l, 'u, 'p, 'e) mongocxx \<Rightarrow> (string \<Rightarrow> ('l, 'r) effect) \<Rightarrow> (string \<rightharpoonup> string) \<Rightarrow> AppConfiguration \<Rightarrow>
   ('l, ('u, 'p, 'r) App) effect" where
  "new_App mx redis vars config =
     eff_bind (mx_instance mx) (\<lambda>_.
     eff_bind (new_MongoPool mx (cfg_db_uri config)) (\<lambda>pool.
     eff_bind (redis (case vars ''REDIS_URI'' of None \<Rightarrow> ''tcp://localhost:6379'' | Some u \<Rightarrow> u)) (\<lambda>client.
       eff_return \<lparr>app_config = config, app_db_pool = pool,
         app_public_dir = (case vars ''PUBLIC_DIR_PATH'' of None \<Rightarrow> ''public'' | Some d \<Rightarrow> d), app_redis = client\<rparr>)))"

text \<open>
  \<open>main\<close> until \<open>server_.start()\<close>; the result says whether the server is started. An exception leaves \<open>main\<close>
  and ends the process.
\<close>

definition main_boot ::
  "('l, 'sink, 'logger) spdlog \<Rightarrow> ('l, 'u, 'p, 'e) mongocxx \<Rightarrow> (string \<Rightarrow> ('l, 'r) effect) \<Rightarrow> 'c ssl_ctx \<Rightarrow>
   string option \<Rightarrow> (string \<rightharpoonup> string) \<Rightarrow> ('l, ('u, 'p, 'r) App \<times> 'c option \<times> broadcaster \<times> bool) effect" where
  "main_boot sp mx redis tls env_file vars0 =
     eff_bind (Logger_init sp) (\<lambda>_.
     let vars = EnvParser_load env_file vars0 in
     eff_bind (new_App mx redis vars (main_configuration env_file vars0)) (\<lambda>app.
       eff_return (app, App_boot tls vars None \<lparr>tb_running = False, tb_thread = False\<rparr>)))"

lemma SslManager_initialize_ok:
  assumes "SslManager_initialize tls cert key old = (ctx, Inr ())"
  obtains c where "ctx = Some c" "SSL_CTX_check_private_key tls c"
  using assms by (auto simp: SslManager_initialize_def Let_def split: option.splits prod.splits if_splits)

text \<open>
  The server is started only with a TLS context whose key matches its certificate, with the telemetry
  thread running, the configuration of the environment and a connection to database and Redis.
\<close>

lemma main_boot_started:
  assumes "main_boot sp mx redis tls env_file vars0 l = (l', Inr (app, ctx, tb, True))"
  shows "\<exists>c l1 l2 l3. ctx = Some c \<and> SSL_CTX_check_private_key tls c \<and> tb_running tb \<and> tb_thread tb \<and>
    app_config app = main_configuration env_file vars0 \<and> Logger_init sp l = (l1, Inr ()) \<and>
    mx_instance mx l1 = (l2, Inr ()) \<and> new_MongoPool mx (cfg_db_uri (app_config app)) l2 = (l3, Inr (app_db_pool app))"
proof -
  let ?vars = "EnvParser_load env_file vars0" and ?cfg = "main_configuration env_file vars0"
  obtain l1 where l1: "Logger_init sp l = (l1, Inr ())" "new_App mx redis ?vars ?cfg l1 = (l', Inr app)"
    and boot: "App_boot tls ?vars None \<lparr>tb_running = False, tb_thread = False\<rparr> = (ctx, tb, True)"
    using assms by (auto simp: main_boot_def Let_def eff_bind_eq_Inr eff_return_def)
  from l1(2) obtain l2 l3 where "mx_instance mx l1 = (l2, Inr ())" "app_config app = ?cfg"
    "new_MongoPool mx (cfg_db_uri ?cfg) l2 = (l3, Inr (app_db_pool app))"
    by (auto simp: new_App_def eff_bind_eq_Inr eff_return_def)
  moreover obtain cert key where "SslManager_initialize tls cert key None = (ctx, Inr ())"
    "tb = telemetry_start \<lparr>tb_running = False, tb_thread = False\<rparr>"
    using boot by (auto simp: App_boot_def Let_def split: prod.splits sum.splits)
  ultimately show ?thesis
    using l1(1) by (auto simp: telemetry_start_def elim!: SslManager_initialize_ok)
qed

end
