(* ===== verification/User_Accounts.thy ===== *)
theory User_Accounts
  imports Application
begin

text \<open>
  The life of an account across \<open>UserController\<close>, \<open>UserRepository\<close>, \<open>CryptoUtils\<close>, \<open>JwtUtils\<close> and the check of
  bearer tokens: who is created can log in with the password, and the token of the login is accepted
  for a day. What the libraries promise for this is stated first.
\<close>

section \<open>The laws of the libraries\<close>

text \<open>
  \<open>users w\<close> are the accounts (name, hash, role) the database holds, in the order of insertion. A query by
  name finds the first of them; reading its document gives the stored fields.
\<close>

definition accounts_ok :: "('w, 'd) mongo \<Rightarrow> ('w \<Rightarrow> (string \<times> string \<times> string) list) \<Rightarrow> bool" where
  "accounts_ok mg users \<longleftrightarrow>
     (\<forall>w. \<exists>w'. mg_acquire mg w = (w', Inr ()) \<and> users w' = users w) \<and>
     (\<forall>w n h r. \<exists>w'. mg_insert_one mg [(''name'', n), (''password_hash'', h), (''role'', r)] w = (w', Inr ()) \<and>
        users w' = users w @ [(n, h, r)]) \<and>
     (\<forall>w n. \<exists>w' found. mg_find_name mg n w = (w', Inr found) \<and> users w' = users w \<and>
        (case List.find (\<lambda>(m, h, r). m = n) (users w) of
           None \<Rightarrow> found = None
         | Some (m, h, r) \<Rightarrow> (\<exists>d i. found = Some d \<and>
             user_of_doc mg d = Inr \<lparr>u_id = i, u_name = m, u_password_hash = h, u_role = r\<rparr>)))"

text \<open>libsodium does not touch the database; a hash it makes verifies the password it was made of.\<close>

definition sodium_ok :: "'w sodium \<Rightarrow> ('w \<Rightarrow> 'u) \<Rightarrow> bool" where
  "sodium_ok so users \<longleftrightarrow>
     (\<forall>w. 0 \<le> snd (so_init so w) \<and> users (fst (so_init so w)) = users w) \<and>
     (\<forall>p w w' r h. so_pwhash_str so p w = (w', r, h) \<longrightarrow> users w' = users w \<and>
        (r = 0 \<longrightarrow> cstr h \<noteq> [] \<and> so_pwhash_str_verify so (cstr h) p = 0))"

text \<open>A token signed for an id and a role decodes, carries them as its claims, and verifies with its secret and issuer until it expires.\<close>

definition jwt_ok :: "('w, 't) jwt \<Rightarrow> bool" where
  "jwt_ok jw \<longleftrightarrow> (\<forall>iss ty i r t e sec. \<exists>tok.
     jw_decode jw (jw_sign jw iss ty [(''id'', i), (''role'', r)] t e sec) = Inr tok \<and>
     jw_claim jw tok ''id'' = Inr i \<and> jw_claim jw tok ''role'' = Inr r \<and>
     (\<forall>now. t \<le> now \<and> now \<le> e \<longrightarrow> jw_verify jw sec iss now tok = Inr ()) \<and>
     (\<forall>now. e < now \<longrightarrow> isl (jw_verify jw sec iss now tok)))"

section \<open>Creating an account\<close>

lemma cstr_idem [simp]: "cstr (cstr s) = cstr s"
  by (simp add: cstr_def)

lemma eff_catch_Inr:
  "eff_catch m h s = (s', Inr x) \<longleftrightarrow>
   m s = (s', Inr x) \<or> (\<exists>s1 e. m s = (s1, Inl e) \<and> h e s1 = (s', Inr x))"
  by (auto simp: eff_catch_def split: prod.splits sum.splits)

lemma ensureSodium_ok:
  assumes "sodium_ok so users"
  obtains w' where "ensureSodiumInitialized so w = (w', Inr ())" "users w' = users w"
proof -
  have "0 \<le> snd (so_init so w)" "users (fst (so_init so w)) = users w" using assms by (simp_all add: sodium_ok_def)
  then show thesis
    by (intro that [of "fst (so_init so w)"]) (auto simp: ensureSodiumInitialized_def split: prod.splits)
qed

lemma hashPassword_ok:
  assumes so: "sodium_ok so users" and run: "hashPassword so p w = (w', Inr h)"
  shows "users w' = users w" "h \<noteq> []" "cstr h = h" "so_pwhash_str_verify so h p = 0"
proof -
  obtain w1 where w1: "ensureSodiumInitialized so w = (w1, Inr ())" "users w1 = users w"
    by (rule ensureSodium_ok [OF so])
  obtain g where g: "so_pwhash_str so p w1 = (w', 0, g)" "h = cstr g"
    using run w1(1) by (auto simp: hashPassword_def eff_bind_def split: prod.splits if_splits)
  then show "users w' = users w" "h \<noteq> []" "cstr h = h" "so_pwhash_str_verify so h p = 0"
    using so w1(2) unfolding sodium_ok_def by (metis cstr_idem)+
qed

lemma repo_createUser_ok:
  assumes mg: "accounts_ok mg users" and run: "repo_createUser mg n h r w = (w', Inr created)"
  shows "users w' = users w @ [(n, h, r)]"
proof -
  obtain w1 where w1: "mg_acquire mg w = (w1, Inr ())" "users w1 = users w"
    using mg unfolding accounts_ok_def by blast
  obtain w2 where "mg_insert_one mg [(''name'', n), (''password_hash'', h), (''role'', r)] w1 = (w2, Inr ())"
    "users w2 = users w1 @ [(n, h, r)]" using mg unfolding accounts_ok_def by blast
  with run w1 show ?thesis by (simp add: repo_createUser_def eff_catch_def eff_bind_def eff_return_def)
qed

lemma createUser_created:
  assumes run: "createUser b req res w = (w', Inr (req', res'))" and ok: "rs_status res' = Created"
  obtains document name password role h w1 where
    "extractJson (b_json b) req res = (res, Some document)"
    "json_string (b_json b) document ''name'' = Inr name"
    "json_string (b_json b) document ''password'' = Inr password"
    "hashPassword (b_sodium b) password w = (w1, Inr h)" "repo_createUser (b_mongo b) name h role w1 = (w', Inr True)"
proof -
  obtain document where d: "extractJson (b_json b) req res = (res, Some document)"
    using run ok
    by (auto simp: createUser_def with_json_def extractJson_def eff_return_def Let_def split: if_splits sum.splits)
  show thesis
    using run ok d
    by (auto simp: createUser_def with_json_def Let_def eff_bind_eq_Inr eff_catch_Inr eff_return_Inr lift_sum_Inr
        split: if_splits intro: that [OF d])
qed

section \<open>Logging in and the token\<close>

lemma repo_findByUsername_ok:
  assumes mg: "accounts_ok mg users" and f: "List.find (\<lambda>(m, h, r). m = n) (users w) = Some (n, h, r)"
  obtains w' i where "repo_findByUsername mg n w =
      (w', Inr (Some \<lparr>u_id = i, u_name = n, u_password_hash = h, u_role = r\<rparr>))" "users w' = users w"
proof -
  obtain w1 where w1: "mg_acquire mg w = (w1, Inr ())" "users w1 = users w"
    using mg unfolding accounts_ok_def by blast
  then have f1: "List.find (\<lambda>(m, h, r). m = n) (users w1) = Some (n, h, r)" using f by simp
  obtain w2 found where w2: "mg_find_name mg n w1 = (w2, Inr found)" "users w2 = users w1"
    and c: "case List.find (\<lambda>(m, h, r). m = n) (users w1) of
           None \<Rightarrow> found = None
         | Some (m, h, r) \<Rightarrow> (\<exists>d i. found = Some d \<and>
             user_of_doc mg d = Inr \<lparr>u_id = i, u_name = m, u_password_hash = h, u_role = r\<rparr>)"
    using mg unfolding accounts_ok_def by blast
  from c f1 obtain d i where "found = Some d"
    "user_of_doc mg d = Inr \<lparr>u_id = i, u_name = n, u_password_hash = h, u_role = r\<rparr>" by auto
  with w1 w2 show thesis
    by (intro that [of w2 i]) (simp_all add: repo_findByUsername_def found_user_def eff_catch_def eff_bind_def
        eff_return_def lift_sum_def)
qed

lemma login_check_accepts:
  assumes mg: "accounts_ok (b_mongo b) users" and so: "sodium_ok (b_sodium b) users"
    and f: "List.find (\<lambda>(m, h, r). m = n) (users w) = Some (n, h, r)" and h: "h \<noteq> []"
    and v: "so_pwhash_str_verify (b_sodium b) (cstr h) password = 0"
  obtains w' i where "login_check b res n password w =
      (w', Inr (reply res OK (token_json (generateToken (b_jwt b) i r w'))))" "users w' = users w"
proof -
  obtain w1 i where w1: "repo_findByUsername (b_mongo b) n w =
      (w1, Inr (Some \<lparr>u_id = i, u_name = n, u_password_hash = h, u_role = r\<rparr>))" "users w1 = users w"
    by (rule repo_findByUsername_ok [OF mg f])
  obtain w2 where w2: "ensureSodiumInitialized (b_sodium b) w1 = (w2, Inr ())" "users w2 = users w1"
    by (rule ensureSodium_ok [OF so])
  from w1 w2 h v show thesis
    by (intro that [of w2 i])
      (simp_all add: login_check_def verifyPassword_def eff_bind_def eff_return_def eff_get_def)
qed

lemma token_accepted:
  assumes jw: "jwt_ok jw" and w': "getSecret jw w' = getSecret jw w"
  shows "jw_now jw w \<le> jw_now jw w' \<Longrightarrow> jw_now jw w' \<le> jw_now jw w + 24 * 3600 \<Longrightarrow>
      verifyToken jw (generateToken jw i r w) w' = Some i"
    and "jw_now jw w + 24 * 3600 < jw_now jw w' \<Longrightarrow> verifyToken jw (generateToken jw i r w) w' = None"
proof -
  obtain tok where t: "jw_decode jw (generateToken jw i r w) = Inr tok"
    "jw_claim jw tok ''id'' = Inr i"
    "\<And>now. jw_now jw w \<le> now \<and> now \<le> jw_now jw w + 24 * 3600 \<Longrightarrow> jw_verify jw (getSecret jw w) ISSUER now tok = Inr ()"
    "\<And>now. jw_now jw w + 24 * 3600 < now \<Longrightarrow> isl (jw_verify jw (getSecret jw w) ISSUER now tok)"
    using jw unfolding jwt_ok_def generateToken_def by blast
  show "verifyToken jw (generateToken jw i r w) w' = Some i"
    if "jw_now jw w \<le> jw_now jw w'" "jw_now jw w' \<le> jw_now jw w + 24 * 3600"
    using t(1,2) t(3) [of "jw_now jw w'"] that w' by (simp add: verifyToken_def)
  show "verifyToken jw (generateToken jw i r w) w' = None" if "jw_now jw w + 24 * 3600 < jw_now jw w'"
    using t(1) t(4) [OF that] w' by (auto simp: verifyToken_def isl_def)
qed

lemma guarded_passes:
  assumes "req_header req ''Authorization'' = ''Bearer '' @ token" "verifyToken jw token w \<noteq> None"
  shows "guarded jw handler req res w = handler req res w"
  using assms by (auto simp: guarded_def requireAuth_def Let_def sv_substr_def)

section \<open>All together\<close>

lemma find_appended:
  "\<forall>h r. (n, h, r) \<notin> set us \<Longrightarrow> List.find (\<lambda>(m, h, r). m = n) (us @ [(n, h, r)]) = Some (n, h, r)"
  by (induction us) (auto split: prod.splits)

lemma registered_user_logs_in:
  fixes b :: "('w, 'd, 'j, 't) backends"
  assumes mg: "accounts_ok (b_mongo b) users" and so: "sodium_ok (b_sodium b) users" and jw: "jwt_ok (b_jwt b)"
    and made: "createUser b req res w = (w1, Inr (req', res'))" "rs_status res' = Created"
    and doc: "extractJson (b_json b) req res = (res, Some document)"
      "json_string (b_json b) document ''name'' = Inr name" "json_string (b_json b) document ''password'' = Inr password"
    and fresh: "\<forall>h r. (name, h, r) \<notin> set (users w)"
    and again: "extractJson (b_json b) req2 res2 = (res2, Some document2)"
      "js_contains (b_json b) document2 ''name''" "js_contains (b_json b) document2 ''password''"
      "json_string (b_json b) document2 ''name'' = Inr name" "json_string (b_json b) document2 ''password'' = Inr password"
  shows "\<exists>w2 token i. loginUser b req2 res2 w1 = (w2, Inr (req2, reply res2 OK (token_json token))) \<and>
    (\<forall>w3. getSecret (b_jwt b) w3 = getSecret (b_jwt b) w2 \<longrightarrow> jw_now (b_jwt b) w2 \<le> jw_now (b_jwt b) w3 \<longrightarrow>
      verifyToken (b_jwt b) token w3 =
        (if jw_now (b_jwt b) w3 \<le> jw_now (b_jwt b) w2 + 24 * 3600 then Some i else None) \<and>
      (\<forall>handler req3 res3. req_header req3 ''Authorization'' = ''Bearer '' @ token \<longrightarrow>
        jw_now (b_jwt b) w3 \<le> jw_now (b_jwt b) w2 + 24 * 3600 \<longrightarrow>
        guarded (b_jwt b) handler (req3 :: 'j HttpRequest) res3 w3 = handler req3 res3 w3))"
proof -
  from made obtain role h wh where h: "hashPassword (b_sodium b) password w = (wh, Inr h)"
    "repo_createUser (b_mongo b) name h role wh = (w1, Inr True)"
    by (rule createUser_created) (use doc in auto)
  note hash = hashPassword_ok [OF so h(1)]
  have "users w1 = users w @ [(name, h, role)]" using repo_createUser_ok [OF mg h(2)] hash(1) by simp
  then have "List.find (\<lambda>(m, h, r). m = name) (users w1) = Some (name, h, role)"
    using find_appended [OF fresh] by simp
  then obtain w2 i where w2: "login_check b res2 name password w1 =
      (w2, Inr (reply res2 OK (token_json (generateToken (b_jwt b) i role w2))))"
    using login_check_accepts [OF mg so _ hash(2)] hash(3,4) by metis
  have "loginUser b req2 res2 w1 = (w2, Inr (req2, reply res2 OK (token_json (generateToken (b_jwt b) i role w2))))"
    using again w2 by (simp add: loginUser_def with_json_def eff_bind_def eff_return_def lift_sum_def)
  then show ?thesis
    using token_accepted [OF jw, of _ w2 i role]
    by (intro exI [of _ w2] exI [of _ "generateToken (b_jwt b) i role w2"] exI [of _ i])
      (auto simp: not_le intro!: guarded_passes)
qed

end
