(* ===== verification/Samples.thy ===== *)
theory Samples
  imports Request_Service Thread_Pool Server_System Startup User_Accounts
begin

text \<open>
  Instances of the parameters of the model: a loopback transport, a file system with two files, a
  kernel that keeps a table of descriptors and interest lists, a Redis counter, a token library and a
  database of one user. The general statements are exercised on them.
\<close>

section \<open>Sample environment\<close>

text \<open>
  A loopback transport (bytes to read, bytes written), a connection with given bytes in its buffer
  and empty HTTP/2 user data: instances of the parameters, on which the general statements are
  exercised.
\<close>

definition demo_ssl :: "(string \<times> string) openssl" where
  "demo_ssl = \<lparr>SSL_accept = \<lambda>s. (1, s),
     SSL_read = \<lambda>s n. (if fst s = [] then (-1, [], s)
       else (int (length (take n (fst s))), take n (fst s), (drop n (fst s), snd s))),
     SSL_write = \<lambda>s d. (int (length d), (fst s, snd s @ d)),
     SSL_get_error = \<lambda>s n. SSL_ERROR_WANT_READ, SSL_get0_alpn_selected = \<lambda>s. None\<rparr>"

definition demo_conn :: "string \<Rightarrow> (unit, string \<times> string, unit) ClientConnection" where
  "demo_conn bytes = (new_connection 7 ([], []) 0)\<lparr>readBuffer := \<lparr>buffer = bytes\<rparr>\<rparr>"

definition demo_user :: "unit h2_user" where
  "demo_user = \<lparr>u_streams = Map.empty, u_tasks = []\<rparr>"

lemma demo_read_ok: "ssl_read_ok demo_ssl fst"
  by (auto simp: ssl_read_ok_def demo_ssl_def min_def)

lemma demo_write_ok: "ssl_write_ok demo_ssl snd"
  by (auto simp: ssl_write_ok_def demo_ssl_def)

text \<open>A router with one dynamic route, a file system with two files, a pool with one call under way.\<close>

definition demo_route :: "(unit, unit) Route" where
  "demo_route = \<lparr>rt_method = GET, rt_path = ''/users/:id'',
     rt_handler = \<lambda>req res w. (w, Inr (req, res_setBody res (req_param req ''id''))),
     rt_isPrefix = False, rt_middlewares = []\<rparr>"

definition demo_router :: "(unit, unit, unit, unit) Router" where
  "demo_router = new_Router\<lparr>routes := [demo_route]\<rparr>"

definition demo_request :: "HttpMethod \<Rightarrow> string \<Rightarrow> unit HttpRequest" where
  "demo_request m path = (make_request m path ''HTTP/1.1'')\<lparr>rq_path := path\<rparr>"

definition demo_fs :: "'w filesystem" where
  "demo_fs = \<lparr>fs_exists = \<lambda>w p. Inr (p = ''public/a.txt'' \<or> p = ''/etc/passwd''),
     fs_is_regular_file = \<lambda>w p. Inr True,
     fs_open = \<lambda>w p. Some (4, \<lambda>n. Some (if p = ''/etc/passwd'' then ''root'' else ''text''))\<rparr>"

definition demo_pool :: "string config" where
  "demo_pool = \<lparr>pool = new_pool, callers = [Count ''job''], workers = [AcquireTask],
     destroyer = NotStarted, stored = [], taken = [], executed = []\<rparr>"

lemma demo_facts: "rt_method demo_route = GET" "routes demo_router = [demo_route]"
  "global_middlewares demo_router = []"
  by (simp_all add: demo_route_def demo_router_def new_Router_def)

lemma demo_matches:
  "fst (route_matches demo_route (demo_request m ''/users/42''))"
  "rq_method (demo_request m p) = m"
  by (simp_all add: route_matches_def demo_route_def demo_request_def make_request_def
      matchDynamicPath_spec segs_match_def splitPath_spec is_param_def)

lemma demo_pool_start: "reachable pool_init pool_step (demo_pool\<lparr>callers := [Idle]\<rparr>)"
  by (rule reachable.start) (simp add: pool_init_def demo_pool_def)

lemma demo_pool_reachable: "reachable pool_init pool_step demo_pool"
proof -
  have "pool_step (demo_pool\<lparr>callers := [Idle]\<rparr>)
      ((demo_pool\<lparr>callers := [Idle]\<rparr>)\<lparr>callers := (callers (demo_pool\<lparr>callers := [Idle]\<rparr>))[0 := Count ''job'']\<rparr>)"
    by (rule pool_step.call) simp_all
  then have "pool_step (demo_pool\<lparr>callers := [Idle]\<rparr>) demo_pool" by (simp add: demo_pool_def)
  with demo_pool_start show ?thesis by (rule reachable.next_step)
qed

section \<open>A kernel\<close>

text \<open>
  Open descriptors, pairs of an epoll instance and a descriptor it watches, the number of connections
  that wait to be accepted, and the clock. A new descriptor is above all open ones; every watched
  descriptor is reported readable.
\<close>

record demo_kernel =
  dk_open :: "int list"
  dk_watch :: "(int \<times> int) list"
  dk_pending :: nat
  dk_time :: int

definition demo_opened :: "demo_kernel \<Rightarrow> int set" where
  "demo_opened k = set (dk_open k)"

definition demo_watched :: "demo_kernel \<Rightarrow> int \<Rightarrow> int set" where
  "demo_watched k e = {fd. (e, fd) \<in> set (dk_watch k) \<and> fd \<in> set (dk_open k)}"

definition demo_fresh :: "demo_kernel \<Rightarrow> int" where
  "demo_fresh k = fold max (dk_open k) 2 + 1"

definition demo_alloc :: "demo_kernel \<Rightarrow> demo_kernel \<times> int" where
  "demo_alloc k = (k\<lparr>dk_open := demo_fresh k # dk_open k,
     dk_watch := filter (\<lambda>(e, f). f \<noteq> demo_fresh k) (dk_watch k)\<rparr>, demo_fresh k)"

definition demo_ctl :: "int \<Rightarrow> epoll_op \<Rightarrow> int \<Rightarrow> epoll_event option \<Rightarrow> demo_kernel \<Rightarrow> demo_kernel \<times> int" where
  "demo_ctl e opn fd ev k =
     (let there = (fd \<in> set (dk_open k) \<and> (e, fd) \<in> set (dk_watch k)) in
      case opn of
        EPOLL_CTL_ADD \<Rightarrow>
          if fd \<in> set (dk_open k) \<and> (e, fd) \<notin> set (dk_watch k)
          then (k\<lparr>dk_watch := (e, fd) # dk_watch k\<rparr>, 0) else (k, - 1)
      | EPOLL_CTL_MOD \<Rightarrow> (k, if there then 0 else - 1)
      | EPOLL_CTL_DEL \<Rightarrow>
          if there then (k\<lparr>dk_watch := filter (\<lambda>x. x \<noteq> (e, fd)) (dk_watch k)\<rparr>, 0) else (k, - 1))"

definition demo_events :: "int \<Rightarrow> nat \<Rightarrow> demo_kernel \<Rightarrow> epoll_event list" where
  "demo_events e n k =
     map (\<lambda>fd. \<lparr>ev_events = EPOLLIN, ev_fd = fd\<rparr>)
       (take n (remdups (filter (\<lambda>fd. fd \<in> set (dk_open k)) (map snd (filter (\<lambda>x. fst x = e) (dk_watch k))))))"

definition demo_os :: "demo_kernel os" where
  "demo_os = \<lparr>sys_socket = demo_alloc, sys_setsockopt = \<lambda>fd opt v k. (k, 0), sys_bind = \<lambda>fd a k. (k, 0),
     sys_listen = \<lambda>fd n k. (k, 0),
     sys_accept = \<lambda>fd k. (if dk_pending k = 0 then (k, - 1) else demo_alloc (k\<lparr>dk_pending := dk_pending k - 1\<rparr>)),
     sys_getfl = \<lambda>fd k. (k, 0), sys_setfl = \<lambda>fd fl k. (k, 0), sys_shutdown = \<lambda>fd k. (k, 0),
     sys_close = \<lambda>fd k. (k\<lparr>dk_open := removeAll fd (dk_open k)\<rparr>, 0),
     sys_epoll_create = demo_alloc, sys_epoll_ctl = demo_ctl,
     sys_epoll_wait = \<lambda>e n t k. (k, int (length (demo_events e n k)), demo_events e n k),
     sys_errno = \<lambda>k. 11, sys_strerror = \<lambda>n. ''error'', sys_now = \<lambda>k. (k, dk_time k)\<rparr>"

lemma le_fold_max: "n \<le> fold max xs n \<and> (\<forall>x \<in> set xs. x \<le> fold max xs n)" for n :: int
proof (induction xs arbitrary: n)
  case (Cons a xs)
  from Cons.IH [of "max a n"] show ?case by simp
qed simp

lemma demo_fresh_notin: "demo_fresh k \<notin> set (dk_open k)" "2 < demo_fresh k"
  using le_fold_max [of 2 "dk_open k"] by (auto simp: demo_fresh_def)

lemma demo_alloc_ok: "allocates demo_opened demo_watched demo_alloc"
  unfolding allocates_def
proof (intro allI impI)
  fix k k' r
  assume "demo_alloc k = (k', r)"
  then have r: "r = demo_fresh k" and k': "k' = k\<lparr>dk_open := r # dk_open k, dk_watch := filter (\<lambda>(e, f). f \<noteq> r) (dk_watch k)\<rparr>"
    by (auto simp: demo_alloc_def)
  have "r \<noteq> - 1" "0 \<le> r" "r \<notin> set (dk_open k)" using demo_fresh_notin [of k] by (simp_all add: r)
  then show "if r = - 1 then same_tables demo_opened demo_watched k k'
      else 0 \<le> r \<and> r \<notin> demo_opened k \<and> demo_opened k' = insert r (demo_opened k) \<and>
        demo_watched k' = demo_watched k \<and> (\<forall>e. r \<notin> demo_watched k e)"
    by (auto simp: k' demo_opened_def demo_watched_def fun_eq_iff)
qed

lemma demo_accept_ok: "allocates demo_opened demo_watched (sys_accept demo_os fd)"
  unfolding allocates_def
proof (intro allI impI)
  fix k k' r
  assume a: "sys_accept demo_os fd k = (k', r)"
  define m where "m = k\<lparr>dk_pending := dk_pending k - 1\<rparr>"
  have same: "demo_opened m = demo_opened k" "demo_watched m = demo_watched k"
    by (auto simp: m_def demo_opened_def demo_watched_def fun_eq_iff)
  show "if r = - 1 then same_tables demo_opened demo_watched k k'
      else 0 \<le> r \<and> r \<notin> demo_opened k \<and> demo_opened k' = insert r (demo_opened k) \<and>
        demo_watched k' = demo_watched k \<and> (\<forall>e. r \<notin> demo_watched k e)"
  proof (cases "dk_pending k = 0")
    case True
    with a show ?thesis by (auto simp: demo_os_def)
  next
    case False
    with a have b: "demo_alloc m = (k', r)" by (simp add: demo_os_def m_def)
    then have "r \<noteq> - 1" using demo_fresh_notin(2) [of m] by (auto simp: demo_alloc_def)
    with allocatesD(2) [OF demo_alloc_ok b] show ?thesis by (simp add: same)
  qed
qed

lemma demo_ctl_ok: "ctl_ok demo_opened demo_watched demo_ctl"
  unfolding ctl_ok_def
proof (intro allI impI, goal_cases)
  case (1 e opn fd ev k k' r)
  then show ?case
    by (cases opn) (auto simp: demo_ctl_def demo_opened_def demo_watched_def same_tables_def Let_def fun_eq_iff
        split: if_splits)
qed

lemma demo_wait_ok: "wait_ok demo_opened demo_watched (sys_epoll_wait demo_os)"
proof -
  have ev: "map ev_fd (demo_events e n k) =
      take n (remdups (filter (\<lambda>fd. fd \<in> set (dk_open k)) (map snd (filter (\<lambda>x. fst x = e) (dk_watch k)))))" for e n k
    by (simp add: demo_events_def comp_def)
  have "set (map ev_fd (demo_events e n k)) \<subseteq> demo_watched k e" for e n k
    unfolding ev using set_take_subset by (fastforce simp: demo_watched_def)
  moreover have "distinct (map ev_fd (demo_events e n k))" "length (demo_events e n k) \<le> n" for e n k
    by (simp_all add: ev) (simp add: demo_events_def)
  ultimately show ?thesis by (auto simp: wait_ok_def demo_os_def Let_def)
qed

lemma demo_posix: "posix_ok demo_os demo_opened demo_watched"
proof -
  have "closes demo_opened demo_watched (sys_close demo_os)"
    by (auto simp: closes_def demo_os_def demo_opened_def demo_watched_def fun_eq_iff)
  moreover have "demo_watched k e \<subseteq> demo_opened k" for k e by (auto simp: demo_opened_def demo_watched_def)
  ultimately show ?thesis
    using demo_alloc_ok demo_accept_ok demo_ctl_ok demo_wait_ok
    by (simp add: posix_ok_def neutral_def) (simp add: demo_os_def)
qed

lemma demo_calm: "calm_kernel demo_os demo_opened"
  by (auto simp: calm_kernel_def demo_os_def socket_accept_def setNonBlocking_def checked_def eff_defs
      epoll_wait_def EAGAIN_def demo_alloc_def Let_def split: prod.splits)


section \<open>A server on it\<close>

definition demo_h2 :: "(unit, string \<times> string, unit) nghttp2" where
  "demo_h2 = \<lparr>nghttp2_session_server_new = (), nghttp2_submit_settings = \<lambda>h n. (),
     nghttp2_session_mem_recv = \<lambda>h d cb u. (int (length d), (), u), nghttp2_session_send = \<lambda>h cb s. (0, (), s),
     nghttp2_submit_response = \<lambda>h sid hs b. ()\<rparr>"

definition demo_env :: "(unit, string \<times> string, unit, unit, demo_kernel) env" where
  "demo_env = \<lparr>e_os = demo_os, e_ssl = demo_ssl, e_h2 = demo_h2, e_new_ssl = \<lambda>fd k. (k, ([], [])),
     e_SHA1 = \<lambda>s. s, e_EVP_EncodeBlock = \<lambda>s. s, e_router = new_Router\<lparr>routes := [demo_route]\<rparr>\<rparr>"

text \<open>Outside the process, connections arrive and time passes.\<close>

definition demo_outside :: "demo_kernel \<Rightarrow> demo_kernel \<Rightarrow> bool" where
  "demo_outside k k' \<longleftrightarrow> dk_open k' = dk_open k \<and> dk_watch k' = dk_watch k \<and> dk_time k \<le> dk_time k'"

lemma demo_boot: "\<not> isl (snd (new_Worker demo_os port k))"
proof -
  define s k1 where "s = demo_fresh k" and "k1 = fst (demo_alloc k)"
  define e k2 where "e = demo_fresh k1" and "k2 = fst (demo_alloc k1)"
  have a: "demo_alloc k = (k1, s)" "demo_alloc k1 = (k2, e)"
    by (simp_all add: s_def k1_def e_def k2_def demo_alloc_def)
  have n: "s \<noteq> - 1" "e \<noteq> - 1" using demo_fresh_notin(2) [of k] demo_fresh_notin(2) [of k1] by (auto simp: s_def e_def)
  have "s \<in> set (dk_open k2)" "(e, s) \<notin> set (dk_watch k2)"
    by (auto simp: k2_def demo_alloc_def k1_def s_def)
  then obtain k3 where "demo_ctl e EPOLL_CTL_ADD s ev k2 = (k3, 0)" for ev
    by (auto simp: demo_ctl_def)
  with a n show ?thesis
    by (simp add: new_Worker_def create_tcp_def new_Epoll_def setReuseAddress_def setReusePort_def socket_bind_def
        setNonBlocking_def socket_listen_def epoll_add_def demo_os_def eff_defs checked_def Let_def
        Socket_of_def socket_fd_def)
qed

abbreviation pending_is ::
  "nat \<Rightarrow> (unit, string \<times> string, unit, unit, demo_kernel) wstate \<Rightarrow> bool" where
  "pending_is n \<equiv> \<lambda>st. dk_pending (kern (snd st)) = n"

lemma demo_pending:
  "dk_pending (fst (demo_alloc k)) = dk_pending k"
  "dk_pending (fst (demo_ctl e opn fd ev k)) = dk_pending k"
  "dk_pending (fst (socket_close demo_os s k)) = dk_pending k"
  "dk_pending (fst (setNonBlocking demo_os s k)) = dk_pending k"
  by (auto simp: demo_alloc_def demo_ctl_def socket_close_def setNonBlocking_def demo_os_def checked_def eff_defs
      Let_def split: epoll_op.splits)

lemma demo_pending_release:
  "dk_pending (kern (release demo_os cid p)) = dk_pending (kern p)"
  by (auto simp: release_def demo_pending split: option.splits)

lemma demo_pending_register:
  "pending_is n st \<Longrightarrow> pending_is n (register_client demo_env fd s t st)"
  by (auto simp: register_client_def Let_def demo_env_def demo_pending_release split: option.splits)

lemma pending_kernel:
  "(\<And>k. dk_pending (fst (m k)) = dk_pending k) \<Longrightarrow>
   triple (pending_is n) (on_process (on_kernel m)) (\<lambda>_. pending_is n) (pending_is n)"
  by (rule triple_keeps) (simp add: on_process_def on_kernel_def split: prod.splits, metis fst_conv)

lemma pending_steps:
  "dk_pending (fst (closing_on_throw (e_os demo_env) s (setNonBlocking (e_os demo_env) s) k)) = dk_pending k"
  "dk_pending (fst (new_ssl demo_env fd k)) = dk_pending k"
  "dk_pending (fst (now (e_os demo_env) k)) = dk_pending k"
  "dk_pending (fst (epoll_add (e_os demo_env) ep fd ev k)) = dk_pending k"
proof -
  show "dk_pending (fst (closing_on_throw (e_os demo_env) s (setNonBlocking (e_os demo_env) s) k)) = dk_pending k"
    using demo_pending(4) [of s k] demo_pending(3)
    by (auto simp: demo_env_def closing_on_throw_def eff_defs split: prod.splits sum.splits)
  show "dk_pending (fst (epoll_add (e_os demo_env) ep fd ev k)) = dk_pending k"
    using demo_pending(2) [of "epoll_fd ep" EPOLL_CTL_ADD fd "Some \<lparr>ev_events = ev, ev_fd = fd\<rparr>" k]
    by (auto simp: demo_env_def demo_os_def epoll_add_def checked_def eff_defs split: prod.splits)
qed (simp_all add: new_ssl_def now_def demo_env_def demo_os_def)

lemma demo_accept_pending:
  assumes "socket_accept demo_os s k = (k', Inr c)" "socket_valid c"
  shows "dk_pending k' < dk_pending k"
  using assms demo_pending(1) [of "k\<lparr>dk_pending := dk_pending k - Suc 0\<rparr>"]
  by (auto simp: socket_accept_def demo_os_def Socket_invalid_def socket_valid_def split: if_splits prod.splits)

lemma demo_backlog: "finite_backlog demo_env dk_pending"
  unfolding finite_backlog_def
proof (intro allI impI)
  fix st st' :: "(unit, string \<times> string, unit, unit, demo_kernel) wstate"
  assume "accept_one demo_env st = (st', Inr True)"
  then obtain st1 c where c: "on_process (on_kernel (socket_accept (e_os demo_env) (wk_socket (fst st)))) st = (st1, Inr c)"
    "socket_valid c" and rest: "eff_bind (on_process (on_kernel (closing_on_throw (e_os demo_env) c
                      (setNonBlocking (e_os demo_env) c)))) (\<lambda>_.
         eff_bind (on_process (on_kernel (new_ssl demo_env (socket_fd c)))) (\<lambda>ssl.
         eff_bind (on_process (on_kernel (now (e_os demo_env)))) (\<lambda>t.
         eff_bind (eff_modify (register_client demo_env (socket_fd c) ssl t)) (\<lambda>_.
         eff_bind (on_process (on_kernel
             (epoll_add (e_os demo_env) (wk_epoll (fst st)) (socket_fd c) REARM))) (\<lambda>_.
           eff_return True))))) st1 = (st', Inr True)" (is "?rest st1 = _")
    unfolding accept_one_def by (elim eff_bind_InrE) (auto simp: eff_return_def split: if_splits)
  have "triple (pending_is n) ?rest (\<lambda>_. pending_is n) (pending_is n)" for n
    by (intro triple_seq pending_kernel pending_steps triple_return triple_modify demo_pending_register)
  from tripleD(1) [OF this refl rest] have "dk_pending (kern (snd st')) = dk_pending (kern (snd st1))" .
  moreover have "dk_pending (kern (snd st1)) < dk_pending (kern (snd st))"
    using c demo_accept_pending [of "wk_socket (fst st)" "kern (snd st)"]
    by (auto simp: demo_env_def on_process_def on_kernel_def split: prod.splits)
  ultimately show "dk_pending (kern (snd st')) < dk_pending (kern (snd st))" by simp
qed

lemma demo_world:
  "calm_world demo_env port demo_outside demo_opened demo_watched dk_pending fst"
proof -
  have "ssl_neutral demo_env (server_view demo_opened demo_watched {} [])"
    by (simp add: ssl_neutral_def demo_env_def same_tables_def)
  moreover have "ws_handlers_keep demo_env" by (simp add: ws_handlers_keep_def demo_env_def new_Router_def)
  moreover have "same_tables demo_opened demo_watched k k'" if "demo_outside k k'" for k k'
    using that by (simp add: demo_outside_def same_tables_def demo_opened_def demo_watched_def fun_eq_iff)
  ultimately show ?thesis
    using demo_posix demo_calm demo_backlog demo_read_ok demo_boot
    by (simp add: calm_world_def demo_env_def)
qed

text \<open>The server after its first thread has started: socket 3, epoll instance 4.\<close>

definition demo_k0 :: demo_kernel where
  "demo_k0 = \<lparr>dk_open = [], dk_watch = [], dk_pending = 1, dk_time = 0\<rparr>"

definition demo_worker :: Worker where
  "demo_worker = \<lparr>wk_socket = \<lparr>file_descriptor = 3\<rparr>, wk_epoll = \<lparr>epoll_fd = 4\<rparr>, wk_active = []\<rparr>"

definition demo_started :: "(unit, string \<times> string, unit, unit, demo_kernel) server" where
  "demo_started = \<lparr>sv_threads = [Looping demo_worker],
     sv_process = new_process (demo_k0\<lparr>dk_open := [4, 3], dk_watch := [(4, 3)]\<rparr>) (), sv_terminated = False\<rparr>"

lemma demo_new_Worker:
  "new_Worker demo_os 8080 demo_k0 = (demo_k0\<lparr>dk_open := [4, 3], dk_watch := [(4, 3)]\<rparr>, Inr demo_worker)"
  by (simp add: new_Worker_def create_tcp_def new_Epoll_def setReuseAddress_def setReusePort_def socket_bind_def
        setNonBlocking_def socket_listen_def epoll_add_def demo_os_def eff_defs checked_def Let_def
        Socket_of_def socket_fd_def demo_alloc_def demo_fresh_def demo_k0_def demo_ctl_def demo_worker_def)

abbreviation demo_reachable :: "(unit, string \<times> string, unit, unit, demo_kernel) server \<Rightarrow> bool" where
  "demo_reachable \<equiv> reachable (calm_init demo_env 8080 demo_outside demo_opened demo_watched dk_pending fst {})
     (calm_step demo_env 8080 demo_outside)"

lemma demo_started_reachable: "demo_reachable demo_started"
proof -
  let ?sv = "TcpServer_start 1 (new_process demo_k0 ()) :: (unit, string \<times> string, unit, unit, demo_kernel) server"
  have "server_step demo_env 8080 demo_outside ?sv (?sv\<lparr>sv_threads := (sv_threads ?sv)[0 := Looping demo_worker],
      sv_process := (sv_process ?sv)\<lparr>kern := demo_k0\<lparr>dk_open := [4, 3], dk_watch := [(4, 3)]\<rparr>\<rparr>\<rparr>)"
    by (rule server_step.thread_starts)
      (simp_all add: TcpServer_start_def num_threads_def new_process_def demo_env_def demo_new_Worker)
  then have "calm_step demo_env 8080 demo_outside ?sv demo_started"
    by (simp add: calm_step_def demo_started_def TcpServer_start_def num_threads_def new_process_def)
  moreover have "demo_reachable ?sv"
    unfolding calm_init_def
    by (rule reachable.start, intro conjI demo_world exI [of _ 1] exI [of _ demo_k0] exI [of _ "()"])
      (simp_all add: demo_opened_def demo_k0_def)
  ultimately show ?thesis by (rule reachable.next_step [rotated])
qed

text \<open>A server with one connection, whose request is being handled.\<close>

definition demo_busy :: "(unit, string \<times> string, unit, unit, demo_kernel) server" where
  "demo_busy = \<lparr>sv_threads = [Looping (demo_worker\<lparr>wk_active := [(5, 0)]\<rparr>)],
     sv_process = (new_process \<lparr>dk_open = [5, 4, 3], dk_watch = [(4, 5)], dk_pending = 1, dk_time = 0\<rparr> ())
       \<lparr>conns := [0 \<mapsto> new_connection 5 ([], []) 0], use_count := (\<lambda>_. 0)(0 := 2), next_conn := 1,
        tasks := [HttpTask \<lparr>epoll_fd = 4\<rparr> 0 (demo_request PUT ''/x'') 5 False], active_count := 1\<rparr>,
     sv_terminated = False\<rparr>"

definition demo_closed :: "(unit, string \<times> string, unit, unit, demo_kernel) process" where
  "demo_closed = run_task demo_env (HttpTask \<lparr>epoll_fd = 4\<rparr> 0 (demo_request PUT ''/x'') 5 False) (sv_process demo_busy)"

lemma demo_busy_inv: "server_inv demo_opened demo_watched {} demo_busy"
  by (auto simp: server_inv_def demo_busy_def Let_def proc_inv_def server_view_def table_def entries_def
      entry_conn_def descriptors_def demo_worker_def new_process_def demo_opened_def demo_watched_def
      new_connection_def socket_fd_def)

lemma demo_write_all: "\<forall>s d. d \<noteq> [] \<longrightarrow> 0 < fst (SSL_write demo_ssl s d)"
  by (simp add: demo_ssl_def)

lemma demo_closed_run:
  obtains s where "kern demo_closed = \<lparr>dk_open = [4, 3], dk_watch = [(4, 5)], dk_pending = 1, dk_time = 0\<rparr>"
    "conns demo_closed = [0 \<mapsto> new_connection 5 s 0]" "use_count demo_closed 0 = 1" "next_conn demo_closed = 1"
proof -
  obtain req res where "router_handle (new_Router\<lparr>routes := [demo_route]\<rparr> ::
      (unit, string \<times> string, unit, unit) Router) (demo_request PUT ''/x'') () = ((), Inr (req, res))"
    by (simp add: router_handle_def new_Router_def demo_route_def route_matches_def matchDynamicPath_spec
        segs_match_def splitPath_spec is_param_def demo_request_def make_request_def)
  then have h: "run_handler demo_env (demo_request PUT ''/x'') p = (p\<lparr>world := ()\<rparr>, Inr res)" for p
    by (simp add: run_handler_def demo_env_def)
  obtain s where s: "conn_send_loop demo_ssl ([], []) (serialize (res_setHeader res ''Connection'' ''close'')) = (s, Inr ())"
    using conn_send_loop_all [OF demo_write_ok] demo_write_all by blast
  note defs = demo_closed_def run_task_def http_task_body_def demo_busy_def new_process_def eff_bind_def
    eff_return_def on_kernel_def now_def on_conn_def conn_send_def new_connection_def updateActivity_def
    eff_get_def close_unless_rearmed_def raw_close_def release_def demo_env_def demo_os_def
  show thesis
  proof (rule that)
    show "kern demo_closed = \<lparr>dk_open = [4, 3], dk_watch = [(4, 5)], dk_pending = 1, dk_time = 0\<rparr>"
      "conns demo_closed = [0 \<mapsto> new_connection 5 s 0]" "use_count demo_closed 0 = 1" "next_conn demo_closed = 1"
      using h s by (simp_all add: defs)
  qed
qed

text \<open>Two requests in the form in which a client writes them, and a connection on which they arrive.\<close>

definition demo_wire :: wire_request where
  "demo_wire = \<lparr>wr_method = POST, wr_target = ''/a?x=1'', wr_fields = sample_fields, wr_body = LengthBody ''hi''\<rparr>"

definition demo_wire_chunked :: wire_request where
  "demo_wire_chunked = \<lparr>wr_method = POST, wr_target = ''/a'', wr_fields = sample_chunked_fields,
     wr_body = ChunkedBody [''ab'', ''c'']\<rparr>"

lemma demo_wire_valid: "wire_valid demo_wire" "wire_valid demo_wire_chunked"
  by (simp_all add: wire_valid_def demo_wire_def demo_wire_chunked_def sample_printable sample_fields_ok
      sample_chunked_printable sample_chunked_fields_ok to_string_2 MAX_BODY_SIZE_def)

lemma demo_transport: "transport_ok demo_ssl fst snd"
  using demo_read_ok demo_write_ok
  by (simp add: transport_ok_def demo_ssl_def read_verdict_def)

text \<open>A process with one client, from which the given bytes have arrived.\<close>

definition demo_client :: "string \<Rightarrow> ('j, string \<times> string, 'h) ClientConnection" where
  "demo_client bytes = (new_connection 5 (bytes, []) 0)\<lparr>handshakeComplete := True\<rparr>"

definition demo_serving :: "('j, string \<times> string, 'h) ClientConnection \<Rightarrow> 'w \<Rightarrow>
    ('j, string \<times> string, 'h, 'w, demo_kernel) process" where
  "demo_serving c w = (new_process \<lparr>dk_open = [5, 4, 3], dk_watch = [(4, 5)], dk_pending = 1, dk_time = 0\<rparr> w)
     \<lparr>conns := [0 \<mapsto> c], use_count := (\<lambda>_. 0)(0 := 1), next_conn := 1, active_count := 1\<rparr>"

abbreviation demo_serving_worker :: Worker where
  "demo_serving_worker \<equiv> demo_worker\<lparr>wk_active := [(5, 0)]\<rparr>"

lemma demo_serving_facts:
  "map_of (wk_active demo_serving_worker) 5 = Some 0" "conns (demo_serving c w) 0 = Some c"
  "0 < use_count (demo_serving c w) 0" "running (demo_serving c w)" "world (demo_serving c w) = w"
  "5 \<in> demo_watched (kern (demo_serving c w)) (epoll_fd (wk_epoll demo_serving_worker))"
  by (simp_all add: demo_serving_def new_process_def demo_watched_def demo_worker_def)

lemma demo_client_facts:
  "speaks_http (demo_client bytes)" "conn_data (demo_client bytes) = []" "cc_ssl (demo_client bytes) = (bytes, [])"
  by (simp_all add: demo_client_def speaks_http_def expects_request_def conn_data_def rb_data_def new_connection_def
      new_ReadBuffer_def)

lemma demo_env_facts: "transport_ok (e_ssl demo_env) fst snd" "posix_ok (e_os demo_env) demo_opened demo_watched"
  using demo_transport demo_posix by (simp_all add: demo_env_def)

lemma demo_wire_view:
  "rq_method (wire_view demo_wire) = POST" "rq_path (wire_view demo_wire) = ''/a''"
  "req_header (wire_view demo_wire) name = hdr_get_loop sample_fields name"
proof -
  note line = store_request_line_ok [OF refl, of POST "''/a?x=1''" "''HTTP/1.1''"]
  show "rq_method (wire_view demo_wire) = POST" "rq_path (wire_view demo_wire) = ''/a''"
    using line by (simp_all add: wire_view_def demo_wire_def request_with_def req_setBody_def add_fields_def)
  show "req_header (wire_view demo_wire) name = hdr_get_loop sample_fields name"
    using req_header_printed [of POST "''/a?x=1''" "''HTTP/1.1''" sample_fields name]
    by (simp add: wire_view_def demo_wire_def request_with_def req_setBody_def req_header_def)
qed

lemma demo_serving_answer:
  "\<exists>req'. router_handle (e_router demo_env) (wire_view demo_wire) () =
     ((), Inr (req', respond new_response NotFound ''Not Found''))"
proof -
  let ?rt = "new_Router\<lparr>routes := [demo_route]\<rparr> :: (unit, string \<times> string, unit, unit) Router"
  have "\<not> fst (route_matches demo_route (wire_view demo_wire))"
    by (simp add: route_matches_def demo_route_def demo_wire_view matchDynamicPath_spec segs_match_def
        splitPath_spec is_param_def)
  then show ?thesis
    using route_loop_none [of "[demo_route]" "wire_view demo_wire"]
    by (simp add: demo_env_def router_handle_def new_Router_def accepts_def)
qed

lemma demo_no_upgrade: "\<not> wants_upgrade (wire_view demo_wire)"
  by (simp add: wants_upgrade_def demo_wire_view sample_fields_def equalsIgnoreCase_iff tolower_def)

lemma demo_bad_parse: "\<exists>q req. parse (''BAD'' @ CRLF) new_parser new_request = (q, req, Invalid)"
proof -
  have "sv_find CRLF (''BAD'' @ CRLF) = Some 3" "sv_find '' '' ''BAD'' = None"
    by simp_all
  then have "parser_step (''BAD'' @ CRLF) new_parser r = parser_fail new_parser r" for r :: "'j HttpRequest"
    by (simp add: parser_step_def handleRequestLine_def parseRequestLine_def new_parser_def MAX_REQUEST_LINE_def
        sv_substr_def Let_def)
  then show ?thesis using parse_Some by (fastforce simp: parser_fail_def)
qed

text \<open>A request for an upgrade.\<close>

definition demo_upgrade_fields :: "(string \<times> string) list" where
  "demo_upgrade_fields = [(''Host'', ''a''), (''Upgrade'', ''websocket''), (''Connection'', ''Upgrade''),
     (''Sec-WebSocket-Key'', ''k'')]"

definition demo_upgrade :: wire_request where
  "demo_upgrade = \<lparr>wr_method = GET, wr_target = ''/api/chat'', wr_fields = demo_upgrade_fields, wr_body = NoBody\<rparr>"

lemma demo_upgrade_valid: "wire_valid demo_upgrade"
  by (simp add: wire_valid_def demo_upgrade_def demo_upgrade_fields_def printable_head_def request_line_def validity_defs
      cl_agree_def equalsIgnoreCase_iff tolower_def MAX_REQUEST_LINE_def MAX_HEADERS_def MAX_HEADER_SIZE_def
      crlf_lines_def field_line_def MAX_BODY_SIZE_def)

lemma demo_upgrade_header: "req_header (wire_view demo_upgrade) name = hdr_get_loop demo_upgrade_fields name"
  using req_header_printed [of GET "''/api/chat''" "''HTTP/1.1''" demo_upgrade_fields name]
  by (simp add: wire_view_def demo_upgrade_def request_with_def req_setBody_def req_header_def)

lemma demo_upgrade_wanted: "wants_upgrade (wire_view demo_upgrade)"
  "req_header (wire_view demo_upgrade) ''Sec-WebSocket-Key'' = ''k''"
  by (simp_all add: wants_upgrade_def demo_upgrade_header demo_upgrade_fields_def equalsIgnoreCase_iff tolower_def)

text \<open>An empty ping and a masked text frame.\<close>

definition demo_ping :: wire_message where
  "demo_ping = \<lparr>wm_fin = True, wm_opcode = WsPing, wm_key = None, wm_payload = []\<rparr>"

definition demo_hello :: wire_message where
  "demo_hello = \<lparr>wm_fin = True, wm_opcode = WsText, wm_key = Some ''abcd'', wm_payload = ''hello''\<rparr>"

definition demo_frames :: string where
  "demo_frames = concat (map message_bytes [demo_ping, demo_hello])"

lemma demo_frames_ok: "message_valid demo_ping" "message_valid demo_hello" "length demo_frames = 13"
  using wire_frame_length [of WsText "Some ''abcd''" "''hello''" True] wire_frame_length [of WsPing None "[]" True]
  by (simp_all add: demo_ping_def demo_hello_def message_valid_def wire_ok_def opcode_of_def demo_frames_def
      message_bytes_def ext_len_def)

lemma demo_frames_parts: "demo_frames = message_bytes demo_ping @ message_bytes demo_hello"
  by (simp add: demo_frames_def)

lemma demo_ping_skipped: "skipped demo_ping" "wm_opcode demo_hello = WsText"
  using demo_frames_ok(1) by (simp_all add: skipped_def demo_ping_def demo_hello_def)

section \<open>The application's libraries\<close>

text \<open>A counter per key; documents with string fields; one user; one valid token.\<close>

definition demo_redis :: "(string \<Rightarrow> int) redis" where
  "demo_redis = \<lparr>rd_incr = \<lambda>key w. (w(key := w key + 1), Some (w key + 1)), rd_expire = \<lambda>key s w. (w, True)\<rparr>"

lemma demo_redis_ok: "redis_ok demo_redis (\<lambda>w. w)"
  by (simp add: redis_ok_def demo_redis_def)

datatype demo_json = JString string | JObject "(string \<times> string) list"

fun demo_field :: "demo_json \<Rightarrow> string \<Rightarrow> string option" where
  "demo_field (JString s) key = None"
| "demo_field (JObject kvs) key = map_of kvs key"

fun demo_text :: "demo_json \<Rightarrow> std_exception + string" where
  "demo_text (JString s) = Inr s"
| "demo_text (JObject kvs) = Inl (other_exception ''type_error'')"

definition demo_json_api :: "demo_json json_api" where
  "demo_json_api = \<lparr>js_null = JObject [], js_parse = \<lambda>s. Inl (other_exception ''parse_error''), js_dump = \<lambda>j. Inr ''{}'',
     js_contains = \<lambda>j key. demo_field j key \<noteq> None,
     js_index = \<lambda>j key. (case demo_field j key of None \<Rightarrow> Inl (other_exception ''type_error'') | Some v \<Rightarrow> Inr (JString v)),
     js_is_string = \<lambda>j. \<not> isl (demo_text j), js_get_string = demo_text, js_erase = \<lambda>j key. Inr j,
     js_empty = \<lambda>j. j = JObject [], js_object = JObject, js_array = \<lambda>js. JObject [], js_counters = \<lambda>kvs. JObject []\<rparr>"

type_synonym demo_doc = "string \<rightharpoonup> string"

definition demo_ann :: demo_doc where
  "demo_ann = [''_id'' \<mapsto> ''1'', ''name'' \<mapsto> ''ann'', ''password_hash'' \<mapsto> ''h:pw'']"

definition demo_get :: "demo_doc \<Rightarrow> string \<Rightarrow> std_exception + string" where
  "demo_get d key = (case d key of None \<Rightarrow> Inl (other_exception ''no such field'') | Some v \<Rightarrow> Inr v)"

definition demo_mongo :: "(app_world, demo_doc) mongo" where
  "demo_mongo = \<lparr>mg_acquire = eff_return (), mg_oid = Inr,
     mg_find_name = \<lambda>n. eff_return (if n = ''ann'' then Some demo_ann else None),
     mg_find_id = \<lambda>i. eff_return (if i = ''1'' then Some demo_ann else None),
     mg_insert_one = \<lambda>kvs. eff_return (), mg_from_json = \<lambda>s. Inr Map.empty,
     mg_update_set = \<lambda>i d. eff_return (Some 1), mg_delete_one = \<lambda>i. eff_return (Some 1),
     mg_find = \<lambda>l s o'. eff_return ([demo_ann], None), mg_get_oid = \<lambda>d. demo_get d ''_id'',
     mg_has = \<lambda>d key. d key \<noteq> None, mg_get_string = demo_get\<rparr>"

definition demo_backends :: "(app_world, demo_doc, demo_json, string) backends" where
  "demo_backends = \<lparr>b_json = demo_json_api, b_mongo = demo_mongo,
     b_sodium = \<lparr>so_init = \<lambda>w. (w, 0), so_pwhash_str = \<lambda>p w. (w, 0, ''h:'' @ p),
       so_pwhash_str_verify = \<lambda>h p. if h = ''h:'' @ p then 0 else - 1\<rparr>,
     b_jwt = \<lparr>jw_getenv = \<lambda>w s. None, jw_now = \<lambda>w. 0, jw_sign = \<lambda>i ty cl t e sec. ''good'', jw_decode = Inr,
       jw_verify = \<lambda>sec i t tok. if tok = ''good'' then Inr () else Inl (other_exception ''bad token''),
       jw_claim = \<lambda>tok c. Inr ''1''\<rparr>\<rparr>"

definition demo_login :: "demo_json HttpRequest" where
  "demo_login = (make_request POST ''/api/login'' ''HTTP/1.1'')\<lparr>rq_path := ''/api/login'', rq_has_json := True,
     rq_json := Some (JObject [(''name'', ''ann''), (''password'', ''pw'')])\<rparr>"

lemma demo_login_ok:
  "loginUser demo_backends demo_login new_response w =
    (w, Inr (demo_login, reply new_response OK (token_json ''good'')))"
  by (simp add: loginUser_def login_check_def with_json_def extractJson_def demo_login_def demo_backends_def demo_json_api_def
      json_string_def repo_findByUsername_def demo_mongo_def found_user_def user_of_doc_def doc_role_def
      demo_get_def demo_ann_def verifyPassword_def ensureSodiumInitialized_def generateToken_def
      lift_sum_def eff_defs Let_def cstr_def)

definition demo_api_request :: "HttpMethod \<Rightarrow> demo_json HttpRequest" where
  "demo_api_request m = (make_request m ''/api/users/1'' ''HTTP/1.1'')\<lparr>rq_path := ''/api/users/1''\<rparr>"

text \<open>A Redis server that cannot be reached.\<close>

definition demo_no_redis :: "'w redis" where
  "demo_no_redis = \<lparr>rd_incr = \<lambda>key w. (w, None), rd_expire = \<lambda>key s w. (w, False)\<rparr>"

text \<open>A process with one telemetry client that is alive and one that is gone.\<close>

definition demo_telemetry :: "(demo_json, string \<times> string, unit, app_world, demo_kernel) process" where
  "demo_telemetry = (new_process demo_k0 \<lparr>tb_clients = [0, 1]\<rparr>)
     \<lparr>conns := [1 \<mapsto> new_connection 6 ([], []) 0], use_count := (\<lambda>_. 0)(1 := 1)\<rparr>"

text \<open>The application on the sample kernel, with a client of the chat.\<close>

definition demo_app_env :: "(demo_json, string \<times> string, unit, app_world, demo_kernel) env" where
  "demo_app_env = \<lparr>e_os = demo_os, e_ssl = demo_ssl,
     e_h2 = \<lparr>nghttp2_session_server_new = (), nghttp2_submit_settings = \<lambda>h n. (),
       nghttp2_session_mem_recv = \<lambda>h d cb u. (int (length d), (), u), nghttp2_session_send = \<lambda>h cb s. (0, (), s),
       nghttp2_submit_response = \<lambda>h sid hs b. ()\<rparr>,
     e_new_ssl = \<lambda>fd k. (k, ([], [])), e_SHA1 = \<lambda>s. s, e_EVP_EncodeBlock = \<lambda>s. s,
     e_router = App_router demo_backends demo_no_redis demo_fs demo_ssl None\<rparr>"

definition demo_chatter :: "string \<Rightarrow> (demo_json, string \<times> string, unit) ClientConnection" where
  "demo_chatter bytes = (demo_client bytes)\<lparr>is_websocket := True, ws_path := ''/api/chat''\<rparr>"

lemma demo_chatter_facts:
  "handshakeComplete (demo_chatter bytes)" "\<not> is_http2 (demo_chatter bytes)" "is_websocket (demo_chatter bytes)"
  "ws_path (demo_chatter bytes) = ''/api/chat''" "conn_data (demo_chatter bytes) = []"
  "cc_ssl (demo_chatter bytes) = (bytes, [])"
  by (simp_all add: demo_chatter_def demo_client_def new_connection_def conn_data_def rb_data_def new_ReadBuffer_def)

lemma demo_app_env_facts: "transport_ok (e_ssl demo_app_env) fst snd"
  "posix_ok (e_os demo_app_env) demo_opened demo_watched"
  "e_router demo_app_env = App_router demo_backends demo_no_redis demo_fs (e_ssl demo_app_env) None"
  using demo_transport demo_posix by (simp_all add: demo_app_env_def)

text \<open>Libraries whose calls succeed, except the creation of the log file, and a key that fits its certificate.\<close>

definition demo_spdlog :: "(string, unit, unit) spdlog" where
  "demo_spdlog = \<lparr>sl_init_thread_pool = \<lambda>n m. eff_return (), sl_stdout_color_sink = eff_return (),
     sl_rotating_file_sink = \<lambda>f n m. eff_throw (other_exception ''no directory''), sl_sink_level = \<lambda>s l. eff_return (),
     sl_sink_pattern = \<lambda>s p. eff_return (), sl_async_logger = \<lambda>n ss p. eff_return (),
     sl_set_default_logger = \<lambda>x. eff_return (), sl_set_level = \<lambda>l. eff_return (), sl_flush_on = \<lambda>l. eff_return (),
     sl_is_spdlog_ex = \<lambda>e. True, sl_cout = \<lambda>s l. l @ s\<rparr>"

definition demo_mongocxx :: "(string, string, string, unit) mongocxx" where
  "demo_mongocxx = \<lparr>mx_instance = eff_return (), mx_uri = eff_return, mx_pool = eff_return, mx_acquire = \<lambda>p. eff_return ()\<rparr>"

definition demo_tls :: "string ssl_ctx" where
  "demo_tls = \<lparr>SSL_CTX_new = Some [], SSL_CTX_set_min_proto_TLS1_2 = \<lambda>c. c, SSL_CTX_set_alpn_select_cb = \<lambda>c. c,
     SSL_CTX_use_certificate_file = \<lambda>c f. (f, 1), SSL_CTX_use_PrivateKey_file = \<lambda>c f. (c, 1),
     SSL_CTX_check_private_key = \<lambda>c. c = ''certs/server.crt''\<rparr>"

definition demo_app :: "(string, string, unit) App" where
  "demo_app = \<lparr>app_config = \<lparr>cfg_port = 8080, cfg_db_uri = ''mongodb://localhost:27017''\<rparr>,
     app_db_pool = \<lparr>mp_uri = ''mongodb://localhost:27017'', mp_pool = ''mongodb://localhost:27017''\<rparr>,
     app_public_dir = ''public'', app_redis = ()\<rparr>"

lemma demo_started_main:
  "main_boot demo_spdlog demo_mongocxx (\<lambda>u. eff_return ()) demo_tls None Map.empty [] =
    (''Log initialization failed: no directory'' @ [LF],
     Inr (demo_app, Some ''certs/server.crt'', \<lparr>tb_running = True, tb_thread = True\<rparr>, True))"
  by (simp add: main_boot_def Logger_init_def Logger_setup_def demo_spdlog_def demo_mongocxx_def demo_tls_def demo_app_def
      new_App_def new_MongoPool_def main_configuration_def EnvParser_load_def App_boot_def SslManager_initialize_def
      telemetry_start_def cstr_def eff_defs Let_def)

section \<open>A database of accounts\<close>

text \<open>The world is the list of accounts; a token is a text with its times in unary, the role and the id.\<close>

definition demo_account :: "string \<times> string \<times> string \<Rightarrow> demo_doc" where
  "demo_account = (\<lambda>(n, h, r). [''_id'' \<mapsto> ''1'', ''name'' \<mapsto> n, ''password_hash'' \<mapsto> h, ''role'' \<mapsto> r])"

definition demo_store :: "((string \<times> string \<times> string) list, demo_doc) mongo" where
  "demo_store = \<lparr>mg_acquire = eff_return (), mg_oid = Inr,
     mg_find_name = \<lambda>n us. (us, Inr (map_option demo_account (List.find (\<lambda>(m, h, r). m = n) us))),
     mg_find_id = \<lambda>i. eff_return None,
     mg_insert_one = \<lambda>kvs us. (us @ [(the (map_of kvs ''name''), the (map_of kvs ''password_hash''), the (map_of kvs ''role''))], Inr ()),
     mg_from_json = \<lambda>s. Inr Map.empty, mg_update_set = \<lambda>i d. eff_return None, mg_delete_one = \<lambda>i. eff_return None,
     mg_find = \<lambda>l s o'. eff_return ([], None), mg_get_oid = \<lambda>d. demo_get d ''_id'',
     mg_has = \<lambda>d key. d key \<noteq> None, mg_get_string = demo_get\<rparr>"

definition unary :: "int \<Rightarrow> string" where
  "unary n = (if n < 0 then CHR ''-'' else CHR ''+'') # replicate (nat \<bar>n\<bar>) CHR ''1'' @ ''.''"

definition read_unary :: "string \<Rightarrow> int \<times> string" where
  "read_unary s = (let n = length (takeWhile (\<lambda>c. c = CHR ''1'') (tl s)) in
     (if hd s = CHR ''-'' then - int n else int n, drop (n + 2) s))"

lemma takeWhile_replicate: "\<not> P y \<Longrightarrow> P x \<Longrightarrow> takeWhile P (replicate k x @ y # s) = replicate k x"
  by (induction k) simp_all

lemma read_unary [simp]: "read_unary (unary n @ s) = (n, s)"
  by (simp add: read_unary_def unary_def Let_def takeWhile_replicate)

definition demo_decode :: "string \<Rightarrow> int \<times> int \<times> string \<times> string" where
  "demo_decode s =
     (let (t, s1) = read_unary s; (e, s2) = read_unary s1; (n, s3) = read_unary s2 in (t, e, take (nat n) s3, drop (nat n) s3))"

definition demo_jwt :: "('w, int \<times> int \<times> string \<times> string) jwt" where
  "demo_jwt = \<lparr>jw_getenv = \<lambda>w s. None, jw_now = \<lambda>w. 0,
     jw_sign = \<lambda>i ty cl t e sec. unary t @ unary e @ unary (int (length (the (map_of cl ''role'')))) @
       the (map_of cl ''role'') @ the (map_of cl ''id''),
     jw_decode = \<lambda>s. Inr (demo_decode s),
     jw_verify = \<lambda>sec i now (t, e, r, u). if t \<le> now \<and> now \<le> e then Inr () else Inl (other_exception ''token expired''),
     jw_claim = \<lambda>(t, e, r, u) c. Inr (if c = ''role'' then r else u)\<rparr>"

definition demo_sodium :: "'w sodium" where
  "demo_sodium = \<lparr>so_init = \<lambda>w. (w, 0), so_pwhash_str = \<lambda>p w. (w, 0, ''h:'' @ p),
     so_pwhash_str_verify = \<lambda>h p. if h = cstr (''h:'' @ p) then 0 else - 1\<rparr>"

definition demo_accounts :: "((string \<times> string \<times> string) list, demo_doc, demo_json, int \<times> int \<times> string \<times> string) backends" where
  "demo_accounts = \<lparr>b_json = demo_json_api, b_mongo = demo_store, b_sodium = demo_sodium, b_jwt = demo_jwt\<rparr>"

lemma demo_accounts_ok: "accounts_ok demo_store (\<lambda>w. w)" "sodium_ok demo_sodium (\<lambda>w. w)" "jwt_ok demo_jwt"
proof -
  show "accounts_ok demo_store (\<lambda>w. w)"
    by (auto simp: accounts_ok_def demo_store_def eff_return_def user_of_doc_def doc_role_def demo_account_def demo_get_def
        split: option.splits)
  show "sodium_ok demo_sodium (\<lambda>w. w)" by (simp add: sodium_ok_def demo_sodium_def cstr_def)
  show "jwt_ok demo_jwt" by (simp add: jwt_ok_def demo_jwt_def demo_decode_def)
qed

lemma demo_created:
  "createUser demo_accounts demo_login new_response [] =
    ([(''ann'', ''h:pw'', ''user'')],
     Inr (demo_login, reply new_response Created ''{\"status\": \"success\", \"message\": \"User added!\"}''))"
  by (simp add: createUser_def with_json_def extractJson_def demo_login_def demo_accounts_def demo_json_api_def
      json_string_def hashPassword_def ensureSodiumInitialized_def demo_sodium_def repo_createUser_def demo_store_def
      lift_sum_def eff_defs Let_def cstr_def)

lemma demo_login_fields:
  "extractJson (b_json demo_accounts) demo_login new_response =
    (new_response, Some (JObject [(''name'', ''ann''), (''password'', ''pw'')]))"
  "js_contains (b_json demo_accounts) (JObject [(''name'', ''ann''), (''password'', ''pw'')]) ''name''"
  "js_contains (b_json demo_accounts) (JObject [(''name'', ''ann''), (''password'', ''pw'')]) ''password''"
  "json_string (b_json demo_accounts) (JObject [(''name'', ''ann''), (''password'', ''pw'')]) ''name'' = Inr ''ann''"
  "json_string (b_json demo_accounts) (JObject [(''name'', ''ann''), (''password'', ''pw'')]) ''password'' = Inr ''pw''"
  by (simp_all add: extractJson_def demo_login_def demo_accounts_def demo_json_api_def json_string_def)

end
