(* ===== verification/Server_Threads.thy ===== *)
theory Server_Threads
  imports Tcp_Server Thread_Pool
begin

text \<open>
  The threads of the server and what they wait for: the event loops of the workers
  (\<^verbatim>\<open>src/src/network/TcpServer.cpp\<close>) hand tasks to the ring of the pool, one action at a time, and the
  threads of the pool run them. A thread that uses the HTTP/2 session of a connection holds its
  \<open>h2_mutex_\<close>: an event loop in \<open>processHttp2\<close>, also while the callback of the session calls \<open>enqueue\<close>,
  and a thread of the pool in \<open>submitHttp2Response\<close> (\<^verbatim>\<open>src/src/network/ClientConnection.cpp\<close>).

  The actions on the ring are those of \<open>Thread_Pool\<close>, so everything shown there holds here. Shown here is
  who holds a mutex, that all work comes to an end unless the pool is jammed, and that it can jam.
\<close>

section \<open>State\<close>

text \<open>
  Event loop \<open>i\<close> is caller \<open>i\<close> of the pool. \<open>Polling\<close> stands for all it does without a mutex and without
  handing on a task; in \<open>Receiving m ts\<close> it hands on the tasks \<open>ts\<close>, inside \<open>processHttp2\<close> if \<open>m\<close> is a
  connection.
\<close>

datatype 'j loop = Polling | Locking nat "'j task list" | Receiving "nat option" "'j task list"

text \<open>A task for HTTP/2 runs the handler, then waits for the mutex, then answers in the session.\<close>

datatype phase = Handling | AtLock | InSession | Done

datatype thread = LoopThread nat | PoolThread nat

record 'j threads =
  th_pool :: "'j task config"
  th_loops :: "'j loop list"
  th_phases :: "phase list"
  th_mutex :: "nat \<rightharpoonup> thread"

definition threads_init :: "'j threads \<Rightarrow> bool" where
  "threads_init s \<longleftrightarrow> pool_init (th_pool s) \<and> th_loops s = map (\<lambda>_. Polling) (callers (th_pool s)) \<and>
     th_phases s = map (\<lambda>_. Handling) (workers (th_pool s)) \<and> th_mutex s = Map.empty"

section \<open>Steps\<close>

text \<open>The tasks that \<open>h2_on_frame_recv_cb\<close> makes of the requests a call of \<open>processHttp2\<close> completes.\<close>

definition h2_tasks :: "nat \<Rightarrow> (stream_id \<times> 'j HttpRequest) list \<Rightarrow> 'j task list" where
  "h2_tasks cid requests = map (\<lambda>(sid, req). H2Task cid sid req) requests"

fun h2_task :: "'j task \<Rightarrow> nat option" where
  "h2_task (H2Task cid sid req) = Some cid"
| "h2_task (HttpTask ep cid req fd keepAlive) = None"
| "h2_task (WsTask ep cid frame fd) = None"

text \<open>
  One action of event loop \<open>i\<close> outside \<open>enqueue\<close>: it takes the mutex, calls \<open>enqueue\<close> for the next task,
  or leaves \<open>processHttp2\<close>, which gives the mutex back.
\<close>

fun loop_step :: "nat \<Rightarrow> 'j loop \<Rightarrow> 'j task caller \<Rightarrow> (nat \<rightharpoonup> thread) \<Rightarrow>
    ('j loop \<times> 'j task caller \<times> (nat \<rightharpoonup> thread)) option" where
  "loop_step i (Locking cid ts) Idle mu =
     (if mu cid = None then Some (Receiving (Some cid) ts, Idle, mu(cid \<mapsto> LoopThread i)) else None)"
| "loop_step i (Receiving m (t # ts)) Idle mu = Some (Receiving m ts, Count t, mu)"
| "loop_step i (Receiving (Some cid) []) Idle mu = Some (Polling, Idle, mu(cid := None))"
| "loop_step i (Receiving None []) Idle mu = Some (Polling, Idle, mu)"
| "loop_step i l x mu = None"

text \<open>
  One action of the task of pool thread \<open>i\<close>; \<open>throws\<close> says whether the handler throws, which ends the task
  without an answer. Tasks of HTTP/1.1 and WebSocket connections need no mutex.
\<close>

fun task_step :: "bool \<Rightarrow> nat \<Rightarrow> 'j task \<Rightarrow> phase \<Rightarrow> (nat \<rightharpoonup> thread) \<Rightarrow> (phase \<times> (nat \<rightharpoonup> thread)) option" where
  "task_step throws i (H2Task cid sid req) Handling mu = Some (if throws then Done else AtLock, mu)"
| "task_step throws i (H2Task cid sid req) AtLock mu =
     (if mu cid = None then Some (InSession, mu(cid \<mapsto> PoolThread i)) else None)"
| "task_step throws i (H2Task cid sid req) InSession mu = Some (Done, mu(cid := None))"
| "task_step throws i (HttpTask ep cid req fd keepAlive) Handling mu = Some (Done, mu)"
| "task_step throws i (WsTask ep cid frame fd) Handling mu = Some (Done, mu)"
| "task_step throws i t ph mu = None"

text \<open>
  What comes from outside: \<open>read()\<close> returned bytes that complete a batch of HTTP/2 requests, or a request of
  HTTP/1.1 or a WebSocket frame is dispatched. The limit of 100 concurrent streams set in \<open>setupHttp2Session\<close>
  does not bound a batch, since a client may reset a stream at once and open the next.
\<close>

inductive arrival :: "'j threads \<Rightarrow> 'j threads \<Rightarrow> bool" where
  h2_batch: "i < length (th_loops s) \<Longrightarrow> th_loops s ! i = Polling \<Longrightarrow> callers (th_pool s) ! i = Idle \<Longrightarrow>
    arrival s (s\<lparr>th_loops := (th_loops s)[i := Locking cid (h2_tasks cid requests)]\<rparr>)"
| dispatch: "i < length (th_loops s) \<Longrightarrow> th_loops s ! i = Polling \<Longrightarrow> callers (th_pool s) ! i = Idle \<Longrightarrow>
    h2_task t = None \<Longrightarrow>
    arrival s (s\<lparr>th_loops := (th_loops s)[i := Receiving None [t]]\<rparr>)"

text \<open>What the threads do on their own. A task ends for the pool when its last action is done.\<close>

inductive thread_step :: "'j threads \<Rightarrow> 'j threads \<Rightarrow> bool" where
  loop: "i < length (th_loops s) \<Longrightarrow>
    loop_step i (th_loops s ! i) (callers (th_pool s) ! i) (th_mutex s) = Some (l, x, mu) \<Longrightarrow>
    thread_step s (s\<lparr>th_pool := (th_pool s)\<lparr>callers := (callers (th_pool s))[i := x]\<rparr>,
      th_loops := (th_loops s)[i := l], th_mutex := mu\<rparr>)"
| enqueue: "i < length (callers (th_pool s)) \<Longrightarrow>
    enqueue_step (callers (th_pool s) ! i) (pool (th_pool s)) = Some (x, p) \<Longrightarrow>
    thread_step s (s\<lparr>th_pool := (th_pool s)\<lparr>pool := p, callers := (callers (th_pool s))[i := x],
      stored := stored (th_pool s) @ stores (callers (th_pool s) ! i)\<rparr>\<rparr>)"
| task: "i < length (workers (th_pool s)) \<Longrightarrow> workers (th_pool s) ! i = Run (Some t) \<Longrightarrow>
    task_step throws i t (th_phases s ! i) (th_mutex s) = Some (ph, mu) \<Longrightarrow>
    thread_step s (s\<lparr>th_phases := (th_phases s)[i := ph], th_mutex := mu\<rparr>)"
| work: "i < length (workers (th_pool s)) \<Longrightarrow>
    worker_step (workers (th_pool s) ! i) (pool (th_pool s)) = Some (x, p) \<Longrightarrow>
    (\<And>t. workers (th_pool s) ! i = Run (Some t) \<Longrightarrow> th_phases s ! i = Done) \<Longrightarrow>
    thread_step s (s\<lparr>th_pool := (th_pool s)\<lparr>pool := p, workers := (workers (th_pool s))[i := x],
        taken := taken (th_pool s) @ takes (workers (th_pool s) ! i) (pool (th_pool s)),
        executed := executed (th_pool s) @ runs (workers (th_pool s) ! i)\<rparr>,
      th_phases := (th_phases s)[i := Handling]\<rparr>)"

definition threads_step :: "'j threads \<Rightarrow> 'j threads \<Rightarrow> bool" where
  "threads_step s s' \<longleftrightarrow> arrival s s' \<or> thread_step s s'"

inductive_cases arrivalE: "arrival s s'"
inductive_cases thread_stepE: "thread_step s s'"

section \<open>The invariant\<close>

text \<open>
  A mutex is held exactly by the event loop inside \<open>processHttp2\<close> or the pool thread inside
  \<open>submitHttp2Response\<close> of that connection; only a loop that hands on tasks is in \<open>enqueue\<close>; only
  tasks have phases.
\<close>

definition loop_inv :: "'j threads \<Rightarrow> nat \<Rightarrow> bool" where
  "loop_inv s i \<longleftrightarrow>
     (\<forall>cid. th_mutex s cid = Some (LoopThread i) \<longleftrightarrow> (\<exists>ts. th_loops s ! i = Receiving (Some cid) ts)) \<and>
     (callers (th_pool s) ! i \<noteq> Idle \<longrightarrow> (\<exists>m ts. th_loops s ! i = Receiving m ts))"

definition phase_inv :: "'j threads \<Rightarrow> nat \<Rightarrow> bool" where
  "phase_inv s i \<longleftrightarrow>
     (\<forall>cid. th_mutex s cid = Some (PoolThread i) \<longleftrightarrow>
        th_phases s ! i = InSession \<and> (\<exists>sid req. workers (th_pool s) ! i = Run (Some (H2Task cid sid req)))) \<and>
     (th_phases s ! i \<noteq> Handling \<longrightarrow> (\<exists>t. workers (th_pool s) ! i = Run (Some t))) \<and>
     (th_phases s ! i = AtLock \<or> th_phases s ! i = InSession \<longrightarrow>
        (\<exists>cid sid req. workers (th_pool s) ! i = Run (Some (H2Task cid sid req))))"

fun thread_exists :: "'j threads \<Rightarrow> thread \<Rightarrow> bool" where
  "thread_exists s (LoopThread i) = (i < length (th_loops s))"
| "thread_exists s (PoolThread i) = (i < length (th_phases s))"

definition threads_inv :: "'j threads \<Rightarrow> bool" where
  "threads_inv s \<longleftrightarrow> pool_inv (th_pool s) \<and> destroyer (th_pool s) = NotStarted \<and>
     length (th_loops s) = length (callers (th_pool s)) \<and> length (th_phases s) = length (workers (th_pool s)) \<and>
     (\<forall>cid h. th_mutex s cid = Some h \<longrightarrow> thread_exists s h) \<and>
     (\<forall>i < length (th_loops s). loop_inv s i) \<and> (\<forall>i < length (th_phases s). phase_inv s i)"

lemma threads_invD:
  assumes "threads_inv s"
  shows "pool_inv (th_pool s)" "destroyer (th_pool s) = NotStarted"
    "length (th_loops s) = length (callers (th_pool s))" "length (th_phases s) = length (workers (th_pool s))"
    "th_mutex s cid = Some h \<Longrightarrow> thread_exists s h"
    "i < length (th_loops s) \<Longrightarrow> loop_inv s i" "j < length (th_phases s) \<Longrightarrow> phase_inv s j"
  using assms by (auto simp: threads_inv_def)

text \<open>The thread uses the HTTP/2 session of the connection.\<close>

fun in_session :: "'j threads \<Rightarrow> nat \<Rightarrow> thread \<Rightarrow> bool" where
  "in_session s cid (LoopThread i) =
     (i < length (th_loops s) \<and> (case th_loops s ! i of Receiving m ts \<Rightarrow> m = Some cid | _ \<Rightarrow> False))"
| "in_session s cid (PoolThread i) =
     (i < length (th_phases s) \<and> th_phases s ! i = InSession \<and>
      (case workers (th_pool s) ! i of Run (Some t) \<Rightarrow> h2_task t = Some cid | _ \<Rightarrow> False))"

lemma h2_task_Some: "h2_task t = Some cid \<longleftrightarrow> (\<exists>sid req. t = H2Task cid sid req)"
  by (cases t) auto

lemma in_session_iff:
  assumes inv: "threads_inv s"
  shows "in_session s cid h \<longleftrightarrow> th_mutex s cid = Some h"
proof (cases h)
  case (LoopThread i)
  then show ?thesis using threads_invD(5) [OF inv, of cid h] threads_invD(6) [OF inv, of i]
    by (auto simp: loop_inv_def split: loop.splits)
next
  case (PoolThread i)
  then show ?thesis using threads_invD(5) [OF inv, of cid h] threads_invD(7) [OF inv, of i]
    by (auto simp: phase_inv_def h2_task_Some split: worker.splits option.splits)
qed

text \<open>Every action is an action of the pool or leaves the pool as it is.\<close>

lemma loop_step_caller:
  assumes "loop_step i l x mu = Some (l', x', mu')"
  shows "x = Idle" "x' = Idle \<or> (\<exists>m t ts. l = Receiving m (t # ts) \<and> l' = Receiving m ts \<and> x' = Count t \<and> mu' = mu)"
  using assms by (auto elim!: loop_step.elims split: if_splits)

lemma thread_step_pool:
  assumes "thread_step s s'" "length (th_loops s) = length (callers (th_pool s))"
  shows "th_pool s' = th_pool s \<or> pool_step (th_pool s) (th_pool s')"
  using assms(1)
proof (cases rule: thread_step.cases)
  case (loop i l x mu)
  note c = loop_step_caller [OF loop(3)]
  from c(2) show ?thesis
  proof (elim disjE exE conjE)
    assume "x = Idle"
    then have "(callers (th_pool s))[i := x] = callers (th_pool s)" using c(1) by (metis list_update_id)
    then show ?thesis using loop(1) by simp
  next
    fix m t ts
    assume "x = Count t"
    then show ?thesis using loop(1,2) c(1) assms(2) by (auto intro!: pool_step.call)
  qed
qed (auto intro: pool_step.enqueue pool_step.work)

lemma threads_step_pool:
  "threads_inv s \<Longrightarrow> threads_step s s' \<Longrightarrow> th_pool s' = th_pool s \<or> pool_step (th_pool s) (th_pool s')"
  unfolding threads_step_def using thread_step_pool [of s s'] threads_invD(3) [of s] by (auto elim: arrivalE)

lemma loop_step_inv:
  assumes step: "loop_step i l x mu = Some (l', x', mu')"
    and "\<And>cid. mu cid = Some (LoopThread i) \<longleftrightarrow> (\<exists>ts. l = Receiving (Some cid) ts)"
  shows "mu' cid = Some (LoopThread i) \<longleftrightarrow> (\<exists>ts. l' = Receiving (Some cid) ts)"
    "x' \<noteq> Idle \<Longrightarrow> \<exists>m ts. l' = Receiving m ts"
    "h \<noteq> LoopThread i \<Longrightarrow> mu' cid = Some h \<longleftrightarrow> mu cid = Some h"
  using step assms(2) [of cid] by (auto elim!: loop_step.elims split: if_splits)

lemma task_step_inv:
  assumes step: "task_step throws i t ph mu = Some (ph', mu')"
    and "\<And>cid. mu cid = Some (PoolThread i) \<longleftrightarrow> ph = InSession \<and> (\<exists>sid req. t = H2Task cid sid req)"
  shows "mu' cid = Some (PoolThread i) \<longleftrightarrow> ph' = InSession \<and> (\<exists>sid req. t = H2Task cid sid req)"
    "ph' = AtLock \<or> ph' = InSession \<Longrightarrow> \<exists>cid sid req. t = H2Task cid sid req"
    "h \<noteq> PoolThread i \<Longrightarrow> mu' cid = Some h \<longleftrightarrow> mu cid = Some h"
  using step assms(2) [of cid] by (auto elim!: task_step.elims split: if_splits)


lemma threads_invI:
  assumes "threads_inv s" "pool_inv (th_pool s')" "destroyer (th_pool s') = NotStarted"
    "length (th_loops s') = length (callers (th_pool s'))" "length (th_phases s') = length (workers (th_pool s'))"
    "\<And>cid h. th_mutex s' cid = Some h \<Longrightarrow> thread_exists s' h"
    "\<And>i. i < length (th_loops s') \<Longrightarrow> loop_inv s' i" "\<And>i. i < length (th_phases s') \<Longrightarrow> phase_inv s' i"
  shows "threads_inv s'"
  using assms by (auto simp: threads_inv_def)

lemma thread_exists_cong:
  "length (th_loops s) = length (th_loops s') \<Longrightarrow> length (th_phases s) = length (th_phases s') \<Longrightarrow>
   thread_exists s' h = thread_exists s h"
  by (cases h) simp_all

lemma threads_inv_arrival:
  assumes inv: "threads_inv s" and arr: "arrival s s'"
  shows "threads_inv s'"
proof -
  from arr obtain i l where i: "i < length (th_loops s)" "th_loops s ! i = Polling" "callers (th_pool s) ! i = Idle"
    and s': "s' = s\<lparr>th_loops := (th_loops s)[i := l]\<rparr>" and l: "\<And>cid ts. l \<noteq> Receiving (Some cid) ts"
    by (elim arrivalE) auto
  have "loop_inv s' j" if "j < length (th_loops s')" for j
    using threads_invD(6) [OF inv, of j] that i l unfolding s' loop_inv_def by (cases "j = i") simp_all
  moreover have "phase_inv s' j" if "j < length (th_phases s')" for j
    using threads_invD(7) [OF inv, of j] that unfolding s' phase_inv_def by simp
  moreover have "thread_exists s' h" if "th_mutex s' cid = Some h" for cid h
    using threads_invD(5) [OF inv, of cid h] that s' thread_exists_cong [of s s' h] by simp
  ultimately show ?thesis
    using threads_invD [OF inv] by (intro threads_invI [OF inv]) (simp_all add: s')
qed

lemma threads_inv_loop:
  assumes inv: "threads_inv s" and i: "i < length (th_loops s)"
    and step: "loop_step i (th_loops s ! i) (callers (th_pool s) ! i) (th_mutex s) = Some (l, x, mu)"
    and s': "s' = s\<lparr>th_pool := (th_pool s)\<lparr>callers := (callers (th_pool s))[i := x]\<rparr>,
      th_loops := (th_loops s)[i := l], th_mutex := mu\<rparr>" and pool: "pool_inv (th_pool s')"
  shows "threads_inv s'"
proof -
  have li: "th_mutex s cid = Some (LoopThread i) \<longleftrightarrow> (\<exists>ts. th_loops s ! i = Receiving (Some cid) ts)" for cid
    using threads_invD(6) [OF inv i] by (simp add: loop_inv_def)
  note st = loop_step_inv [OF step li]
  have "thread_exists s h" if "mu cid = Some h" for cid h
    using that st(3) [of h cid] threads_invD(5) [OF inv, of cid h] i by (cases "h = LoopThread i") auto
  then have ex: "thread_exists s' h" if "th_mutex s' cid = Some h" for cid h
    using that s' thread_exists_cong [of s s' h] by simp
  have "loop_inv s' j" if "j < length (th_loops s')" for j
    using threads_invD(6) [OF inv, of j] that st threads_invD(3) [OF inv] i unfolding s' loop_inv_def
    by (cases "j = i") simp_all
  moreover have "phase_inv s' j" if "j < length (th_phases s')" for j
    using threads_invD(7) [OF inv, of j] that st(3) unfolding s' phase_inv_def by simp
  ultimately show ?thesis
    using ex pool threads_invD [OF inv] by (intro threads_invI [OF inv]) (simp_all add: s')
qed

lemma threads_inv_task:
  assumes inv: "threads_inv s" and i: "i < length (workers (th_pool s))" "workers (th_pool s) ! i = Run (Some t)"
    and step: "task_step throws i t (th_phases s ! i) (th_mutex s) = Some (ph, mu)"
    and s': "s' = s\<lparr>th_phases := (th_phases s)[i := ph], th_mutex := mu\<rparr>"
  shows "threads_inv s'"
proof -
  have len: "i < length (th_phases s)" using i(1) threads_invD(4) [OF inv] by simp
  have pi: "th_mutex s cid = Some (PoolThread i) \<longleftrightarrow> th_phases s ! i = InSession \<and> (\<exists>sid req. t = H2Task cid sid req)" for cid
    using threads_invD(7) [OF inv len] i(2) by (simp add: phase_inv_def)
  note st = task_step_inv [OF step pi]
  have "thread_exists s h" if "mu cid = Some h" for cid h
    using that st(3) [of h cid] threads_invD(5) [OF inv, of cid h] len by (cases "h = PoolThread i") auto
  then have ex: "thread_exists s' h" if "th_mutex s' cid = Some h" for cid h
    using that s' thread_exists_cong [of s s' h] by simp
  have "phase_inv s' j" if "j < length (th_phases s')" for j
    using threads_invD(7) [OF inv, of j] that st len i(2) unfolding s' phase_inv_def
    by (cases "j = i") simp_all
  moreover have "loop_inv s' j" if "j < length (th_loops s')" for j
    using threads_invD(6) [OF inv, of j] that st(3) unfolding s' loop_inv_def by simp
  ultimately show ?thesis
    using ex threads_invD [OF inv] by (intro threads_invI [OF inv]) (simp_all add: s')
qed

lemma enqueue_step_busy: "enqueue_step x p = Some (y, q) \<Longrightarrow> x \<noteq> Idle"
  by (cases x) simp_all

lemma threads_inv_enqueue:
  assumes inv: "threads_inv s" and i: "i < length (callers (th_pool s))"
    and step: "enqueue_step (callers (th_pool s) ! i) (pool (th_pool s)) = Some (x, p)"
    and s': "s' = s\<lparr>th_pool := (th_pool s)\<lparr>pool := p, callers := (callers (th_pool s))[i := x],
      stored := stored (th_pool s) @ stores (callers (th_pool s) ! i)\<rparr>\<rparr>" and pool: "pool_inv (th_pool s')"
  shows "threads_inv s'"
proof -
  have "loop_inv s' j" if "j < length (th_loops s')" for j
    using threads_invD(6) [OF inv, of j] that i enqueue_step_busy [OF step] unfolding s' loop_inv_def
    by (cases "j = i") simp_all
  moreover have "phase_inv s' j" if "j < length (th_phases s')" for j
    using threads_invD(7) [OF inv, of j] that unfolding s' phase_inv_def by simp
  moreover have "thread_exists s' h" if "th_mutex s' cid = Some h" for cid h
    using threads_invD(5) [OF inv, of cid h] that s' thread_exists_cong [of s s' h] by simp
  ultimately show ?thesis
    using pool threads_invD [OF inv] by (intro threads_invI [OF inv]) (simp_all add: s')
qed

text \<open>A worker that goes on is not inside a session: it holds no task, or the task is done.\<close>

lemma threads_inv_work:
  assumes inv: "threads_inv s" and i: "i < length (workers (th_pool s))"
    and step: "worker_step (workers (th_pool s) ! i) (pool (th_pool s)) = Some (x, p)"
    and fin: "\<And>t. workers (th_pool s) ! i = Run (Some t) \<Longrightarrow> th_phases s ! i = Done"
    and s': "s' = s\<lparr>th_pool := (th_pool s)\<lparr>pool := p, workers := (workers (th_pool s))[i := x],
        taken := taken (th_pool s) @ takes (workers (th_pool s) ! i) (pool (th_pool s)),
        executed := executed (th_pool s) @ runs (workers (th_pool s) ! i)\<rparr>,
      th_phases := (th_phases s)[i := Handling]\<rparr>" and pool: "pool_inv (th_pool s')"
  shows "threads_inv s'"
proof -
  have len: "i < length (th_phases s)" using i threads_invD(4) [OF inv] by simp
  have out: "th_mutex s cid \<noteq> Some (PoolThread i)" for cid
    using threads_invD(7) [OF inv len] fin by (auto simp: phase_inv_def)
  have "phase_inv s' j" if "j < length (th_phases s')" for j
    using threads_invD(7) [OF inv, of j] that i len out unfolding s' phase_inv_def by (cases "j = i") simp_all
  moreover have "loop_inv s' j" if "j < length (th_loops s')" for j
    using threads_invD(6) [OF inv, of j] that unfolding s' loop_inv_def by simp
  moreover have "thread_exists s' h" if "th_mutex s' cid = Some h" for cid h
    using threads_invD(5) [OF inv, of cid h] that s' thread_exists_cong [of s s' h] by simp
  ultimately show ?thesis
    using pool threads_invD [OF inv] by (intro threads_invI [OF inv]) (simp_all add: s')
qed

lemma threads_inv_thread_step:
  assumes inv: "threads_inv s" and step: "thread_step s s'"
  shows "threads_inv s'"
proof -
  have pool: "pool_inv (th_pool s')"
    using thread_step_pool [OF step threads_invD(3) [OF inv]] threads_invD(1) [OF inv] pool_inv_step by auto
  from step show ?thesis
  proof (cases rule: thread_step.cases)
    case (loop i l x mu)
    then show ?thesis using threads_inv_loop [OF inv loop(2,3,1) pool] by simp
  next
    case (enqueue i x p)
    then show ?thesis using threads_inv_enqueue [OF inv enqueue(2,3,1) pool] by simp
  next
    case (task i t throws ph mu)
    then show ?thesis using threads_inv_task [OF inv task(2-4,1)] by simp
  next
    case (work i x p)
    then show ?thesis using threads_inv_work [OF inv work(2-4,1) pool] by simp
  qed
qed

interpretation th: refinement_system threads_init threads_step threads_inv th_pool pool_init pool_step
proof
  show "threads_inv s" if "threads_init s" for s :: "'j threads"
    using that pool_inv_init [of "th_pool s"]
    by (auto simp: threads_init_def threads_inv_def loop_inv_def phase_inv_def pool_init_def)
  show "threads_inv t" if "threads_inv s" "threads_step s t" for s t :: "'j threads"
    using that threads_inv_arrival threads_inv_thread_step by (auto simp: threads_step_def)
  show "pool_init (th_pool s)" if "threads_init s" for s :: "'j threads"
    using that by (simp add: threads_init_def)
qed (rule threads_step_pool)

section \<open>All work comes to an end\<close>

fun loop_tasks :: "'j loop \<Rightarrow> 'j task list" where
  "loop_tasks Polling = []" | "loop_tasks (Locking cid ts) = ts" | "loop_tasks (Receiving m ts) = ts"

fun loop_rank :: "'j loop \<Rightarrow> nat" where
  "loop_rank Polling = 0" | "loop_rank (Locking cid ts) = 65 * length ts + 2"
| "loop_rank (Receiving m ts) = 65 * length ts + 1"

fun phase_rank :: "phase \<Rightarrow> nat" where
  "phase_rank Handling = 3" | "phase_rank AtLock = 2" | "phase_rank InSession = 1" | "phase_rank Done = 0"

definition threads_work :: "'j threads \<Rightarrow> nat" where
  "threads_work s = 4 * pool_work (th_pool s) + sum_list (map loop_rank (th_loops s)) +
     sum_list (map phase_rank (th_phases s))"

lemma loop_step_work:
  "loop_step i l x mu = Some (l', x', mu') \<Longrightarrow> loop_rank l' + 4 * c_rank x' < loop_rank l + 4 * c_rank x"
  by (auto elim!: loop_step.elims split: if_splits)

lemma task_step_work: "task_step throws i t ph mu = Some (ph', mu') \<Longrightarrow> phase_rank ph' < phase_rank ph"
  by (auto elim!: task_step.elims split: if_splits)

lemma threads_work_step:
  assumes inv: "threads_inv s" and step: "thread_step s s'"
  shows "threads_work s' < threads_work s"
  using step
proof (cases rule: thread_step.cases)
  case (loop i l x mu)
  then show ?thesis
    using loop_step_work [OF loop(3)] sum_list_update_rank [OF loop(2), of loop_rank l] threads_invD(3) [OF inv]
      sum_list_update_rank [of i "callers (th_pool s)" c_rank x]
    by (simp add: threads_work_def pool_work_def)
next
  case (enqueue i x p)
  then show ?thesis using drain_step_work [OF drain_enqueue [OF enqueue(2,3)]] by (simp add: threads_work_def)
next
  case (task i t throws ph mu)
  then show ?thesis
    using task_step_work [OF task(4)] sum_list_update_rank [of i "th_phases s" phase_rank ph] threads_invD(4) [OF inv]
    by (simp add: threads_work_def)
next
  case (work i x p)
  have "phase_rank Handling \<le> phase_rank (th_phases s ! i) + 3" by simp
  then show ?thesis
    using drain_step_work [OF drain_work [OF work(2,3)]] sum_list_update_rank [of i "th_phases s" phase_rank Handling]
      threads_invD(4) [OF inv] work(1,2) by (simp add: threads_work_def)
qed

interpretation tw: terminating_system threads_inv thread_step threads_work
  by unfold_locales (fact threads_inv_thread_step, fact threads_work_step)

text \<open>The tasks handed on, under way in \<open>enqueue\<close>, or still to be handed on by a loop.\<close>

definition threads_submitted :: "'j threads \<Rightarrow> 'j task multiset" where
  "threads_submitted s = submitted (th_pool s) + mset (concat (map loop_tasks (th_loops s)))"

lemma loop_step_tasks:
  assumes "loop_step i l x mu = Some (l', x', mu')"
  shows "mset (submits x') + mset (loop_tasks l') = mset (loop_tasks l)" "submits x = []"
  using assms by (auto elim!: loop_step.elims split: if_splits)

lemma thread_step_submitted:
  assumes inv: "threads_inv s" and step: "thread_step s s'"
  shows "threads_submitted s' = threads_submitted s"
  using step
proof (cases rule: thread_step.cases)
  case (loop i l x mu)
  have i: "i < length (callers (th_pool s))" using loop(2) threads_invD(3) [OF inv] by simp
  note st = loop_step_tasks [OF loop(3)]
  have c: "mset (concat (map submits ((callers (th_pool s))[i := x]))) =
      mset (concat (map submits (callers (th_pool s)))) + mset (submits x)"
    using concat_map_update [OF i, of submits x] st(2) by simp
  have "mset (concat (map loop_tasks ((th_loops s)[i := l]))) + (mset (submits x) + mset (loop_tasks l)) =
      mset (concat (map loop_tasks (th_loops s))) + mset (loop_tasks l)"
    using concat_map_update [OF loop(2), of loop_tasks l] unfolding st(1) .
  then have "mset (concat (map loop_tasks ((th_loops s)[i := l]))) + mset (submits x) =
      mset (concat (map loop_tasks (th_loops s)))" by (metis add.assoc add_right_imp_eq)
  with c show ?thesis unfolding loop(1) threads_submitted_def submitted_def by (simp add: ac_simps del: mset_concat)
next
  case (enqueue i x p)
  then show ?thesis using drain_submitted [OF drain_enqueue [OF enqueue(2,3)]] by (simp add: threads_submitted_def)
next
  case (work i x p)
  then show ?thesis by (simp add: threads_submitted_def submitted_def)
qed (simp add: threads_submitted_def)

lemma run_submitted:
  "rtranclp thread_step s s' \<Longrightarrow> threads_inv s \<Longrightarrow> threads_submitted s' = threads_submitted s"
  by (induction rule: rtranclp_induct) (auto simp: thread_step_submitted dest: tw.run_inv)

text \<open>
  All is done, or the pool is jammed: the ring is full, and every thread of the pool waits for the session of a
  connection whose event loop holds the mutex and waits for a free slot.
\<close>

definition at_rest :: "'j threads \<Rightarrow> bool" where
  "at_rest s \<longleftrightarrow> (\<forall>l \<in> set (th_loops s). l = Polling) \<and> quiescent (th_pool s)"

definition jammed :: "'j threads \<Rightarrow> bool" where
  "jammed s \<longleftrightarrow> workers (th_pool s) \<noteq> [] \<and> tp_space_available (pool (th_pool s)) = 0 \<and>
     (\<forall>i < length (workers (th_pool s)). \<exists>cid sid req j t.
        workers (th_pool s) ! i = Run (Some (H2Task cid sid req)) \<and> th_phases s ! i = AtLock \<and>
        th_mutex s cid = Some (LoopThread j) \<and> callers (th_pool s) ! j = AcquireSpace t)"

lemma jammed_not_at_rest: "jammed s \<Longrightarrow> \<not> at_rest s"
proof
  assume j: "jammed s" and r: "at_rest s"
  from j have n: "0 < length (workers (th_pool s))" by (simp add: jammed_def)
  with j obtain t where "workers (th_pool s) ! 0 = Run t" unfolding jammed_def by meson
  moreover have "workers (th_pool s) ! 0 = AcquireTask" using r nth_mem [OF n] by (simp add: at_rest_def quiescent_def)
  ultimately show False by simp
qed

lemma threads_running: "threads_inv s \<Longrightarrow> \<not> tp_stop (pool (th_pool s))"
  using threads_invD(1,2) [of s] by (simp add: pool_inv_defs)

lemma stuck_caller:
  assumes "\<And>s'. \<not> thread_step s s'" "x \<in> set (callers (th_pool s))"
  shows "enqueue_step x (pool (th_pool s)) = None"
  using assms by (cases "enqueue_step x (pool (th_pool s))") (auto simp: in_set_conv_nth dest: thread_step.enqueue)

lemma stuck_loop:
  assumes "\<And>s'. \<not> thread_step s s'" "i < length (th_loops s)"
  shows "loop_step i (th_loops s ! i) (callers (th_pool s) ! i) (th_mutex s) = None"
  using assms by (cases "loop_step i (th_loops s ! i) (callers (th_pool s) ! i) (th_mutex s)") (auto dest: thread_step.loop)

lemma stuck_task:
  assumes "\<And>s'. \<not> thread_step s s'" "i < length (workers (th_pool s))" "workers (th_pool s) ! i = Run (Some t)"
  shows "task_step throws i t (th_phases s ! i) (th_mutex s) = None"
  using assms by (cases "task_step throws i t (th_phases s ! i) (th_mutex s)") (auto dest: thread_step.task)

lemma task_blocked:
  assumes "\<And>throws. task_step throws i t ph mu = None" "ph \<noteq> Done"
    "ph = AtLock \<or> ph = InSession \<Longrightarrow> \<exists>cid sid req. t = H2Task cid sid req"
  obtains cid sid req h where "t = H2Task cid sid req" "ph = AtLock" "mu cid = Some h"
proof (cases ph)
  case Handling
  then show thesis using assms(1) [of True] by (cases t) simp_all
next
  case AtLock
  then show thesis using assms(1) [of True] assms(3) that by (auto split: if_splits)
next
  case InSession
  then show thesis using assms(1) [of True] assms(3) by auto
qed (use assms(2) in simp)

text \<open>A worker that cannot act waits for a task or for a session.\<close>

lemma stuck_worker:
  assumes inv: "threads_inv s" and stuck: "\<And>s'. \<not> thread_step s s'" and i: "i < length (workers (th_pool s))"
  shows "worker_step (workers (th_pool s) ! i) (pool (th_pool s)) = None \<or>
    (\<exists>cid sid req h. workers (th_pool s) ! i = Run (Some (H2Task cid sid req)) \<and> th_phases s ! i = AtLock \<and>
       th_mutex s cid = Some h)"
proof (cases "\<exists>t. workers (th_pool s) ! i = Run (Some t) \<and> th_phases s ! i \<noteq> Done")
  case True
  then obtain t where t: "workers (th_pool s) ! i = Run (Some t)" "th_phases s ! i \<noteq> Done" by blast
  have "i < length (th_phases s)" using i threads_invD(4) [OF inv] by simp
  then have "th_phases s ! i = AtLock \<or> th_phases s ! i = InSession \<Longrightarrow> \<exists>cid sid req. t = H2Task cid sid req"
    using threads_invD(7) [OF inv, of i] t(1) by (auto simp: phase_inv_def)
  from task_blocked [OF stuck_task [OF stuck i t(1)] t(2) this] t(1) show ?thesis by metis
next
  case False
  then show ?thesis
    using stuck i by (cases "worker_step (workers (th_pool s) ! i) (pool (th_pool s))") (auto dest: thread_step.work)
qed

text \<open>Then nobody holds the spin lock, so that the threads wait for nothing else.\<close>

lemma stuck_threads:
  assumes inv: "threads_inv s" and stuck: "\<And>s'. \<not> thread_step s s'"
  shows "x \<in> set (callers (th_pool s)) \<Longrightarrow>
      x = Idle \<or> (\<exists>t. x = AcquireSpace t) \<and> tp_space_available (pool (th_pool s)) = 0"
    and "i < length (workers (th_pool s)) \<Longrightarrow>
      workers (th_pool s) ! i = AcquireTask \<and> tp_tasks_available (pool (th_pool s)) = 0 \<or>
      (\<exists>cid sid req h. workers (th_pool s) ! i = Run (Some (H2Task cid sid req)) \<and> th_phases s ! i = AtLock \<and>
         th_mutex s cid = Some h)"
proof -
  note cb = stuck_caller [OF stuck] and wb = stuck_worker [OF inv stuck]
  have "\<not> c_locked x" if "x \<in> set (callers (th_pool s))" for x
    using locked_enabled(1) [of x "pool (th_pool s)"] cb [OF that] by auto
  moreover have "\<not> w_locked x" if "x \<in> set (workers (th_pool s))" for x
    using that wb locked_enabled(2) [of x "pool (th_pool s)"] by (force simp: in_set_conv_nth)
  ultimately have "cnt c_locked (callers (th_pool s)) = 0" "cnt w_locked (workers (th_pool s)) = 0"
    by (simp_all add: cnt_zero_iff)
  then have free: "\<not> tp_lock (pool (th_pool s))"
    using threads_invD(1) [OF inv] by (simp add: pool_inv_def inv_lock_def split: if_splits)
  show "x = Idle \<or> (\<exists>t. x = AcquireSpace t) \<and> tp_space_available (pool (th_pool s)) = 0"
    if "x \<in> set (callers (th_pool s))"
    using free_enabled(1) [OF free, of x] cb [OF that] by (cases x) (auto split: if_splits)
  have "\<forall>x \<in> set (workers (th_pool s)). \<not> w_exited x"
    using threads_invD(1) [OF inv] threads_running [OF inv] by (simp add: pool_inv_defs cnt_zero_iff)
  then show "workers (th_pool s) ! i = AcquireTask \<and> tp_tasks_available (pool (th_pool s)) = 0 \<or>
      (\<exists>cid sid req h. workers (th_pool s) ! i = Run (Some (H2Task cid sid req)) \<and> th_phases s ! i = AtLock \<and>
         th_mutex s cid = Some h)" if i: "i < length (workers (th_pool s))"
    using wb [OF i] free_enabled(2) [OF free, of "workers (th_pool s) ! i"] nth_mem [OF i]
    by (cases "workers (th_pool s) ! i = AcquireTask"; cases "workers (th_pool s) ! i = Exited") (auto split: if_splits)
qed

text \<open>The mutex a thread waits for is held by an event loop that waits for a slot of the ring.\<close>

lemma stuck_holder:
  assumes inv: "threads_inv s" and stuck: "\<And>s'. \<not> thread_step s s'" and h: "th_mutex s cid = Some h"
  obtains j t where "h = LoopThread j" "j < length (callers (th_pool s))" "callers (th_pool s) ! j = AcquireSpace t"
    "tp_space_available (pool (th_pool s)) = 0"
proof (cases h)
  case (LoopThread j)
  have j: "j < length (th_loops s)" using threads_invD(5) [OF inv h] LoopThread by simp
  then obtain ts where ts: "th_loops s ! j = Receiving (Some cid) ts"
    using threads_invD(6) [OF inv j] h LoopThread by (auto simp: loop_inv_def)
  have "callers (th_pool s) ! j \<noteq> Idle" using stuck_loop [OF stuck j] ts by (cases ts) auto
  with stuck_threads(1) [OF inv stuck, of "callers (th_pool s) ! j"] j threads_invD(3) [OF inv] LoopThread that
  show thesis by auto
next
  case (PoolThread j)
  have j: "j < length (th_phases s)" using threads_invD(5) [OF inv h] PoolThread by simp
  then obtain sid req where w: "workers (th_pool s) ! j = Run (Some (H2Task cid sid req))" "th_phases s ! j = InSession"
    using threads_invD(7) [OF inv j] h PoolThread by (auto simp: phase_inv_def)
  then show thesis using stuck_task [OF stuck _ w(1), of True] j threads_invD(4) [OF inv] by simp
qed

lemma stuck_idle_worker:
  assumes inv: "threads_inv s" and stuck: "\<And>s'. \<not> thread_step s s'"
    and i: "i < length (workers (th_pool s))" "workers (th_pool s) ! i = AcquireTask"
  shows "0 < tp_space_available (pool (th_pool s))"
proof -
  have "\<not> c_unreleased x \<and> \<not> c_space x" if "x \<in> set (callers (th_pool s))" for x
    using stuck_threads(1) [OF inv stuck that] by auto
  then have c: "cnt c_unreleased (callers (th_pool s)) = 0" "cnt c_space (callers (th_pool s)) = 0"
    by (simp_all add: cnt_zero_iff)
  have "\<not> w_token x \<and> \<not> w_holding x" if "x \<in> set (workers (th_pool s))" for x
    using that stuck_threads(2) [OF inv stuck] by (force simp: in_set_conv_nth)
  then have "cnt w_token (workers (th_pool s)) = 0" "cnt w_holding (workers (th_pool s)) = 0"
    by (simp_all add: cnt_zero_iff)
  moreover have "tp_tasks_available (pool (th_pool s)) = 0" using stuck_threads(2) [OF inv stuck i(1)] i(2) by simp
  ultimately show ?thesis
    using c threads_invD(1) [OF inv] threads_running [OF inv] by (simp add: pool_inv_defs)
qed

lemma stuck_space:
  assumes inv: "threads_inv s" and stuck: "\<And>s'. \<not> thread_step s s'" and sp: "0 < tp_space_available (pool (th_pool s))"
  shows "at_rest s"
proof -
  have mu: "th_mutex s = Map.empty" using stuck_holder [OF inv stuck] sp by (metis not_None_eq less_irrefl)
  have c: "x = Idle" if "x \<in> set (callers (th_pool s))" for x using stuck_threads(1) [OF inv stuck that] sp by simp
  moreover have "x = AcquireTask" if "x \<in> set (workers (th_pool s))" for x
    using that stuck_threads(2) [OF inv stuck] mu by (auto simp: in_set_conv_nth)
  moreover have "th_loops s ! i = Polling" if i: "i < length (th_loops s)" for i
  proof -
    have "callers (th_pool s) ! i = Idle" using i c threads_invD(3) [OF inv] by simp
    then show ?thesis using stuck_loop [OF stuck i] mu
      by (cases "(i, th_loops s ! i, callers (th_pool s) ! i, th_mutex s)" rule: loop_step.cases) auto
  qed
  ultimately show ?thesis by (auto simp: at_rest_def quiescent_def in_set_conv_nth)
qed

lemma stuck_rest_or_jammed:
  assumes inv: "threads_inv s" and stuck: "\<And>s'. \<not> thread_step s s'" and ne: "workers (th_pool s) \<noteq> []"
  shows "at_rest s \<or> jammed s"
proof (cases "0 < tp_space_available (pool (th_pool s))")
  case True
  then show ?thesis using stuck_space [OF inv stuck] by simp
next
  case False
  have "\<exists>cid sid req j t. workers (th_pool s) ! i = Run (Some (H2Task cid sid req)) \<and> th_phases s ! i = AtLock \<and>
      th_mutex s cid = Some (LoopThread j) \<and> callers (th_pool s) ! j = AcquireSpace t"
    if i: "i < length (workers (th_pool s))" for i
  proof -
    obtain cid sid req h where w: "workers (th_pool s) ! i = Run (Some (H2Task cid sid req))" "th_phases s ! i = AtLock"
      "th_mutex s cid = Some h" using stuck_threads(2) [OF inv stuck i] stuck_idle_worker [OF inv stuck i] False by auto
    with stuck_holder [OF inv stuck w(3)] show ?thesis by metis
  qed
  then show ?thesis using ne False by (simp add: jammed_def)
qed

lemma rest_complete:
  assumes inv: "threads_inv s" and rest: "at_rest s" and idle: "tp_tasks_available (pool (th_pool s)) = 0"
  shows "mset (executed (th_pool s)) = threads_submitted s"
proof -
  have "concat (map loop_tasks (th_loops s)) = []" "concat (map submits (callers (th_pool s))) = []"
    using rest by (auto simp: at_rest_def quiescent_def)
  then have "threads_submitted s = mset (stored (th_pool s))" unfolding threads_submitted_def submitted_def by simp
  then show ?thesis
    using quiescent_done [OF threads_invD(1) [OF inv] _ threads_running [OF inv] idle] rest by (simp add: at_rest_def)
qed

lemma work_ends:
  assumes inv: "threads_inv s" and ne: "workers (th_pool s) \<noteq> []"
    and run: "rtranclp thread_step s s'" and stuck: "\<And>u. \<not> thread_step s' u"
  shows "at_rest s' \<and> mset (executed (th_pool s')) = threads_submitted s \<or> jammed s'"
proof -
  have inv': "threads_inv s'" using tw.run_inv [OF run inv] .
  have ne': "workers (th_pool s') \<noteq> []" using run ne by (induction rule: rtranclp_induct) (auto elim: thread_stepE)
  show ?thesis
  proof (cases "jammed s'")
    case False
    then have rest: "at_rest s'" using stuck_rest_or_jammed [OF inv' stuck ne'] by simp
    obtain i where i: "i < length (workers (th_pool s'))" using ne' by blast
    then have "workers (th_pool s') ! i = AcquireTask" using rest by (auto simp: at_rest_def quiescent_def)
    then have "tp_tasks_available (pool (th_pool s')) = 0" using stuck_threads(2) [OF inv' stuck i] by simp
    then show ?thesis using rest rest_complete [OF inv' rest] run_submitted [OF run inv] by simp
  qed simp
qed

text \<open>
  A jam takes one task for each thread of the pool, a full ring and one task more: with fewer tasks
  unfinished it does not happen.
\<close>

lemma executed_grows: "thread_step s s' \<Longrightarrow> length (executed (th_pool s)) \<le> length (executed (th_pool s'))"
  by (auto elim: thread_stepE)

lemma run_executed_grows:
  "rtranclp thread_step s s' \<Longrightarrow> length (executed (th_pool s)) \<le> length (executed (th_pool s'))"
  by (induction rule: rtranclp_induct) (auto intro: le_trans executed_grows)

lemma length_concat_ones: "(\<And>x. x \<in> set xs \<Longrightarrow> length (f x) = 1) \<Longrightarrow> length (concat (map f xs)) = length xs"
  by (induction xs) auto

lemma jam_load:
  assumes inv: "threads_inv s" and stuck: "\<And>s'. \<not> thread_step s s'" and jam: "jammed s"
  shows "CAPACITY + length (workers (th_pool s)) + length (executed (th_pool s)) < size (threads_submitted s)"
proof -
  let ?c = "th_pool s"
  obtain j cid where j: "th_mutex s cid = Some (LoopThread j)" using jam unfolding jammed_def by (metis length_greater_0_conv)
  from stuck_holder [OF inv stuck j] obtain j' t where j': "j' < length (callers ?c)" "callers ?c ! j' = AcquireSpace t"
    by metis
  have "t \<in># mset (concat (map submits (callers ?c)))"
    using j' nth_mem [OF j'(1)] by (auto intro!: bexI [of _ "callers ?c ! j'"])
  then have one: "0 < size (mset (concat (map submits (callers ?c))))" by (metis empty_not_add_mset mset_add nonempty_has_size)
  have "\<not> c_space x" if "x \<in> set (callers ?c)" for x using stuck_threads(1) [OF inv stuck that] by auto
  then have c: "cnt c_space (callers ?c) = 0" by (simp add: cnt_zero_iff)
  have w: "\<exists>t. x = Run (Some t)" if "x \<in> set (workers ?c)" for x
    using that jam by (auto simp: jammed_def in_set_conv_nth)
  then have "\<not> w_holding x" if "x \<in> set (workers ?c)" for x using that by fastforce
  then have "cnt w_holding (workers ?c) = 0" by (simp add: cnt_zero_iff)
  with c have full: "length (stored ?c) = CAPACITY + length (taken ?c)"
    using threads_invD(1) [OF inv] jam by (simp add: pool_inv_defs jammed_def)
  have "length (carries x) = 1" if "x \<in> set (workers ?c)" for x using w [OF that] by auto
  then have "length (concat (map carries (workers ?c))) = length (workers ?c)" by (rule length_concat_ones)
  moreover have "size (image_mset Some (mset (executed ?c)) + mset (concat (map carries (workers ?c)))) = size (mset (taken ?c))"
    using threads_invD(1) [OF inv] by (simp only: pool_inv_defs)
  ultimately have "length (taken ?c) = length (executed ?c) + length (workers ?c)" by simp
  with one full show ?thesis unfolding threads_submitted_def submitted_def by simp
qed

lemma run_workers: "rtranclp thread_step s s' \<Longrightarrow> length (workers (th_pool s')) = length (workers (th_pool s))"
  by (induction rule: rtranclp_induct) (auto elim: thread_stepE)

lemma light_load_ends:
  assumes inv: "threads_inv s" and ne: "workers (th_pool s) \<noteq> []"
    and load: "size (threads_submitted s) \<le> length (executed (th_pool s)) + CAPACITY + length (workers (th_pool s))"
    and run: "rtranclp thread_step s s'" and stuck: "\<And>u. \<not> thread_step s' u"
  shows "at_rest s' \<and> mset (executed (th_pool s')) = threads_submitted s"
proof -
  have "\<not> jammed s'"
    using jam_load [OF tw.run_inv [OF run inv] stuck] load run_submitted [OF run inv] run_executed_grows [OF run] run_workers [OF run]
    by auto
  then show ?thesis using work_ends [OF inv ne run stuck] by simp
qed

section \<open>A jam does not end\<close>

lemma jammedI:
  assumes "jammed s" "workers (th_pool s') = workers (th_pool s)" "th_phases s' = th_phases s"
    "tp_space_available (pool (th_pool s')) = 0"
    "\<And>cid j t. th_mutex s cid = Some (LoopThread j) \<Longrightarrow> callers (th_pool s) ! j = AcquireSpace t \<Longrightarrow>
       th_mutex s' cid = Some (LoopThread j) \<and> callers (th_pool s') ! j = AcquireSpace t"
  shows "jammed s'"
  using assms unfolding jammed_def by simp blast

lemma enqueue_step_full:
  "enqueue_step x p = Some (y, q) \<Longrightarrow> tp_space_available p = 0 \<Longrightarrow>
     (\<forall>t. x \<noteq> AcquireSpace t) \<and> tp_space_available q = 0"
  by (cases x) (auto split: if_splits)

lemma jammed_step:
  assumes inv: "threads_inv s" and jam: "jammed s" and step: "threads_step s s'"
  shows "jammed s' \<and> executed (th_pool s') = executed (th_pool s)"
proof -
  have sp: "tp_space_available (pool (th_pool s)) = 0" using jam by (simp add: jammed_def)
  have w: "\<exists>cid sid req. workers (th_pool s) ! i = Run (Some (H2Task cid sid req)) \<and> th_phases s ! i = AtLock \<and> th_mutex s cid \<noteq> None"
    if "i < length (workers (th_pool s))" for i using jam that unfolding jammed_def by blast
  from step consider "arrival s s'" | "thread_step s s'" by (auto simp: threads_step_def)
  then show ?thesis
  proof cases
    case 1
    then show ?thesis using sp by (auto elim!: arrivalE intro: jammedI [OF jam])
  next
    case 2
    then show ?thesis
    proof (cases rule: thread_step.cases)
      case (loop i l x mu)
      have li: "th_mutex s cid = Some (LoopThread i) \<longleftrightarrow> (\<exists>ts. th_loops s ! i = Receiving (Some cid) ts)" for cid
        using threads_invD(6) [OF inv loop(2)] by (simp add: loop_inv_def)
      have i: "callers (th_pool s) ! i = Idle" using loop_step_caller(1) [OF loop(3)] .
      have "mu cid = Some (LoopThread j) \<and> (callers (th_pool s))[i := x] ! j = AcquireSpace t"
        if "th_mutex s cid = Some (LoopThread j)" "callers (th_pool s) ! j = AcquireSpace t" for cid j t
        using that i loop_step_inv(3) [OF loop(3) li, of "LoopThread j" cid] by (cases "j = i") auto
      then show ?thesis using loop(1) sp by (intro conjI jammedI [OF jam]) simp_all
    next
      case (enqueue i x p)
      have f: "callers (th_pool s) ! i \<noteq> AcquireSpace t" "tp_space_available p = 0" for t
        using enqueue_step_full [OF enqueue(3) sp] by auto
      have "(callers (th_pool s))[i := x] ! j = AcquireSpace t" if "callers (th_pool s) ! j = AcquireSpace t" for j t
        using that f(1) [of t] by (cases "j = i") auto
      then show ?thesis using enqueue(1) f(2) by (intro conjI jammedI [OF jam]) simp_all
    next
      case (task i t throws ph mu)
      then show ?thesis using w [OF task(2)] by auto
    next
      case (work i x p)
      then show ?thesis using w [OF work(2)] by auto
    qed
  qed
qed

lemma jammed_forever:
  assumes "threads_inv s" "jammed s" "rtranclp threads_step s s'"
  shows "jammed s' \<and> executed (th_pool s') = executed (th_pool s)"
proof -
  from assms(3) have "threads_inv s' \<and> jammed s' \<and> executed (th_pool s') = executed (th_pool s)"
  proof (induction rule: rtranclp_induct)
    case (step s1 s2)
    then show ?case using th.inv_step [of s1 s2] jammed_step [of s1 s2] by simp
  qed (use assms in simp)
  then show ?thesis by simp
qed

section \<open>The pool can jam\<close>

text \<open>
  The run that leads there, in steps of whole calls: event loop 0 is in \<open>processHttp2\<close> of a connection and has
  handed on one request for each thread of the pool; these wait for the mutex; single requests of
  other connections fill the ring; loop 0, with one more request to hand on, waits for a slot. The batch has one
  request more than the pool has threads.
\<close>

definition conf where
  "conf p cs ws st tk ls phs mu =
     \<lparr>th_pool = \<lparr>pool = p, callers = cs, workers = ws, destroyer = NotStarted, stored = st, taken = tk, executed = []\<rparr>,
      th_loops = ls, th_phases = phs, th_mutex = mu\<rparr>"

abbreviation reached :: "'j threads \<Rightarrow> bool" where
  "reached \<equiv> reachable threads_init threads_step"

lemma reached_thread: "reached s \<Longrightarrow> thread_step s s' \<Longrightarrow> reached s'"
  using reachable.next_step [of threads_init threads_step s s'] by (simp add: threads_step_def)

lemma conf_enqueue:
  "reached (conf p cs ws st tk ls phs mu) \<Longrightarrow> i < length cs \<Longrightarrow> enqueue_step (cs ! i) p = Some (y, q) \<Longrightarrow>
   reached (conf q (cs[i := y]) ws (st @ stores (cs ! i)) tk ls phs mu)"
  by (erule reached_thread) (use thread_step.enqueue [of i "conf p cs ws st tk ls phs mu" y q] in \<open>simp add: conf_def\<close>)

lemma conf_loop:
  "reached (conf p cs ws st tk ls phs mu) \<Longrightarrow> i < length ls \<Longrightarrow> loop_step i (ls ! i) (cs ! i) mu = Some (l, x, mu') \<Longrightarrow>
   reached (conf p (cs[i := x]) ws st tk (ls[i := l]) phs mu')"
  by (erule reached_thread) (use thread_step.loop [of i "conf p cs ws st tk ls phs mu" l x mu'] in \<open>simp add: conf_def\<close>)

lemma conf_task:
  "reached (conf p cs ws st tk ls phs mu) \<Longrightarrow> i < length ws \<Longrightarrow> ws ! i = Run (Some t) \<Longrightarrow>
   task_step throws i t (phs ! i) mu = Some (ph, mu') \<Longrightarrow> reached (conf p cs ws st tk ls (phs[i := ph]) mu')"
  by (erule reached_thread) (use thread_step.task [of i "conf p cs ws st tk ls phs mu" t throws ph mu'] in \<open>simp add: conf_def\<close>)

lemma conf_work:
  assumes "reached (conf p cs ws st tk ls phs mu)" "i < length ws" "worker_step (ws ! i) p = Some (x, q)"
    "\<And>t. ws ! i \<noteq> Run t"
  shows "reached (conf q cs (ws[i := x]) st (tk @ takes (ws ! i) p) ls (phs[i := Handling]) mu)"
proof -
  have "runs (ws ! i) = []" using assms(4) by (cases "ws ! i") auto
  with thread_step.work [of i "conf p cs ws st tk ls phs mu" x q] assms(2-) show ?thesis
    by (intro reached_thread [OF assms(1)]) (simp add: conf_def)
qed

lemma conf_batch:
  assumes "reached (conf p cs ws st tk ls phs mu)" "i < length ls" "ls ! i = Polling" "cs ! i = Idle"
  shows "reached (conf p cs ws st tk (ls[i := Locking cid (h2_tasks cid requests)]) phs mu)"
  using assms h2_batch [where i = i and s = "conf p cs ws st tk ls phs mu" and requests = requests and cid = cid]
  by (intro reachable.next_step [OF assms(1)]) (simp add: conf_def threads_step_def)

text \<open>Several actions of one thread in a row: a whole call of \<open>enqueue\<close>, a worker that takes the next task.\<close>

fun caller_run :: "nat \<Rightarrow> 't caller \<Rightarrow> 't ThreadPool \<Rightarrow> ('t caller \<times> 't ThreadPool \<times> 't list) option" where
  "caller_run 0 x p = Some (x, p, [])"
| "caller_run (Suc n) x p =
     (case enqueue_step x p of
        None \<Rightarrow> None
      | Some (y, q) \<Rightarrow> map_option (\<lambda>(z, r, ts). (z, r, stores x @ ts)) (caller_run n y q))"

fun worker_run :: "nat \<Rightarrow> 't worker \<Rightarrow> 't ThreadPool \<Rightarrow> ('t worker \<times> 't ThreadPool \<times> 't option list) option" where
  "worker_run 0 x p = Some (x, p, [])"
| "worker_run (Suc n) (Run y) p = None"
| "worker_run (Suc n) x p =
     (case worker_step x p of
        None \<Rightarrow> None
      | Some (y, q) \<Rightarrow> map_option (\<lambda>(z, r, ts). (z, r, takes x p @ ts)) (worker_run n y q))"

lemma conf_caller_run:
  "reached (conf p cs ws st tk ls phs mu) \<Longrightarrow> i < length cs \<Longrightarrow> caller_run n (cs ! i) p = Some (y, q, ts) \<Longrightarrow>
   reached (conf q (cs[i := y]) ws (st @ ts) tk ls phs mu)"
proof (induction n arbitrary: p cs st ts)
  case (Suc n)
  then obtain x1 p1 ts1 where 1: "enqueue_step (cs ! i) p = Some (x1, p1)" "caller_run n x1 p1 = Some (y, q, ts1)"
    "ts = stores (cs ! i) @ ts1" by (auto split: option.splits)
  from Suc.IH [OF conf_enqueue [OF Suc.prems(1,2) 1(1)], of ts1] 1 Suc.prems(2) show ?case by simp
qed auto

lemma conf_worker_run:
  "reached (conf p cs ws st tk ls phs mu) \<Longrightarrow> i < length ws \<Longrightarrow> worker_run n (ws ! i) p = Some (y, q, ts) \<Longrightarrow>
   phs ! i = Handling \<Longrightarrow> reached (conf q cs (ws[i := y]) st (tk @ ts) ls phs mu)"
proof (induction n arbitrary: p ws tk ts)
  case (Suc n)
  then obtain x1 p1 ts1 where 1: "worker_step (ws ! i) p = Some (x1, p1)" "worker_run n x1 p1 = Some (y, q, ts1)"
    "ts = takes (ws ! i) p @ ts1" "\<And>t. ws ! i \<noteq> Run t" by (cases "ws ! i") (auto split: option.splits)
  have "phs[i := Handling] = phs" using Suc.prems(4) by (metis list_update_id)
  with Suc.IH [of p1 "ws[i := x1]" "tk @ takes (ws ! i) p" ts1] conf_work [OF Suc.prems(1,2) 1(1,4)] 1 Suc.prems(2,4)
  show ?case by simp
qed auto

lemma conf_submit:
  assumes r: "reached (conf p cs ws st tk ls phs mu)" and i: "i < length ls" "i < length cs" "cs ! i = Idle"
    "ls ! i = Receiving m (t # ts)" and p: "\<not> tp_lock p" "0 < tp_space_available p"
  obtains q where "reached (conf q cs ws (st @ [t]) tk (ls[i := Receiving m ts]) phs mu)" "\<not> tp_lock q"
    "tp_space_available q = tp_space_available p - 1" "tp_tasks_available q = tp_tasks_available p + 1" "tp_stop q = tp_stop p"
proof -
  have c: "reached (conf p (cs[i := Count t]) ws st tk (ls[i := Receiving m ts]) phs mu)"
    using conf_loop [OF r i(1)] i by simp
  obtain q where q: "caller_run 7 (Count t) p = Some (Idle, q, [t])" "\<not> tp_lock q"
    "tp_space_available q = tp_space_available p - 1" "tp_tasks_available q = tp_tasks_available p + 1" "tp_stop q = tp_stop p"
    using p by (simp add: eval_nat_numeral)
  have "cs[i := Idle] = cs" using i(3) by (metis list_update_id)
  then show thesis using conf_caller_run [OF c, of i 7] i(2) q by (intro that [of q]) simp_all
qed

text \<open>By the order of the ring, the task taken is the oldest one that waits.\<close>

lemma conf_take:
  assumes r: "reached (conf p cs ws st tk ls phs mu)" and i: "i < length ws" "ws ! i = AcquireTask" "phs ! i = Handling"
    and p: "\<not> tp_lock p" "0 < tp_tasks_available p" "\<not> tp_stop p"
  obtains q where "reached (conf q cs (ws[i := Run (Some (st ! length tk))]) st (tk @ [Some (st ! length tk)]) ls phs mu)"
    "\<not> tp_lock q" "tp_space_available q = tp_space_available p + 1" "tp_tasks_available q = tp_tasks_available p - 1" "\<not> tp_stop q"
proof -
  let ?x = "tp_ring p ! tp_head p"
  obtain q where q: "worker_run 8 AcquireTask p = Some (Run ?x, q, [?x])" "\<not> tp_lock q"
    "tp_space_available q = tp_space_available p + 1" "tp_tasks_available q = tp_tasks_available p - 1" "\<not> tp_stop q"
    using p by (simp add: eval_nat_numeral)
  have s: "reached (conf q cs (ws[i := Run ?x]) st (tk @ [?x]) ls phs mu)"
    using conf_worker_run [OF r i(1), of 8] i q(1) by simp
  have "pool_inv (th_pool (conf q cs (ws[i := Run ?x]) st (tk @ [?x]) ls phs mu))"
    using threads_invD(1) [OF th.reachable_inv [OF s]] .
  then have "tk @ [?x] = map Some (take (length (tk @ [?x])) st)" "length (tk @ [?x]) \<le> length st"
    by (simp_all add: pool_inv_defs conf_def)
  then have "(tk @ [?x]) ! length tk = Some (st ! length tk)" by (metis (no_types) length_append_singleton length_map lessI less_le_trans nth_map nth_take)
  then have "?x = Some (st ! length tk)" by simp
  with s q(2-) show thesis by (intro that [of q]) simp_all
qed

lemma conf_submit_all:
  assumes "reached (conf p cs ws st tk ls phs mu)" "i < length ls" "i < length cs" "cs ! i = Idle"
    "ls ! i = Receiving m (ts @ us)" "\<not> tp_lock p" "length ts \<le> tp_space_available p"
  shows "\<exists>q. reached (conf q cs ws (st @ ts) tk (ls[i := Receiving m us]) phs mu) \<and> \<not> tp_lock q \<and>
    tp_space_available q = tp_space_available p - length ts \<and> tp_tasks_available q = tp_tasks_available p + length ts \<and>
    tp_stop q = tp_stop p"
  using assms
proof (induction ts arbitrary: p st ls)
  case Nil
  then show ?case by (metis append_Nil append_Nil2 add_0_right diff_zero list.size(3) list_update_id)
next
  case (Cons t ts)
  obtain q where q: "reached (conf q cs ws (st @ [t]) tk (ls[i := Receiving m (ts @ us)]) phs mu)" "\<not> tp_lock q"
    "tp_space_available q = tp_space_available p - 1" "tp_tasks_available q = tp_tasks_available p + 1" "tp_stop q = tp_stop p"
    by (rule conf_submit [OF Cons.prems(1-4) _ Cons.prems(6)]) (use Cons.prems in auto)
  from Cons.IH [OF q(1)] q(2-) Cons.prems show ?case by simp
qed

lemma nth_append_replicate: "length xs = n \<Longrightarrow> k \<noteq> 0 \<Longrightarrow> (xs @ replicate k y) ! n = y \<and> (xs @ replicate k y)[n := z] = xs @ z # replicate (k - 1) y"
  by (cases k) (auto simp: nth_append list_update_append)

text \<open>The threads of the pool take the tasks of connection 0, run their handlers and wait for its mutex.\<close>

lemma conf_take_all:
  assumes r: "reached (conf p cs (replicate N AcquireTask) ts [] ls (replicate N Handling) mu)"
    and p: "\<not> tp_lock p" "tp_tasks_available p = length ts" "\<not> tp_stop p" "tp_space_available p = CAPACITY - length ts"
    and ts: "\<forall>t \<in> set ts. \<exists>sid req. t = H2Task 0 sid req" and n: "n \<le> N" "n \<le> length ts" "length ts \<le> CAPACITY"
  shows "\<exists>q. reached (conf q cs (map (\<lambda>t. Run (Some t)) (take n ts) @ replicate (N - n) AcquireTask) ts (map Some (take n ts)) ls
      (replicate n AtLock @ replicate (N - n) Handling) mu) \<and> \<not> tp_lock q \<and> \<not> tp_stop q \<and>
    tp_tasks_available q = length ts - n \<and> tp_space_available q = CAPACITY - length ts + n"
  using n(1,2)
proof (induction n)
  case 0
  then show ?case using r p by (intro exI [of _ p]) simp
next
  case (Suc n)
  let ?ws = "map (\<lambda>t. Run (Some t)) (take n ts) @ replicate (N - n) AcquireTask"
  let ?phs = "replicate n AtLock @ replicate (N - n) Handling"
  obtain q where q: "reached (conf q cs ?ws ts (map Some (take n ts)) ls ?phs mu)" "\<not> tp_lock q" "\<not> tp_stop q"
    "tp_tasks_available q = length ts - n" "tp_space_available q = CAPACITY - length ts + n" using Suc Suc_leD by blast
  have len: "length (map (\<lambda>t. Run (Some t)) (take n ts)) = n" "length (replicate n AtLock) = n" "N - n \<noteq> 0" using Suc.prems by auto
  note w = nth_append_replicate [OF len(1,3)] and ph = nth_append_replicate [OF len(2,3)]
  obtain q' where q': "reached (conf q' cs (?ws[n := Run (Some (ts ! n))]) ts (map Some (take n ts) @ [Some (ts ! n)]) ls ?phs mu)"
    "\<not> tp_lock q'" "tp_space_available q' = tp_space_available q + 1" "tp_tasks_available q' = tp_tasks_available q - 1" "\<not> tp_stop q'"
    by (rule conf_take [OF q(1), of n]) (use q(2-) w ph len Suc.prems in auto)
  obtain sid req where t: "ts ! n = H2Task 0 sid req" using ts Suc.prems by (meson Suc_le_lessD nth_mem)
  have "reached (conf q' cs (?ws[n := Run (Some (ts ! n))]) ts (map Some (take n ts) @ [Some (ts ! n)]) ls (?phs[n := AtLock]) mu)"
    by (rule conf_task [OF q'(1), of n "ts ! n" False]) (use w ph len Suc.prems t in \<open>auto simp: nth_append\<close>)
  then have "reached (conf q' cs (map (\<lambda>t. Run (Some t)) (take (Suc n) ts) @ replicate (N - Suc n) AcquireTask) ts (map Some (take (Suc n) ts)) ls
      (replicate (Suc n) AtLock @ replicate (N - Suc n) Handling) mu)"
    using w ph Suc.prems by (simp add: take_Suc_conv_app_nth replicate_app_Cons_same)
  then show ?case using q q' Suc.prems n(3) by (intro exI [of _ q']) auto
qed

text \<open>Loop 1 fills the ring, each time with a request of another connection.\<close>

lemma conf_fill:
  assumes "reached (conf p cs ws st tk ls phs mu)" "length ls = 2" "length cs = 2" "cs ! 1 = Idle" "ls ! 1 = Polling"
    "\<not> tp_lock p" "\<And>cid. 0 < cid \<Longrightarrow> mu cid = None"
  shows "\<exists>q st'. reached (conf q cs ws st' tk ls phs mu) \<and> \<not> tp_lock q \<and> tp_space_available q = 0"
  using assms(1,6)
proof (induction "tp_space_available p" arbitrary: p st)
  case 0
  then show ?case by metis
next
  case (Suc n)
  let ?cid = "Suc (length st)" and ?r = "[(1, new_request)]"
  have 1: "reached (conf p cs ws st tk (ls[1 := Locking ?cid (h2_tasks ?cid ?r)]) phs mu)"
    by (rule conf_batch [OF Suc.prems(1)]) (use assms in auto)
  have idle: "cs[1 := Idle] = cs" using assms(4) by (metis list_update_id)
  have "reached (conf p cs ws st tk (ls[1 := Receiving (Some ?cid) (h2_tasks ?cid ?r @ [])]) phs (mu(?cid \<mapsto> LoopThread 1)))"
    using conf_loop [OF 1, of 1] assms idle by simp
  from conf_submit_all [OF this, of 1 "Some ?cid" "h2_tasks ?cid ?r" "[]"]
  obtain q where q: "reached (conf q cs ws (st @ h2_tasks ?cid ?r) tk (ls[1 := Receiving (Some ?cid) []]) phs (mu(?cid \<mapsto> LoopThread 1)))"
    "\<not> tp_lock q" "tp_space_available q = tp_space_available p - 1"
    using assms(2-4) Suc.hyps(2) Suc.prems(2) by (auto simp: h2_tasks_def)
  have "mu(?cid := None) = mu" using assms(7) [of ?cid] by (simp add: fun_upd_idem)
  moreover have "ls[1 := Polling] = ls" using assms(5) by (metis list_update_id)
  ultimately have "reached (conf q cs ws (st @ h2_tasks ?cid ?r) tk ls phs mu)"
    using conf_loop [OF q(1), of 1] assms(2-4) idle by simp
  from Suc.hyps(1) [OF _ this q(2)] q(3) Suc.hyps(2) show ?case by simp
qed

lemma jam_reached:
  assumes N: "0 < N" "N \<le> CAPACITY"
  shows "\<exists>s :: 'j threads. reached s \<and> jammed s \<and> length (th_loops s) = 2 \<and> length (workers (th_pool s)) = N"
proof -
  define reqs where "reqs = map (\<lambda>k. (of_nat (2 * k + 1) :: stream_id, new_request :: 'j HttpRequest)) [0..<N]"
  let ?t = "H2Task 0 (of_nat (2 * N + 1)) (new_request :: 'j HttpRequest)" and ?ts = "h2_tasks 0 reqs"
  let ?ws = "replicate N AcquireTask" and ?hs = "replicate N Handling" and ?mu = "[0 \<mapsto> LoopThread 0]"
  have len: "length ?ts = N" "N \<le> CAPACITY" and all: "\<forall>t \<in> set ?ts. \<exists>sid req. t = H2Task 0 sid req"
    using N by (auto simp: reqs_def h2_tasks_def)
  have "reached (conf new_pool [Idle, Idle] ?ws [] [] [Polling, Polling] ?hs Map.empty)"
    by (rule reachable.start) (simp add: threads_init_def pool_init_def conf_def)
  from conf_batch [OF this, where i = 0 and cid = 0 and requests = "reqs @ [(of_nat (2 * N + 1), new_request)]"]
  have "reached (conf new_pool [Idle, Idle] ?ws [] [] [Locking 0 (?ts @ [?t]), Polling] ?hs Map.empty)"
    using N by (simp add: h2_tasks_def reqs_def)
  from conf_loop [OF this, of 0]
  have "reached (conf new_pool [Idle, Idle] ?ws [] [] [Receiving (Some 0) (?ts @ [?t]), Polling] ?hs ?mu)" by simp
  from conf_submit_all [OF this, of 0 "Some 0" ?ts "[?t]"]
  obtain p where p: "reached (conf p [Idle, Idle] ?ws ?ts [] [Receiving (Some 0) [?t], Polling] ?hs ?mu)"
    "\<not> tp_lock p" "tp_space_available p = CAPACITY - N" "tp_tasks_available p = N" "\<not> tp_stop p"
    using len by (auto simp: new_pool_def)
  let ?run = "map (\<lambda>t. Run (Some t)) ?ts" and ?at = "replicate N AtLock"
  from conf_take_all [OF p(1,2) _ p(5) _ all, of N] p(3,4) len
  obtain q where q: "reached (conf q [Idle, Idle] ?run ?ts (map Some ?ts) [Receiving (Some 0) [?t], Polling] ?at ?mu)" "\<not> tp_lock q"
    by auto
  from conf_fill [OF q(1) _ _ _ _ q(2)] obtain r st where
    r: "reached (conf r [Idle, Idle] ?run st (map Some ?ts) [Receiving (Some 0) [?t], Polling] ?at ?mu)" "tp_space_available r = 0"
    by auto
  from conf_loop [OF r(1), of 0]
  have c: "reached (conf r [Count ?t, Idle] ?run st (map Some ?ts) [Receiving (Some 0) [], Polling] ?at ?mu)" by simp
  let ?s = "conf (r\<lparr>tp_pending := tp_pending r + 1\<rparr>) [AcquireSpace ?t, Idle] ?run st (map Some ?ts)
    [Receiving (Some 0) [], Polling] ?at ?mu"
  have "reached ?s" using conf_enqueue [OF c, of 0] by simp
  moreover have "jammed ?s"
    using N(1) r(2) len(1) by (auto simp: jammed_def conf_def h2_tasks_def reqs_def)
  ultimately show ?thesis using len(1) by (intro exI [of _ ?s]) (simp add: conf_def)
qed

end
