(* ===== verification/Http2_Service.thy ===== *)
theory Http2_Service
  imports Request_Service Server_Threads
begin

text \<open>
  From the frames of an HTTP/2 connection to the answers: \<open>handleClientData\<close> and \<open>processHttp2\<close> hand every
  completed stream to the pool, and the task of a stream submits the router's response for it.
\<close>

section \<open>What nghttp2 promises\<close>

text \<open>
  The session decodes the bytes it is given to events, calls the registered callbacks for them in order, and takes
  all bytes as long as the callbacks return 0. \<open>answered\<close> are the responses submitted to a session so far.
\<close>

definition h2_decodes :: "('j, 's, 'h) nghttp2 \<Rightarrow> 'h \<Rightarrow> string \<Rightarrow> h2_event list \<Rightarrow> bool" where
  "h2_decodes h2 h data evs \<longleftrightarrow>
     (\<exists>h'. \<forall>u. nghttp2_session_mem_recv h2 h data h2_callback u = (int (length data), h', h2_run evs u))"

type_synonym h2_answer = "stream_id \<times> (string \<times> string) list \<times> string"

definition h2_ok :: "('j, 's, 'h) nghttp2 \<Rightarrow> ('h \<Rightarrow> h2_answer list) \<Rightarrow> bool" where
  "h2_ok h2 answered \<longleftrightarrow>
     (\<forall>h sid hs b. answered (nghttp2_submit_response h2 h sid hs b) = answered h @ [(sid, hs, b)]) \<and>
     (\<forall>h cb s. answered (fst (snd (nghttp2_session_send h2 h cb s))) = answered h) \<and>
     (\<forall>h d cb u. answered (fst (snd (nghttp2_session_mem_recv h2 h d cb u))) = answered h)"

lemma h2_callback_zero: "fst (h2_callback e u) = 0"
  by (cases e) (simp_all add: h2_cb_defs Let_def)

section \<open>A turn\<close>

abbreviation h2_user_of :: "('j, 's, 'h) ClientConnection \<Rightarrow> 'j h2_user" where
  "h2_user_of c \<equiv> \<lparr>u_streams = h2_streams c, u_tasks = []\<rparr>"

lemma processHttp2_decodes:
  assumes h2: "h2_ok h2 answered" and h: "h2_session c = Some h" and dec: "h2_decodes h2 h (conn_data c) evs"
    and ne: "conn_data c \<noteq> []"
  obtains c' h' where "processHttp2 api h2 c = (c', u_tasks (h2_run evs (h2_user_of c)), Inr ())"
    "h2_session c' = Some h'" "answered h' = answered h" "conn_data c' = []" "h2_streams c' = u_streams (h2_run evs (h2_user_of c))"
proof -
  from dec obtain h1 where r: "\<And>u. nghttp2_session_mem_recv h2 h (conn_data c) h2_callback u =
      (int (length (conn_data c)), h1, h2_run evs u)" by (auto simp: h2_decodes_def)
  then have a1: "answered h1 = answered h" using h2 unfolding h2_ok_def by (metis fst_conv snd_conv)
  obtain rv h2' s' where sd: "nghttp2_session_send h2 h1 (h2_send_cb api) (cc_ssl c) = (rv, h2', s')" using prod_cases3 by blast
  then have a2: "answered h2' = answered h1" using h2 unfolding h2_ok_def by (metis fst_conv snd_conv)
  let ?c = "c\<lparr>h2_session := Some h2', h2_streams := u_streams (h2_run evs (h2_user_of c)), readBuffer := \<lparr>buffer = []\<rparr>, cc_ssl := s'\<rparr>"
  have "processHttp2 api h2 c = (?c, u_tasks (h2_run evs (h2_user_of c)), Inr ())"
    using h ne r sd by (simp add: processHttp2_def conn_data_def Let_def rb_consume_def rb_data_def)
  then show thesis using a1 a2 by (intro that [of ?c h2']) (simp_all add: conn_data_def rb_data_def)
qed

lemma enqueue_h2_tasks:
  "fold (\<lambda>(sid, req) p. enqueue (H2Task cid sid req) (p\<lparr>total_requests := total_requests p + 1\<rparr>)) requests p =
   p\<lparr>use_count := (use_count p)(cid := use_count p cid + length requests), tasks := tasks p @ h2_tasks cid requests,
     total_requests := total_requests p + of_nat (length requests)\<rparr>"
proof (induction requests arbitrary: p)
  case (Cons r rs)
  then show ?case by (cases r) (simp add: enqueue_def h2_tasks_def add.assoc cong: if_cong)
qed (simp add: h2_tasks_def)

lemma h2_turn_dispatches:
  assumes h2: "h2_ok (e_h2 env) answered" and px: "posix_ok (e_os env) opened watched"
    and c: "conns p cid = Some c" "h2_session c = Some h" "conn_data c \<noteq> []" "h2_decodes (e_h2 env) h (conn_data c) evs"
    and fd: "fd \<in> watched (kern p) (epoll_fd (wk_epoll w))"
  obtains p1 c1 h1 where "h2_turn env fd cid (w, p) = ((w, p1), Inr ())"
    "tasks p1 = tasks p @ h2_tasks cid (u_tasks (h2_run evs (h2_user_of c)))" "conns p1 cid = Some c1" "world p1 = world p"
    "h2_session c1 = Some h1" "answered h1 = answered h" "use_count p cid \<le> use_count p1 cid"
    "length (u_tasks (h2_run evs (h2_user_of c))) + use_count p cid \<le> use_count p1 cid"
    "fd \<in> watched (kern p1) (epoll_fd (wk_epoll w))"
proof -
  let ?rs = "u_tasks (h2_run evs (h2_user_of c))"
  obtain c' h' where pr: "processHttp2 (e_ssl env) (e_h2 env) c = (c', ?rs, Inr ())" "h2_session c' = Some h'" "answered h' = answered h"
    by (rule processHttp2_decodes [OF h2 c(2,4,3)])
  let ?p = "p\<lparr>conns := (conns p)(cid \<mapsto> c'), use_count := (use_count p)(cid := use_count p cid + length ?rs),
    tasks := tasks p @ h2_tasks cid ?rs, total_requests := total_requests p + of_nat (length ?rs)\<rparr>"
  have "fd \<in> watched (kern ?p) (epoll_fd (wk_epoll w))" using fd by simp
  then obtain k where k: "rearm env fd REARM (w, ?p) = ((w, ?p\<lparr>kern := k\<rparr>), Inr ())" "same_tables opened watched (kern ?p) k"
    by (rule rearm_watched [OF px])
  have "h2_turn env fd cid (w, p) = rearm env fd REARM (w, ?p)"
    using pr(1) c(1) by (simp add: h2_turn_def eff_bind_def eff_modify_def on_process_def on_conn_def enqueue_h2_tasks)
  with k pr(2,3) fd show thesis
    by (intro that [of "?p\<lparr>kern := k\<rparr>" c' h']) (simp_all add: same_tables_def)
qed

section \<open>A task\<close>

lemma h2_task_answers:
  assumes h2: "h2_ok (e_h2 env) answered" and c: "conns p cid = Some c" "h2_session c = Some h" and use: "1 < use_count p cid"
    and rt: "router_handle (e_router env) req (world p) = (w', Inr (req', res))"
  shows "\<exists>c2 h2'. let q = run_task env (H2Task cid sid req) p in
    conns q cid = Some c2 \<and> h2_session c2 = Some h2' \<and> world q = w' \<and>
    answered h2' = answered h @ [(sid, [('':status'', to_string (status_code (rs_status res)))], rs_body res)]"
proof -
  obtain k1 t1 where 1: "sys_now (e_os env) (kern p) = (k1, t1)" by fastforce
  obtain k2 t2 where 2: "sys_now (e_os env) k1 = (k2, t2)" by fastforce
  let ?h = "nghttp2_submit_response (e_h2 env) h sid [('':status'', to_string (status_code (rs_status res)))] (rs_body res)"
  obtain rv h' s' where sd: "nghttp2_session_send (e_h2 env) ?h (h2_send_cb (e_ssl env)) (cc_ssl c) = (rv, h', s')"
    using prod_cases3 by blast
  have "answered h' = answered ?h" using h2 sd unfolding h2_ok_def by (metis fst_conv snd_conv)
  moreover have "answered ?h = answered h @ [(sid, [('':status'', to_string (status_code (rs_status res)))], rs_body res)]"
    using h2 by (simp add: h2_ok_def)
  ultimately show ?thesis
    using 1 2 c rt sd use
    by (intro exI [of _ "c\<lparr>h2_session := Some h', cc_ssl := s'\<rparr>"] exI [of _ h'])
      (simp add: run_task_def h2_task_body_def eff_bind_def on_kernel_def now_def run_handler_def on_conn_def
        submitHttp2Response_def release_def Let_def)
qed

section \<open>Both together\<close>

text \<open>
  The events of a stream that carries a whole request: its header block, any frames that do not end the stream, such
  as the data frames of a body, and the frame with which it ends.
\<close>

definition whole_request :: "stream_id \<Rightarrow> (string \<times> string) list \<Rightarrow> h2_event list \<Rightarrow> bool" where
  "whole_request sid hs evs \<longleftrightarrow> (\<exists>fs ty flags. (ty = NGHTTP2_HEADERS \<or> ty = NGHTTP2_DATA) \<and>
     flags AND NGHTTP2_FLAG_END_STREAM \<noteq> 0 \<and> (\<forall>(t, fl) \<in> set fs. fl AND NGHTTP2_FLAG_END_STREAM = 0) \<and>
     filter (\<lambda>e. event_stream e = sid) evs = H2_begin_headers NGHTTP2_HEADERS sid # map (\<lambda>(n, v). H2_header sid n v) hs @
       map (\<lambda>(t, fl). H2_frame_recv t fl sid) fs @ [H2_frame_recv ty flags sid])"

definition task_stream :: "stream_id \<Rightarrow> 'j task \<Rightarrow> bool" where
  "task_stream sid t \<longleftrightarrow> (\<exists>cid req. t = H2Task cid sid req)"

lemma whole_request_dispatched:
  assumes "whole_request sid hs evs"
  shows "filter (task_stream sid) (h2_tasks cid (u_tasks (h2_run evs (h2_user_of c)))) =
    [H2Task cid sid (foldl h2_apply new_request hs)]"
proof -
  obtain fs ty flags where f: "ty = NGHTTP2_HEADERS \<or> ty = NGHTTP2_DATA" "flags AND NGHTTP2_FLAG_END_STREAM \<noteq> 0"
    "\<forall>(t, fl) \<in> set fs. fl AND NGHTTP2_FLAG_END_STREAM = 0"
    and evs: "filter (\<lambda>e. event_stream e = sid) evs = H2_begin_headers NGHTTP2_HEADERS sid #
       map (\<lambda>(n, v). H2_header sid n v) hs @ map (\<lambda>(t, fl). H2_frame_recv t fl sid) fs @ [H2_frame_recv ty flags sid]"
    using assms unfolding whole_request_def by blast
  let ?u = "h2_run evs (h2_user_of c)"
  have "stream_view sid ?u = stream_view sid (h2_run (filter (\<lambda>e. event_stream e = sid) evs) (h2_user_of c))"
    by (rule h2_run_isolated) simp
  also have "\<dots> = (None, [foldl h2_apply new_request hs])"
    using h2_request_complete [OF f, of sid hs "h2_user_of c"] unfolding evs by (simp add: stream_view_def)
  finally have "map snd (filter (\<lambda>t. fst t = sid) (u_tasks ?u)) = [foldl h2_apply new_request hs]"
    by (simp add: stream_view_def)
  moreover have "filter (task_stream sid) (h2_tasks cid rs) =
      map (H2Task cid sid) (map snd (filter (\<lambda>t. fst t = sid) rs))" for rs :: "(stream_id \<times> 'a HttpRequest) list"
    by (induction rs) (auto simp: h2_tasks_def task_stream_def)
  ultimately show ?thesis by (simp del: map_map)
qed

lemma http2_answered:
  fixes p :: "('j, 's, 'h, 'w, 'k) process"
  assumes tr: "transport_ok (e_ssl env) avail sent" and px: "posix_ok (e_os env) opened watched"
    and h2: "h2_ok (e_h2 env) answered"
    and c: "map_of (wk_active w) fd = Some cid" "conns p cid = Some c" "handshakeComplete c" "is_http2 c"
      "h2_session c = Some h" "0 < use_count p cid"
    and fd: "fd \<in> watched (kern p) (epoll_fd (wk_epoll w))"
    and dec: "h2_decodes (e_h2 env) h (conn_data c @ avail (cc_ssl c)) evs" "conn_data c @ avail (cc_ssl c) \<noteq> []"
    and whole: "whole_request sid hs evs"
    and rt: "router_handle (e_router env) (foldl h2_apply new_request hs) (world p) = (w', Inr (req', res))"
  shows "\<exists>p1 ts h1 c2 h2'. handleClientData env fd (w, p) = Some ((w, p1), Inr ()) \<and>
    tasks p1 = tasks p @ ts \<and> filter (task_stream sid) ts = [H2Task cid sid (foldl h2_apply new_request hs)] \<and>
    fd \<in> watched (kern p1) (epoll_fd (wk_epoll w)) \<and> map_option h2_session (conns p1 cid) = Some (Some h1) \<and>
    answered h1 = answered h \<and>
    (let q = run_task env (H2Task cid sid (foldl h2_apply new_request hs)) p1 in
     conns q cid = Some c2 \<and> h2_session c2 = Some h2' \<and> world q = w' \<and>
     answered h2' = answered h1 @ [(sid, [('':status'', to_string (status_code (rs_status res)))], rs_body res)])"
proof -
  let ?d = "conn_data c @ avail (cc_ssl c)" and ?req = "foldl h2_apply new_request hs"
  obtain s k t where same: "same_tables opened watched (kern p) k"
    and run: "handleClientData env fd (w, p) =
      (case (if is_http2 c then h2_turn env fd cid else data_loop env fd cid)
         (w, p\<lparr>kern := k, conns := (conns p)(cid \<mapsto> fed t s ?d c)\<rparr>) of
         (st', r) \<Rightarrow> Some (case r of Inl e \<Rightarrow> disconnectClient env fd st' | Inr _ \<Rightarrow> (st', Inr ())))"
    by (rule handleClientData_turn [OF tr px c(1-3)])
  let ?p = "p\<lparr>kern := k, conns := (conns p)(cid \<mapsto> fed t s ?d c)\<rparr>" and ?c = "fed t s ?d c"
  let ?rs = "u_tasks (h2_run evs (h2_user_of ?c))"
  have fc: "conns ?p cid = Some ?c" "h2_session ?c = Some h" "conn_data ?c \<noteq> []" "h2_decodes (e_h2 env) h (conn_data ?c) evs"
    "fd \<in> watched (kern ?p) (epoll_fd (wk_epoll w))"
    using c(5) dec fd same by (simp_all add: same_tables_def) (simp add: fed_def)
  obtain p1 c1 h1 where p1: "h2_turn env fd cid (w, ?p) = ((w, p1), Inr ())" "tasks p1 = tasks ?p @ h2_tasks cid ?rs"
    "conns p1 cid = Some c1" "world p1 = world ?p" "h2_session c1 = Some h1" "answered h1 = answered h"
    "length ?rs + use_count ?p cid \<le> use_count p1 cid" "fd \<in> watched (kern p1) (epoll_fd (wk_epoll w))"
    by (rule h2_turn_dispatches [OF h2 px fc])
  have disp: "filter (task_stream sid) (h2_tasks cid ?rs) = [H2Task cid sid ?req]" by (rule whole_request_dispatched [OF whole])
  then have "?rs \<noteq> []" by (auto simp: h2_tasks_def)
  then have "1 < use_count p1 cid" using p1(7) c(6) by (cases ?rs) auto
  moreover have "router_handle (e_router env) ?req (world p1) = (w', Inr (req', res))" using rt p1(4) by simp
  ultimately obtain c2 h2' where "let q = run_task env (H2Task cid sid ?req) p1 in
      conns q cid = Some c2 \<and> h2_session c2 = Some h2' \<and> world q = w' \<and>
      answered h2' = answered h1 @ [(sid, [('':status'', to_string (status_code (rs_status res)))], rs_body res)]"
    using h2_task_answers [OF h2 p1(3,5)] by blast
  moreover have "handleClientData env fd (w, p) = Some ((w, p1), Inr ())" using run p1(1) c(4) by simp
  ultimately show ?thesis using p1 disp
    by (intro exI [of _ p1] exI [of _ "h2_tasks cid ?rs"] exI [of _ h1] exI [of _ c2] exI [of _ h2']) simp
qed

end
