(* ===== verification/Hand_Over.thy ===== *)
theory Hand_Over
  imports Request_Service Server_System
begin

text \<open>
  Who may touch a connection: the event loop after \<open>epoll_wait\<close> has reported its descriptor, or the task the loop
  handed to the pool. Descriptors are registered with \<open>EPOLLONESHOT\<close>, so a report disarms them, and whoever
  is done re-arms them. The turn is with the kernel while the descriptor is armed and with the pool while a task is
  pending; here is what the operations of \<^verbatim>\<open>src/src/network/TcpServer.cpp\<close> do with it.
\<close>

section \<open>Armed descriptors\<close>

text \<open>
  \<open>armed k e fd\<close>: the instance \<open>e\<close> will report \<open>fd\<close>. A successful change arms a descriptor, removing or closing
  it disarms it, a call that fails and the other calls made here change nothing.
\<close>

definition oneshot_ok :: "'k os \<Rightarrow> ('k \<Rightarrow> int \<Rightarrow> int \<Rightarrow> bool) \<Rightarrow> bool" where
  "oneshot_ok os armed \<longleftrightarrow>
     (\<forall>k. armed (fst (sys_now os k)) = armed k) \<and>
     (\<forall>fd k. armed (fst (sys_shutdown os fd k)) = armed k) \<and>
     (\<forall>fd k e f. armed (fst (sys_close os fd k)) e f = (f \<noteq> fd \<and> armed k e f)) \<and>
     (\<forall>e op fd ev k k' r. sys_epoll_ctl os e op fd ev k = (k', r) \<longrightarrow>
        (\<forall>e' f. armed k' e' f =
           (if r \<noteq> - 1 \<and> e' = e \<and> f = fd then op \<noteq> EPOLL_CTL_DEL else armed k e' f)))"

lemma oneshot_okD:
  assumes "oneshot_ok os armed"
  shows "armed (fst (sys_now os k)) = armed k" "armed (fst (sys_shutdown os fd k)) = armed k"
    "armed (fst (sys_close os fd k)) e f = (f \<noteq> fd \<and> armed k e f)"
    "sys_epoll_ctl os e op fd ev k = (k', r) \<Longrightarrow>
       armed k' e' f = (if r \<noteq> - 1 \<and> e' = e \<and> f = fd then op \<noteq> EPOLL_CTL_DEL else armed k e' f)"
proof -
  note law = assms [unfolded oneshot_ok_def]
  show "armed (fst (sys_now os k)) = armed k" "armed (fst (sys_shutdown os fd k)) = armed k"
    "armed (fst (sys_close os fd k)) e f = (f \<noteq> fd \<and> armed k e f)"
    using law by simp_all
  show "armed k' e' f = (if r \<noteq> - 1 \<and> e' = e \<and> f = fd then op \<noteq> EPOLL_CTL_DEL else armed k e' f)"
    if "sys_epoll_ctl os e op fd ev k = (k', r)"
    using law [THEN conjunct2, THEN conjunct2, THEN conjunct2, rule_format, OF that] .
qed

lemma epoll_modify_armed:
  assumes os: "oneshot_ok os armed" and run: "epoll_modify os ep fd ev k = (k', r)"
  shows "armed k' (epoll_fd ep) fd = (r = Inr () \<or> armed k (epoll_fd ep) fd)"
proof -
  obtain k1 n where c: "sys_epoll_ctl os (epoll_fd ep) EPOLL_CTL_MOD fd (Some \<lparr>ev_events = ev, ev_fd = fd\<rparr>) k = (k1, n)"
    by fastforce
  from run c oneshot_okD(4) [OF os c, of "epoll_fd ep" fd] show ?thesis
    by (auto simp: epoll_modify_def checked_def eff_defs split: if_splits)
qed

lemma epoll_remove_armed:
  assumes os: "oneshot_ok os armed" and run: "epoll_remove os ep fd k = (k', r)"
  shows "armed k' (epoll_fd ep) fd = (r \<noteq> Inr () \<and> armed k (epoll_fd ep) fd)"
proof -
  obtain k1 n where c: "sys_epoll_ctl os (epoll_fd ep) EPOLL_CTL_DEL fd None k = (k1, n)" by fastforce
  from run c oneshot_okD(4) [OF os c, of "epoll_fd ep" fd] show ?thesis
    by (auto simp: epoll_remove_def checked_def eff_defs split: if_splits)
qed

section \<open>The turn of a connection\<close>

text \<open>The tasks that are handed the turn of connection \<open>cid\<close>; those of HTTP/2 are not, they use its mutex.\<close>

fun takes_turn :: "nat \<Rightarrow> 'j task \<Rightarrow> bool" where
  "takes_turn cid (HttpTask ep c req fd keepAlive) = (c = cid)"
| "takes_turn cid (WsTask ep c frame fd) = (c = cid)"
| "takes_turn cid (H2Task c sid req) = False"

definition turns :: "nat \<Rightarrow> ('j, 's, 'h, 'w, 'k) process \<Rightarrow> nat" where
  "turns cid p = cnt (takes_turn cid) (tasks p)"

text \<open>\<open>at_turn armed fd cid a n\<close>: the descriptor is armed, or not, and \<open>n\<close> tasks have the turn.\<close>

definition at_turn ::
  "('k \<Rightarrow> int \<Rightarrow> int \<Rightarrow> bool) \<Rightarrow> int \<Rightarrow> nat \<Rightarrow> bool \<Rightarrow> nat \<Rightarrow> ('j, 's, 'h, 'w, 'k) wstate \<Rightarrow> bool" where
  "at_turn armed fd cid a n st \<longleftrightarrow>
     armed (kern (snd st)) (epoll_fd (wk_epoll (fst st))) fd = a \<and> turns cid (snd st) = n"

definition gone :: "int \<Rightarrow> ('j, 's, 'h, 'w, 'k) wstate \<Rightarrow> bool" where
  "gone fd st \<longleftrightarrow> fd \<notin> fst ` set (wk_active (fst st))"

lemma turn_conn:
  "triple (at_turn armed fd cid a n) (on_process (on_conn cid' g)) (\<lambda>_. at_turn armed fd cid a n) (at_turn armed fd cid a n)"
  by (rule triple_keeps) (auto simp: at_turn_def turns_def on_process_def on_conn_def split: prod.splits option.splits)

lemma turn_rearm:
  assumes "oneshot_ok (e_os env) armed"
  shows "triple (at_turn armed fd cid a n) (rearm env fd ev) (\<lambda>_. at_turn armed fd cid True n) (at_turn armed fd cid a n)"
proof (rule tripleI)
  fix s s' x
  assume "at_turn armed fd cid a n s" "rearm env fd ev s = (s', Inr x)"
  then show "at_turn armed fd cid True n s'"
    using epoll_modify_armed [OF assms] by (fastforce simp: at_turn_def turns_def rearm_def on_process_def on_kernel_def split: prod.splits)
next
  fix s s' e
  assume "at_turn armed fd cid a n s" "rearm env fd ev s = (s', Inl e)"
  then show "at_turn armed fd cid a n s'"
    using epoll_modify_armed [OF assms] by (fastforce simp: at_turn_def turns_def rearm_def on_process_def on_kernel_def split: prod.splits)
qed

lemma release_armed:
  assumes "oneshot_ok os armed" "\<not> armed (kern p) e fd"
  shows "\<not> armed (kern (release os cid p)) e fd" "tasks (release os cid p) = tasks p"
  using assms(2) by (auto simp: release_def socket_close_def oneshot_okD(3) [OF assms(1)] split: option.splits)

lemma turn_disconnect:
  assumes os: "oneshot_ok (e_os env) armed"
  shows "triple (at_turn armed fd cid a n) (disconnectClient env fd)
    (\<lambda>_ st. at_turn armed fd cid False n st \<and> gone fd st) (at_turn armed fd cid a n)"
proof (rule tripleI)
  fix st st' x
  assume t: "at_turn armed fd cid a n st" and run: "disconnectClient env fd st = (st', Inr x)"
  obtain w p where st: "st = (w, p)" by (cases st)
  from run obtain k where k: "epoll_remove (e_os env) (wk_epoll w) fd (kern p) = (k, Inr ())"
    and st': "st' = erase_active (e_os env) fd (w, p\<lparr>kern := k\<rparr>)"
    by (auto simp: st disconnectClient_def eff_bind_def eff_modify_def on_process_def on_kernel_def split: prod.splits sum.splits)
  have "\<not> armed k (epoll_fd (wk_epoll w)) fd" using epoll_remove_armed [OF os k] by simp
  then show "at_turn armed fd cid False n st' \<and> gone fd st'"
    using t release_armed [OF os, of "p\<lparr>kern := k\<rparr>"]
    by (auto simp: st st' at_turn_def turns_def gone_def erase_active_def AList.delete_eq Let_def map_of_eq_None_iff
        split: option.splits)
next
  fix st st' e
  assume t: "at_turn armed fd cid a n st" and run: "disconnectClient env fd st = (st', Inl e)"
  obtain w p where st: "st = (w, p)" by (cases st)
  from run obtain k where k: "epoll_remove (e_os env) (wk_epoll w) fd (kern p) = (k, Inl e)" and st': "st' = (w, p\<lparr>kern := k\<rparr>)"
    by (auto simp: st disconnectClient_def eff_bind_def eff_modify_def on_process_def on_kernel_def split: prod.splits sum.splits)
  show "at_turn armed fd cid a n st'" using t epoll_remove_armed [OF os k] by (simp add: st st' at_turn_def turns_def)
qed

section \<open>HTTP/1.1: the turn is handed on\<close>

lemma turn_upgrade:
  assumes "oneshot_ok (e_os env) armed"
  shows "triple (at_turn armed fd cid a n) (upgrade_turn env fd cid req) (\<lambda>_. at_turn armed fd cid True n) (at_turn armed fd cid a n)"
  unfolding upgrade_turn_def by (intro triple_seq turn_conn turn_rearm assms)

lemma turn_dispatch:
  "triple (at_turn armed fd cid a n) (dispatch_turn env fd cid req) (\<lambda>_. at_turn armed fd cid a (Suc n)) (at_turn armed fd cid a n)"
  unfolding dispatch_turn_def
proof (intro triple_seq turn_conn, goal_cases)
  case (1 x)
  show ?case by (rule triple_keeps) (simp add: at_turn_def turns_def on_process_def eff_modify_def)
next
  case (2 x y)
  show ?case by (rule triple_get) simp
next
  case (3 x y ep)
  show ?case by (rule tripleI) (auto simp: at_turn_def turns_def on_process_def eff_modify_def enqueue_def cnt_def)
qed

text \<open>Where the turn is after the loop had it: with the kernel, with one more task, or nowhere, the client being gone.\<close>

definition turn_over ::
  "('k \<Rightarrow> int \<Rightarrow> int \<Rightarrow> bool) \<Rightarrow> int \<Rightarrow> nat \<Rightarrow> nat \<Rightarrow> ('j, 's, 'h, 'w, 'k) wstate \<Rightarrow> bool" where
  "turn_over armed fd cid n st \<longleftrightarrow>
     at_turn armed fd cid True n st \<or> at_turn armed fd cid False (Suc n) st \<or> at_turn armed fd cid False n st \<and> gone fd st"

lemma turn_http:
  fixes env :: "('j, 's, 'h, 'w, 'k) env"
  assumes os: "oneshot_ok (e_os env) armed"
  shows "triple (at_turn armed fd cid False n) (http_turn env fd cid) (\<lambda>_. turn_over armed fd cid n) (at_turn armed fd cid False n)"
proof -
  have up: "triple (at_turn armed fd cid False n) m (\<lambda>_. turn_over armed fd cid n) (at_turn armed fd cid False n)"
    if "triple (at_turn armed fd cid False n) m R (at_turn armed fd cid False n)" "\<And>x st. R x st \<Longrightarrow> turn_over armed fd cid n st"
    for m :: "(('j, 's, 'h, 'w, 'k) wstate, unit) effect" and R
    using that by (blast intro: triple_conseq)
  note ends = up [OF turn_upgrade [OF os]] up [OF turn_dispatch] up [OF turn_rearm [OF os]] up [OF turn_disconnect [OF os]]
  show ?thesis
    unfolding http_turn_def
  proof (rule triple_seq [OF turn_conn], goal_cases)
    case (1 x)
    obtain req v where x: "x = (req, v)" by (cases x)
    show ?case unfolding x
      by (cases v) (auto intro!: triple_seq turn_conn ends triple_if simp: turn_over_def)
  qed
qed

lemma triple_result:
  "triple P m R E \<Longrightarrow> P s \<Longrightarrow> m s = (s', r) \<Longrightarrow> case r of Inl e \<Rightarrow> E s' | Inr x \<Rightarrow> R x s'"
  by (auto simp: triple_def split: prod.splits sum.splits)

lemma client_body_http:
  assumes os: "oneshot_ok (e_os env) armed" and c: "conns p cid = Some c" "handshakeComplete c" "\<not> is_http2 c" "\<not> is_websocket c"
    and t: "at_turn armed fd cid False n (w, p)" and run: "client_body env fd cid (w, p) = Some (st', r)"
  shows "(case r of Inl e \<Rightarrow> at_turn armed fd cid False n st' | Inr x \<Rightarrow> turn_over armed fd cid n st')"
proof -
  obtain k t0 where now: "sys_now (e_os env) (kern p) = (k, t0)" by fastforce
  let ?c = "updateActivity t0 c"
  from run obtain c' r' where rd: "conn_read (e_ssl env) ?c = Some (c', r')"
    by (auto simp: client_body_def handshake_done [OF c(1,2) now])
  obtain s b where c': "c' = ?c\<lparr>cc_ssl := s, readBuffer := b\<rparr>" using conn_read_frame [OF rd] by auto
  let ?st = "(w, p\<lparr>kern := k, conns := (conns p)(cid \<mapsto> c')\<rparr>)"
  have ka: "armed k = armed (kern p)" using oneshot_okD(1) [OF os, of "kern p"] now by simp
  have t': "at_turn armed fd cid False n ?st" using t ka by (simp add: at_turn_def turns_def)
  have eq: "(st', r) = (case r' of Inl e \<Rightarrow> (?st, Inl e)
      | Inr alive \<Rightarrow> (if alive then http_turn env fd cid ?st else disconnectClient env fd ?st))"
    using run rd c c'
    by (auto simp: client_body_def handshake_done [OF c(1,2) now] after_read_def eff_bind_def on_process_def on_conn_def
        updateActivity_def data_loop_http split: sum.splits if_splits)
  show ?thesis
  proof (cases r')
    case (Inl e)
    then show ?thesis using eq t' by simp
  next
    case (Inr alive)
    show ?thesis
    proof (cases alive)
      case True
      then have "http_turn env fd cid ?st = (st', r)" using eq Inr by simp
      from triple_result [OF turn_http [OF os] t' this] show ?thesis .
    next
      case False
      then have "disconnectClient env fd ?st = (st', r)" using eq Inr by simp
      from triple_result [OF turn_disconnect [OF os] t' this] show ?thesis by (cases r) (simp_all add: turn_over_def)
    qed
  qed
qed

lemma turn_handed_on:
  assumes os: "oneshot_ok (e_os env) armed" and fd: "map_of (wk_active w) fd = Some cid"
    and c: "conns p cid = Some c" "handshakeComplete c" "\<not> is_http2 c" "\<not> is_websocket c"
    and t: "at_turn armed fd cid False n (w, p)" and run: "handleClientData env fd (w, p) = Some (st', r)"
  shows "(case r of Inl e \<Rightarrow> at_turn armed fd cid False n st' | Inr x \<Rightarrow> turn_over armed fd cid n st')"
proof -
  obtain st1 r1 where b: "client_body env fd cid (w, p) = Some (st1, r1)"
    and eq: "(st', r) = (case r1 of Inl e \<Rightarrow> disconnectClient env fd st1 | Inr _ \<Rightarrow> (st1, Inr ()))"
    using run fd by (auto simp: handleClientData_def)
  note 1 = client_body_http [OF os c t b]
  show ?thesis
  proof (cases r1)
    case (Inl e)
    then have t1: "at_turn armed fd cid False n st1" and "disconnectClient env fd st1 = (st', r)" using 1 eq by simp_all
    from triple_result [OF turn_disconnect [OF os] this] show ?thesis by (cases r) (simp_all add: turn_over_def)
  next
    case (Inr x)
    then show ?thesis using 1 eq by simp
  qed
qed

section \<open>A task gives the turn back\<close>

lemma cnt_remove1: "x \<in> set xs \<Longrightarrow> cnt P (remove1 x xs) + of_bool (P x) = cnt P xs"
  by (induction xs) auto

lemma tasks_run_task: "tasks (run_task env t p) = remove1 t (tasks p)"
  by (simp add: run_task_def release_def split: option.splits)

lemma turn_given_back:
  assumes tr: "transport_ok (e_ssl env) avail sent" and px: "posix_ok (e_os env) opened watched"
    and os: "oneshot_ok (e_os env) armed" and c: "conns p cid = Some c" "1 < use_count p cid"
    and rt: "router_handle (e_router env) req (world p) = (w', Inr (req', res))"
    and fd: "fd \<in> watched (kern p) (epoll_fd ep)" and up: "keep_alive req" "running p"
    and t: "http_task ep cid fd req \<in> set (tasks p)"
  shows "let q = run_task env (http_task ep cid fd req) p in
    armed (kern q) (epoll_fd ep) fd \<and> turns cid q + 1 = turns cid p"
proof -
  obtain s k t where same: "same_tables opened watched (kern p) k" and body: "http_task_body env ep cid req fd (keep_alive req) p =
      (let p' = p\<lparr>kern := k, world := w', conns := (conns p)(cid \<mapsto> c\<lparr>cc_ssl := s, lastActivity := t\<rparr>)\<rparr> in
       if keep_alive req \<and> running p
       then eff_bind (on_kernel (epoll_modify (e_os env) ep fd REARM)) (\<lambda>_. eff_return True) p'
       else (p', Inr False))" by (rule http_task_sends [OF tr c(1) rt px])
  have "fd \<in> opened k \<and> fd \<in> watched k (epoll_fd ep)"
    using fd same posix_ok_watched [OF px, of k] by (auto simp: same_tables_def)
  then obtain k' where m: "epoll_modify (e_os env) ep fd REARM k = (k', Inr ())"
    using epoll_modify_same(2) [OF px, where k = k and ep = ep and fd = fd and events = REARM]
    by (cases "epoll_modify (e_os env) ep fd REARM k") auto
  have "kern (run_task env (http_task ep cid fd req) p) = k'"
    using body m up c(2)
    by (simp add: run_task_def http_task_def close_unless_rearmed_def release_def Let_def eff_bind_def on_kernel_def eff_return_def)
  moreover have "armed k' (epoll_fd ep) fd" using epoll_modify_armed [OF os m] by simp
  moreover have "cnt (takes_turn cid) (remove1 (http_task ep cid fd req) (tasks p)) + 1 = turns cid p"
    using cnt_remove1 [OF t, of "takes_turn cid"] by (simp add: turns_def http_task_def)
  ultimately show ?thesis by (simp add: turns_def tasks_run_task)
qed

section \<open>WebSocket: a control frame gives the turn away twice\<close>

text \<open>
  The loop re-arms the descriptor for every control frame and goes on; a data frame that follows in the same
  buffer is handed to the pool, so that the descriptor is armed while a task has the turn.
\<close>

lemma data_loop_messages_armed:
  assumes os: "oneshot_ok (e_os env) armed" and px: "posix_ok (e_os env) opened watched"
    and m: "message_valid m" "wm_opcode m = WsText \<or> wm_opcode m = WsBinary"
  shows "list_all skipped ms \<Longrightarrow> conns p cid = Some c \<Longrightarrow> is_websocket c \<Longrightarrow>
    conn_data c = concat (map message_bytes ms) @ message_bytes m @ x \<Longrightarrow> length (conn_data c) < 2 ^ 62 \<Longrightarrow>
    fd \<in> watched (kern p) (epoll_fd (wk_epoll w)) \<Longrightarrow> data_loop env fd cid (w, p) = (st', r) \<Longrightarrow>
    armed (kern (snd st')) (epoll_fd (wk_epoll w)) fd = (ms \<noteq> [] \<or> armed (kern p) (epoll_fd (wk_epoll w)) fd)"
proof (induction ms arbitrary: p c)
  case Nil
  then have "take_frame c = (c\<lparr>readBuffer := \<lparr>buffer = x\<rparr>\<rparr>, Inr (message_frame m, Complete))"
    using m(1) by (intro take_message) simp_all
  then have "kern (snd (fst (data_loop env fd cid (w, p)))) = kern p"
    using Nil m(2)
    by (subst data_loop.simps) (auto simp: ws_turn_def message_frame_def eff_bind_def eff_get_def eff_return_def eff_modify_def
        on_process_def on_conn_def enqueue_def)
  then show ?case using Nil.prems(7) by simp
next
  case (Cons a ms)
  let ?c = "c\<lparr>readBuffer := \<lparr>buffer = concat (map message_bytes ms) @ message_bytes m @ x\<rparr>\<rparr>"
  let ?p = "p\<lparr>conns := (conns p)(cid \<mapsto> ?c)\<rparr>"
  obtain k where k: "rearm env fd REARM (w, ?p) = ((w, ?p\<lparr>kern := k\<rparr>), Inr ())" "same_tables opened watched (kern p) k"
    using rearm_watched [OF px, of fd ?p w REARM thesis] Cons.prems(6) by simp
  have step: "data_loop env fd cid (w, p) = data_loop env fd cid (w, ?p\<lparr>kern := k\<rparr>)"
    by (rule data_loop_skips [OF _ Cons.prems(2,3) _ Cons.prems(5) k(1)]) (use Cons.prems in simp_all)
  have "armed k (epoll_fd (wk_epoll w)) fd"
    using triple_result [OF turn_rearm [OF os, of fd cid _ "turns cid ?p"] _ k(1)] by (simp add: at_turn_def)
  then show ?case
    using Cons.IH [of "?p\<lparr>kern := k\<rparr>" ?c] Cons.prems k(2) step by (simp add: conn_data_def rb_data_def same_tables_def)
qed

lemma message_turn:
  assumes tr: "transport_ok (e_ssl env) avail sent" and px: "posix_ok (e_os env) opened watched"
    and os: "oneshot_ok (e_os env) armed"
    and c: "map_of (wk_active w) fd = Some cid" "conns p cid = Some c" "handshakeComplete c" "\<not> is_http2 c"
      "is_websocket c" "0 < use_count p cid"
    and fd: "fd \<in> watched (kern p) (epoll_fd (wk_epoll w))" and t: "at_turn armed fd cid False 0 (w, p)"
    and wire: "conn_data c @ avail (cc_ssl c) = concat (map message_bytes ms) @ message_bytes m @ x"
      "length (conn_data c @ avail (cc_ssl c)) < 2 ^ 62" "list_all skipped ms" "message_valid m"
      "wm_opcode m = WsText \<or> wm_opcode m = WsBinary"
  shows "\<exists>st. handleClientData env fd (w, p) = Some (st, Inr ()) \<and> at_turn armed fd cid (ms \<noteq> []) 1 st"
proof -
  let ?d = "conn_data c @ avail (cc_ssl c)"
  obtain p1 where p1: "handleClientData env fd (w, p) = Some ((w, p1), Inr ())"
    "tasks p1 = tasks p @ [WsTask (wk_epoll w) cid (message_frame m) fd]"
    by (rule message_answered [OF tr px c fd wire])
  obtain k t0 where now: "sys_now (e_os env) (kern p) = (k, t0)" by fastforce
  have k: "armed k = armed (kern p)" "same_tables opened watched (kern p) k"
    using oneshot_okD(1) [OF os, of "kern p"] now now_same [OF px, of "kern p"] by (simp_all add: now_def)
  obtain s where r: "conn_read (e_ssl env) (updateActivity t0 c) = Some (fed t0 s ?d c, Inr True)"
    using conn_read_open [OF tr, of "updateActivity t0 c"] by (auto simp: fed_def updateActivity_def conn_data_def)
  let ?p = "p\<lparr>kern := k, conns := (conns p)(cid \<mapsto> fed t0 s ?d c)\<rparr>"
  obtain st r' where dl: "data_loop env fd cid (w, ?p) = (st, r')" by fastforce
  have a: "armed (kern (snd st)) (epoll_fd (wk_epoll w)) fd = (ms \<noteq> [])"
    using data_loop_messages_armed [OF os px wire(4,5,3) _ _ _ _ _ dl, where c = "fed t0 s ?d c" and x = x] c(5) wire(1,2) fd k t
    by (simp add: same_tables_def at_turn_def)
  have "client_body env fd cid (w, p) = Some (st, r')"
    using r c(4) dl
    by (simp add: client_body_def handshake_done [OF c(2,3) now] after_read_def eff_bind_def on_process_def on_conn_def fed_def)
  then have "r' = Inr () \<and> st = (w, p1) \<or> (\<exists>e. r' = Inl e)" using p1(1) c(1) by (cases r') (auto simp: handleClientData_def)
  moreover have "\<nexists>e. r' = Inl e"
    using data_loop_messages [OF px wire(4,5,3), where p = ?p and cid = cid and c = "fed t0 s ?d c" and x = x and fd = fd and w = w] dl c(5) wire(1,2) fd k(2)
    by (auto simp: same_tables_def)
  ultimately show ?thesis using a p1 t by (auto simp: at_turn_def turns_def cnt_def)
qed

end
