(* ===== verification/Service_Samples.thy ===== *)
theory Service_Samples
  imports Samples Http2_Service Hand_Over
begin

text \<open>
  Instances for the statements on HTTP/2 and on the turn of a connection: a session that decodes its bytes to the
  frames of one request, and a kernel that keeps track of the armed descriptors.
\<close>

section \<open>An HTTP/2 session\<close>

definition demo_h2_fields :: "(string \<times> string) list" where
  "demo_h2_fields = [('':method'', ''PUT''), ('':path'', ''/x'')]"

definition demo_h2_frames :: "h2_event list" where
  "demo_h2_frames = [H2_begin_headers NGHTTP2_HEADERS 3, H2_begin_headers NGHTTP2_HEADERS 1, H2_header 1 '':method'' ''PUT'',
     H2_header 3 '':path'' ''/y'', H2_header 1 '':path'' ''/x'', H2_frame_recv NGHTTP2_HEADERS 4 1,
     H2_frame_recv NGHTTP2_DATA 0 1, H2_frame_recv NGHTTP2_HEADERS 5 3, H2_frame_recv NGHTTP2_DATA 1 1]"

definition demo_nghttp2 :: "(unit, string \<times> string, h2_answer list) nghttp2" where
  "demo_nghttp2 = \<lparr>nghttp2_session_server_new = [], nghttp2_submit_settings = \<lambda>h n. h,
     nghttp2_session_mem_recv = \<lambda>h d cb u. (int (length d), h, fold (\<lambda>e u. snd (cb e u)) demo_h2_frames u),
     nghttp2_session_send = \<lambda>h cb s. (0, h, s), nghttp2_submit_response = \<lambda>h sid hs b. h @ [(sid, hs, b)]\<rparr>"

definition demo_h2_env :: "(unit, string \<times> string, h2_answer list, unit, demo_kernel) env" where
  "demo_h2_env = \<lparr>e_os = demo_os, e_ssl = demo_ssl, e_h2 = demo_nghttp2, e_new_ssl = \<lambda>fd k. (k, ([], [])),
     e_SHA1 = \<lambda>s. s, e_EVP_EncodeBlock = \<lambda>s. s, e_router = new_Router\<rparr>"

definition demo_h2_client :: "string \<Rightarrow> (unit, string \<times> string, h2_answer list) ClientConnection" where
  "demo_h2_client bytes = (demo_client bytes)\<lparr>is_http2 := True, h2_session := Some []\<rparr>"

lemma demo_h2_ok: "h2_ok (e_h2 demo_h2_env) (\<lambda>h. h)" "h2_decodes (e_h2 demo_h2_env) h bytes demo_h2_frames"
  by (simp_all add: h2_ok_def h2_decodes_def demo_h2_env_def demo_nghttp2_def h2_run_def)

lemma demo_h2_whole: "whole_request 1 demo_h2_fields demo_h2_frames"
  unfolding whole_request_def
  by (intro exI [of _ "[(NGHTTP2_HEADERS, 4), (NGHTTP2_DATA, 0)]"] exI [of _ NGHTTP2_DATA] exI [of _ "1"])
    (simp add: demo_h2_fields_def demo_h2_frames_def NGHTTP2_FLAG_END_STREAM_def)

lemma demo_h2_env_facts: "transport_ok (e_ssl demo_h2_env) fst snd" "posix_ok (e_os demo_h2_env) demo_opened demo_watched"
  using demo_transport demo_posix by (simp_all add: demo_h2_env_def)

lemma demo_h2_client_facts:
  "handshakeComplete (demo_h2_client bytes)" "is_http2 (demo_h2_client bytes)" "h2_session (demo_h2_client bytes) = Some []"
  "conn_data (demo_h2_client bytes) = []" "cc_ssl (demo_h2_client bytes) = (bytes, [])"
  by (simp_all add: demo_h2_client_def demo_client_def conn_data_def rb_data_def new_connection_def new_ReadBuffer_def)

lemma demo_h2_routed:
  "\<exists>req'. router_handle (e_router demo_h2_env) req w = (w, Inr (req', respond new_response NotFound ''Not Found''))"
  by (simp add: demo_h2_env_def router_handle_def new_Router_def respond_def)

lemma demo_status_text: "to_string 404 = ''404''"
  by code_simp

text \<open>One event loop that has a request of connection 0 to hand on, and one pool thread.\<close>

definition demo_threads :: "unit threads" where
  "demo_threads = conf new_pool [Idle] [AcquireTask] [] [] [Locking 0 [H2Task 0 1 new_request]] [Handling] Map.empty"

lemma demo_threads_reached: "reached demo_threads"
proof -
  have "reached (conf new_pool [Idle] [AcquireTask] [] [] [Polling] [Handling] Map.empty :: unit threads)"
    by (rule reachable.start) (simp add: threads_init_def pool_init_def conf_def)
  from conf_batch [OF this, where i = 0 and cid = 0 and requests = "[(1, new_request)]"] show ?thesis
    by (simp add: demo_threads_def h2_tasks_def)
qed

lemma demo_threads_load: "workers (th_pool demo_threads) \<noteq> []" "executed (th_pool demo_threads) = []"
  "threads_submitted demo_threads = {#H2Task 0 1 new_request#}"
  by (simp_all add: demo_threads_def conf_def threads_submitted_def submitted_def)

section \<open>A kernel with armed descriptors\<close>

text \<open>A kernel as before, and the descriptors armed in an instance.\<close>

type_synonym 'k arming = "'k \<times> (int \<times> int) set"

definition beside :: "('k \<Rightarrow> 'k \<times> 'a) \<Rightarrow> 'k arming \<Rightarrow> 'k arming \<times> 'a" where
  "beside call k = (case call (fst k) of (k', r) \<Rightarrow> ((k', snd k), r))"

definition arming_ctl ::
  "(int \<Rightarrow> epoll_op \<Rightarrow> int \<Rightarrow> epoll_event option \<Rightarrow> 'k \<Rightarrow> 'k \<times> int) \<Rightarrow>
   int \<Rightarrow> epoll_op \<Rightarrow> int \<Rightarrow> epoll_event option \<Rightarrow> 'k arming \<Rightarrow> 'k arming \<times> int" where
  "arming_ctl ctl e opn fd ev k =
     (case ctl e opn fd ev (fst k) of
        (k', r) \<Rightarrow> ((k', if r = - 1 then snd k else if opn = EPOLL_CTL_DEL then snd k - {(e, fd)} else insert (e, fd) (snd k)), r))"

definition arming_os :: "'k os \<Rightarrow> 'k arming os" where
  "arming_os os = \<lparr>sys_socket = beside (sys_socket os), sys_setsockopt = \<lambda>fd opt v. beside (sys_setsockopt os fd opt v),
     sys_bind = \<lambda>fd a. beside (sys_bind os fd a), sys_listen = \<lambda>fd n. beside (sys_listen os fd n),
     sys_accept = \<lambda>fd. beside (sys_accept os fd), sys_getfl = \<lambda>fd. beside (sys_getfl os fd),
     sys_setfl = \<lambda>fd fl. beside (sys_setfl os fd fl), sys_shutdown = \<lambda>fd. beside (sys_shutdown os fd),
     sys_close = \<lambda>fd k. (case sys_close os fd (fst k) of (k', r) \<Rightarrow> ((k', {x \<in> snd k. snd x \<noteq> fd}), r)),
     sys_epoll_create = beside (sys_epoll_create os), sys_epoll_ctl = arming_ctl (sys_epoll_ctl os),
     sys_epoll_wait = \<lambda>e n t. beside (sys_epoll_wait os e n t), sys_errno = \<lambda>k. sys_errno os (fst k),
     sys_strerror = sys_strerror os, sys_now = beside (sys_now os)\<rparr>"

definition is_armed :: "'k arming \<Rightarrow> int \<Rightarrow> int \<Rightarrow> bool" where
  "is_armed k e fd \<longleftrightarrow> (e, fd) \<in> snd k"

lemma arming_oneshot: "oneshot_ok (arming_os os) is_armed"
  by (auto simp: oneshot_ok_def arming_os_def is_armed_def beside_def arming_ctl_def fun_eq_iff split: prod.splits)

lemma beside_laws:
  "allocates opened watched call \<Longrightarrow> allocates (\<lambda>k. opened (fst k)) (\<lambda>k. watched (fst k)) (beside call)"
  "neutral opened watched call \<Longrightarrow> neutral (\<lambda>k. opened (fst k)) (\<lambda>k. watched (fst k)) (beside call)"
  by (auto simp: allocates_def neutral_def same_tables_def beside_def split: prod.splits if_splits)
    (metis fst_conv)+

lemma arming_closes:
  "closes opened watched (sys_close os) \<Longrightarrow>
   closes (\<lambda>k. opened (fst k)) (\<lambda>k. watched (fst k)) (sys_close (arming_os os))"
  by (simp add: closes_def arming_os_def split: prod.splits) (metis fst_conv)

lemma arming_ctl_ok:
  assumes "ctl_ok opened watched ctl"
  shows "ctl_ok (\<lambda>k. opened (fst k)) (\<lambda>k. watched (fst k)) (arming_ctl ctl)"
  unfolding ctl_ok_def
proof (intro allI impI, goal_cases)
  case (1 e opn fd ev k k' r)
  then have "ctl e opn fd ev (fst k) = (fst k', r)" by (auto simp: arming_ctl_def split: prod.splits)
  from assms [unfolded ctl_ok_def, rule_format, OF this] show ?case unfolding same_tables_def .
qed

lemma beside_wait_ok:
  assumes "wait_ok opened watched wait"
  shows "wait_ok (\<lambda>k. opened (fst k)) (\<lambda>k. watched (fst k)) (\<lambda>e n t. beside (wait e n t))"
  unfolding wait_ok_def
proof (intro allI impI, goal_cases)
  case (1 e n t k k' r evs)
  then have "wait e n t (fst k) = (fst k', r, evs)" by (auto simp: beside_def split: prod.splits)
  from assms [unfolded wait_ok_def, rule_format, OF this] show ?case unfolding same_tables_def .
qed

lemma arming_sels [simp]:
  "sys_socket (arming_os os) = beside (sys_socket os)" "sys_epoll_create (arming_os os) = beside (sys_epoll_create os)"
  "sys_accept (arming_os os) fd = beside (sys_accept os fd)" "sys_setsockopt (arming_os os) fd opt v = beside (sys_setsockopt os fd opt v)"
  "sys_bind (arming_os os) fd a = beside (sys_bind os fd a)" "sys_listen (arming_os os) fd n = beside (sys_listen os fd n)"
  "sys_getfl (arming_os os) fd = beside (sys_getfl os fd)" "sys_setfl (arming_os os) fd fl = beside (sys_setfl os fd fl)"
  "sys_shutdown (arming_os os) fd = beside (sys_shutdown os fd)" "sys_now (arming_os os) = beside (sys_now os)"
  "sys_epoll_ctl (arming_os os) = arming_ctl (sys_epoll_ctl os)"
  "sys_epoll_wait (arming_os os) = (\<lambda>e n t. beside (sys_epoll_wait os e n t))"
  by (simp_all add: arming_os_def)

lemma arming_posix:
  "posix_ok os opened watched \<Longrightarrow> posix_ok (arming_os os) (\<lambda>k. opened (fst k)) (\<lambda>k. watched (fst k))"
  unfolding posix_ok_def arming_sels by (elim conjE, intro conjI allI)
    (blast intro: beside_laws arming_closes arming_ctl_ok beside_wait_ok)+

definition demo_arming_env :: "(unit, string \<times> string, unit, unit, demo_kernel arming) env" where
  "demo_arming_env = \<lparr>e_os = arming_os demo_os, e_ssl = demo_ssl, e_h2 = demo_h2, e_new_ssl = \<lambda>fd k. (k, ([], [])),
     e_SHA1 = \<lambda>s. s, e_EVP_EncodeBlock = \<lambda>s. s, e_router = new_Router\<rparr>"

text \<open>The state after \<open>epoll_wait\<close> has reported descriptor 5.\<close>

definition demo_reported :: "(unit, string \<times> string, unit) ClientConnection \<Rightarrow>
    (unit, string \<times> string, unit, unit, demo_kernel arming) process" where
  "demo_reported c = (new_process (\<lparr>dk_open = [5, 4, 3], dk_watch = [(4, 5)], dk_pending = 1, dk_time = 0\<rparr>, {}) ())
     \<lparr>conns := [0 \<mapsto> c], use_count := (\<lambda>_. 0)(0 := 1), next_conn := 1, active_count := 1\<rparr>"

lemma demo_reported_facts:
  "conns (demo_reported c) 0 = Some c" "0 < use_count (demo_reported c) 0"
  "5 \<in> demo_watched (fst (kern (demo_reported c))) (epoll_fd (wk_epoll demo_serving_worker))"
  "at_turn is_armed 5 0 False 0 (demo_serving_worker, demo_reported c)"
  by (simp_all add: demo_reported_def new_process_def demo_watched_def demo_worker_def at_turn_def is_armed_def turns_def)

lemma demo_arming_facts:
  "transport_ok (e_ssl demo_arming_env) fst snd"
  "posix_ok (e_os demo_arming_env) (\<lambda>k. demo_opened (fst k)) (\<lambda>k. demo_watched (fst k))"
  "oneshot_ok (e_os demo_arming_env) is_armed"
  using demo_transport arming_posix [OF demo_posix] arming_oneshot by (simp_all add: demo_arming_env_def)

lemma demo_client_flags:
  "handshakeComplete (demo_client bytes)" "\<not> is_http2 (demo_client bytes)" "\<not> is_websocket (demo_client bytes)"
  by (simp_all add: demo_client_def new_connection_def)

lemma demo_reported_run:
  obtains w p r where "handleClientData demo_arming_env 5 (demo_serving_worker, demo_reported (demo_client bytes)) = Some ((w, p), r)"
proof (rule handleClientData_reads [OF demo_arming_facts(1,2) demo_serving_facts(1) demo_reported_facts(1) [of "demo_client bytes"]
      demo_client_flags(1,2)], goal_cases)
  case (1 s k t)
  from 1(4) obtain y where "handleClientData demo_arming_env 5 (demo_serving_worker, demo_reported (demo_client bytes)) = Some y"
    unfolding case_prod_beta by blast
  then show thesis using that [of "fst (fst y)" "snd (fst y)" "snd y"] by simp
qed

end
