(* ===== verification/Spec2Isabelle.thy ===== *)
theory Spec2Isabelle
  imports Service_Samples
begin

text \<open>
  A model of an HTTP server in C++ (\<^verbatim>\<open>src/src\<close>, \<^verbatim>\<open>src/include/http\<close>) and the theorems that make it correct.

  \<^bold>\<open>The program.\<close> Each worker thread of the server has a listening socket, an epoll instance and a table
  of connections. It accepts clients, does the TLS handshake, reads bytes into the buffer of a
  connection and parses them: as HTTP/1.1 requests, as WebSocket frames after an upgrade, or, through
  nghttp2, as HTTP/2 frames. Requests and frames become tasks of a thread pool, which run the router:
  middlewares, then the first matching route, a controller of the application or the static files.
  The application adds users in MongoDB, JSON web tokens, a rate limit in Redis and a thread that
  broadcasts counters to WebSocket clients.

  \<^bold>\<open>Theories and sources.\<close>
  \<^item> \<open>Http_Prelude\<close>: substrings and searches of \<open>std::string_view\<close>, 64-bit sizes, exceptions, effects on a
    state that may throw with Hoare triples for them; transition systems with invariants, the refinement
    of a specification and systems that come to rest as locales.
  \<^item> \<open>Http_Utils\<close> (\<^verbatim>\<open>http/HttpUtils.cpp\<close>), \<open>Http_Headers\<close> (\<^verbatim>\<open>HttpHeaders.cpp\<close>), \<open>Http_Message\<close>
    (\<^verbatim>\<open>HttpRequest.cpp\<close>, \<^verbatim>\<open>HttpResponse.cpp\<close>): character classes, numbers, percent-decoding, the ordered
    multimap of fields, requests, responses and their serializer.
  \<^item> \<open>Http_Parser\<close> (\<^verbatim>\<open>HttpParser.cpp\<close>): the incremental parser, one definition per handler of its state
    machine; its invariant, its termination, and that fragments make no difference.
  \<^item> \<open>Http_Roundtrip\<close>: requests of every framing as a client writes them, and the proof that the parser reads
    them back.
  \<^item> \<open>Read_Buffer\<close> (\<^verbatim>\<open>network/ReadBuffer.cpp\<close>), an instance of the interface of byte queues, and
    \<open>Client_Connection\<close> (\<^verbatim>\<open>ClientConnection.cpp\<close>): reading, sending, handshake, WebSocket frames, HTTP/2
    callbacks, the invariant of a connection.
  \<^item> \<open>Router\<close> (\<^verbatim>\<open>http/Router.cpp\<close>): path matching, dispatch, static files, WebSocket routes.
  \<^item> \<open>Thread_Pool\<close> (\<^verbatim>\<open>concurrency/ThreadPool.cpp\<close>): the ring buffer, every atomic action of callers, workers
    and the destructor as a step; invariants over all interleavings, the refinement to a bounded queue,
    and that the pool comes to rest.
  \<^item> \<open>Socket_Epoll\<close> (\<^verbatim>\<open>network/Socket.cpp\<close>, \<^verbatim>\<open>Epoll.cpp\<close>): the wrappers of descriptors, what POSIX promises
    about them (\<open>posix_ok\<close>), and the ownership of descriptors by \<open>Socket\<close> objects on a heap.
  \<^item> \<open>Tcp_Server\<close> (\<^verbatim>\<open>network/TcpServer.cpp\<close>, \<^verbatim>\<open>utils/WebSocketUtils.cpp\<close>): worker, event loop, tasks, threads
    and the steps of the whole server; \<open>Tcp_Safety\<close>: the invariant between table, connections, use counts
    and kernel, and that every operation of a worker keeps it; \<open>Server_System\<close>: all workers together,
    and the states from which an exception leaves a thread.
  \<^item> \<open>Server_Threads\<close>: what the threads wait for. The event loops as callers of the pool's ring, the pool's threads with
    the phases of their tasks, and the \<open>h2_mutex_\<close> of each connection, which \<open>processHttp2\<close> and \<open>submitHttp2Response\<close>
    hold; every action on the ring is one of \<open>Thread_Pool\<close>. \<open>arrival\<close> is what clients send, \<open>thread_step\<close> what the threads do.
  \<^item> \<open>Message_Streams\<close>: the contracts of an operation that takes messages from a buffer, met by a connection
    with its requests and with its WebSocket frames; \<open>Request_Service\<close>: a turn of \<open>handleClientData\<close> and the task it
    hands to the pool, from the bytes of the TLS layer to the bytes of the answer; \<open>Http2_Service\<close>: the same for
    a request on an HTTP/2 stream; \<open>Hand_Over\<close>: who may work on a connection whose descriptor is watched with
    \<open>EPOLLONESHOT\<close>, the event loop or the task, and how the turn passes between them.
  \<^item> \<open>App_Services\<close> (\<^verbatim>\<open>utils/\<close> \<open>EnvParser\<close>, \<open>CryptoUtils\<close>, \<open>JwtUtils\<close>, \<open>SslManager\<close>; \<^verbatim>\<open>middlewares/\<close> \<open>AuthMiddleware\<close>,
    \<open>RateLimiter\<close>), \<open>User_Controller\<close> (\<^verbatim>\<open>models/User.hpp\<close>, \<^verbatim>\<open>repositories/UserRepository.cpp\<close>,
    \<^verbatim>\<open>controllers/UserController.cpp\<close>), \<open>Application\<close> (\<^verbatim>\<open>services/TelemetryBroadcaster.cpp\<close>, \<^verbatim>\<open>App.cpp\<close>,
    \<^verbatim>\<open>main.cpp\<close>), \<open>Startup\<close> (\<^verbatim>\<open>utils/Logger.cpp\<close>, \<^verbatim>\<open>database/MongoPool.cpp\<close>, the start in \<^verbatim>\<open>main.cpp\<close>);
    \<open>User_Accounts\<close>: the life of an account from its creation over the login to the use of the token.
  \<^item> \<open>Samples\<close>, \<open>Service_Samples\<close>: concrete instances of all parameters, on which the theorems are exercised.

  \<^bold>\<open>How the code is represented.\<close> Classes are records, enumerations are datatypes; a method is a function
  from the object to the updated object and a result. Exceptions are values of \<open>std_exception\<close> in the left
  of a sum; an operation that changes state and may throw is an \<open>effect\<close>. \<open>size_t\<close> is a 64-bit word where
  it can overflow (chunk sizes, frame lengths, counters) and a natural number where it is bounded by a
  buffer. A \<open>shared_ptr\<close> is an identity of a connection with an exact use count; a weak pointer is an
  identity that may be gone. A closure given to the pool is a value of the datatype \<open>task\<close>.

  Libraries are parameters: records of functions for the system calls (\<open>os\<close>), OpenSSL (\<open>openssl\<close>, \<open>ssl_ctx\<close>),
  nghttp2, the file system, libsodium, jwt-cpp, redis++, the MongoDB driver, spdlog and the JSON library.
  What a theorem needs of them is a named hypothesis (\<open>posix_ok\<close>, \<open>calm_kernel\<close>, \<open>ssl_read_ok\<close>, \<open>ssl_write_ok\<close>,
  \<open>transport_ok\<close>, \<open>oneshot_ok\<close>, \<open>h2_ok\<close> and \<open>h2_decodes\<close>, \<open>redis_ok\<close>, \<open>accounts_ok\<close>, \<open>sodium_ok\<close>, \<open>jwt_ok\<close>) with an
  instance in \<open>Samples\<close> or \<open>Service_Samples\<close>.

  \<^bold>\<open>Interfaces.\<close> Contracts between components are locales, each interpreted on the definitions of the code:
  \<open>header_store\<close> (the fields of a message), \<open>byte_queue\<close> (the read buffer), \<open>message_source\<close> and \<open>framed_source\<close>
  (requests and frames of a connection), \<open>invariant_system\<close> (connections, sockets, the pool, the server),
  \<open>refinement_system\<close> (the pool and its queue of tasks, the threads of the server and the pool) and
  \<open>terminating_system\<close> (the pool and the threads of the server come to rest).

  \<^bold>\<open>Termination.\<close> The parser's loop and the loop over buffered frames are functions with measures. The accept
  loop and \<open>read()\<close> end only if the kernel's queue and the peer's data do: they are partial functions
  into \<open>option\<close>, and it is proved that they return under \<open>finite_backlog\<close> and \<open>ssl_read_ok\<close>. The actions of the
  threads, in any schedule, are bounded by measures on the state (\<open>pool_work\<close>, \<open>threads_work\<close>). Only
  \<open>receive_all\<close>, with which the statement on frames in pieces is made, has a bound, the bytes in the buffer: each
  message takes at least one.

  \<^bold>\<open>What the theorems show.\<close> End to end: a request that has arrived is answered with exactly the router's
  response, on HTTP/1.1 and on HTTP/2, bytes that are no request with 400, an upgrade with 101, a chat message
  with the greeting.
  The parser: agreement on fragments, well-formedness of what completes, round trips, exact numbers.
  Streams: pipelined requests, WebSocket frames in any pieces, isolation of HTTP/2 streams.
  Connections: an invariant of all reachable states, draining reads, bounds of the frame decoder. Routing:
  first match, confinement of static files and how it is broken by a second slash. The pool:
  refinement of a bounded queue, and that it comes to rest with each task run once. The threads: one at a time in
  an HTTP/2 session; all their work ends, or the pool is jammed; it does not jam as long as the unfinished tasks fit
  into the ring and the threads, and beyond that it can, and then for good. The turn on a connection passes between
  loop and task on HTTP/1.1, and control frames break this on WebSockets. The server: while
  tasks settle no exception leaves a thread, each iteration ends and no descriptor leaks; a task that
  closes its connection breaks this, and a request that arrives in two pieces loses its request line.
  The application: authorization, registration and login, rate limit, environment files, telemetry. As lemmas of the
  theories: the order of tasks in the ring, the progress of the parser's loop, a connection accepted over a stale
  entry, the routes that can never run (\<open>Application\<close>) and what a started server presupposes (\<open>Startup\<close>).

  \<^bold>\<open>Not modelled.\<close> Log output; calls in destructors that free library objects; the registration of signal
  handlers; header guards and declarations. In \<open>Tcp_Server\<close> an iteration of a worker and a task are atomic
  and the pool is a list of pending tasks without a bound; the interleaving of their actions, the back-pressure of the
  ring and the mutexes are the subject of \<open>Server_Threads\<close>, which in turn leaves out the data of the connections and,
  while the server runs, the destructor of the pool. So data races on the members of a connection are outside the model;
  where two threads can be at work on one is stated by the theorems on the turn. \<open>calm_step\<close> restricts the server's
  steps to states in which the pending tasks would settle; what happens otherwise is stated by the
  theorems on closing tasks.
\<close>

section \<open>The request parser\<close>

text \<open>
  C4. Fragmentation does not matter: when the bytes of a stream arrive in any pieces and no call
  rejects, the parser, the request and the verdict after the last call are those of one call on
  all the bytes at once.
\<close>

theorem fragments_agree:
  assumes "fs \<noteq> []" and "feed [] new_parser r fs = (p, r', v)" and "v \<noteq> Invalid"
  shows "parse (concat fs) new_parser r = (p, r', v)"
  using feed_not_Invalid [OF assms(2,3,1)] by simp

theorem fragments_agree_witness:
  "\<exists>p. parse (concat [take 4 sample_request, drop 4 sample_request]) new_parser
      (new_request :: unit HttpRequest) =
    (p, request_with POST ''/a?x=1'' sample_fields ''hi'', Complete)"
proof -
  obtain p where p: "parse sample_request new_parser (new_request :: unit HttpRequest) =
      (p, request_with POST ''/a?x=1'' sample_fields ''hi'', Complete)"
    using sample_parse [of "[]"] by auto
  show ?thesis
    using fragments_agree [OF _ trans [OF sample_feed p]] by auto
qed



text \<open>
  C5. Round trip: a request as a client writes it, with Content-Length, with chunked coding or without a body
  of at most 10 MiB, is parsed to exactly that request, whatever follows it in the buffer; the parser
  consumes exactly its bytes, and after \<open>reset\<close> it is a fresh parser for the bytes that follow.
\<close>

theorem request_roundtrip:
  assumes "wire_valid wr"
  shows "\<exists>p. parse (wire_bytes wr @ x) new_parser r = (p, wire_view wr, Complete) \<and>
    drop (consumedBytes p) (wire_bytes wr @ x) = x \<and> parser_reset p = new_parser"
  using parse_wire_request [OF assms, of x r] by (auto simp: parser_reset_new)

theorem request_roundtrip_witness:
  "(\<exists>p. parse (wire_bytes demo_wire @ ''GET'') new_parser (new_request :: unit HttpRequest) =
      (p, request_with POST ''/a?x=1'' sample_fields ''hi'', Complete)) \<and>
   (\<exists>p. parse (wire_bytes demo_wire_chunked @ ''GET'') new_parser (new_request :: unit HttpRequest) =
      (p, request_with POST ''/a'' sample_chunked_fields ''abc'', Complete))"
  using request_roundtrip [OF demo_wire_valid(1), of "''GET''" new_request]
    request_roundtrip [OF demo_wire_valid(2), of "''GET''" new_request]
  by (auto simp: wire_view_def demo_wire_def demo_wire_chunked_def)

text \<open>
  C11. Requests that follow each other on one connection are taken apart: however many valid requests, of
  whatever framings, stand in the buffer, repeated \<open>parseRequest\<close> and \<open>consumeParsedRequest\<close> deliver exactly
  them, in order, and leave what follows the last one.
\<close>

theorem pipelined_requests:
  assumes "list_all wire_valid wrs" and "parser c = new_parser" and "conn_data c = concat (map wire_bytes wrs) @ x"
  shows "\<exists>c'. take_messages next_request (length wrs) c = (map wire_view wrs, c') \<and> conn_data c' = x \<and>
    parser c' = new_parser"
  using requests.take_messages_all [OF _ assms(1) _ assms(3)] assms(2) by (simp add: expects_request_def)

theorem pipelined_requests_witness:
  "\<exists>c'. take_messages next_request 2 (demo_conn (wire_bytes demo_wire @ wire_bytes demo_wire_chunked @ ''GET'')) =
      ([wire_view demo_wire, wire_view demo_wire_chunked], c') \<and> conn_data c' = ''GET''"
  using pipelined_requests [of "[demo_wire, demo_wire_chunked]"
      "demo_conn (wire_bytes demo_wire @ wire_bytes demo_wire_chunked @ ''GET'')" "''GET''"] demo_wire_valid
  by (auto simp: demo_conn_def conn_data_def new_connection_def rb_data_def numeral_2_eq_2)

section \<open>Numbers, names and values on the wire\<close>


section \<open>Responses\<close>

text \<open>
  C33. What the serializer writes, the header parser of the same code base reads back: a status
  line, exactly the stored fields other than Content-Length in their order, one Content-Length that
  is the length of the body, a blank line and the body.
\<close>

theorem serialize_parses_back:
  assumes "list_all valid_field (hdr_all (rs_headers rs))" and "hdr_size (rs_headers rs) < MAX_HEADERS"
    and "rq_headers r = empty_headers"
  shows "\<exists>head. serialize rs = status_line rs @ CRLF @ head @ rs_body rs \<and>
    parseHeaders head r = (Complete, add_fields r (wire_fields rs)) \<and>
    req_headers (add_fields r (wire_fields rs)) ''Content-Length'' = [to_string (length (rs_body rs))]"
proof -
  define head where "head = crlf_lines (map field_line (wire_fields rs)) @ CRLF"
  have "serialize rs = status_line rs @ CRLF @ head @ rs_body rs"
    by (simp add: serialize_lines head_def crlf_lines_Cons)
  moreover have "parseHeaders head r = (Complete, add_fields r (wire_fields rs))"
    using parse_wire_fields [OF assms] by (simp add: head_def)
  moreover have "req_headers (add_fields r (wire_fields rs)) ''Content-Length'' =
      [to_string (length (rs_body rs))]"
    using assms(3) by (rule wire_fields_length)
  ultimately show ?thesis by blast
qed

theorem serialize_parses_back_witness:
  "\<exists>head. serialize (res_json new_response ''{}'') =
      status_line (res_json new_response ''{}'') @ CRLF @ head @ ''{}'' \<and>
    parseHeaders head (new_request :: unit HttpRequest) =
      (Complete, add_fields new_request (wire_fields (res_json new_response ''{}'')))"
proof -
  have "valid_field (''Content-Type'', ''application/json'')" by (simp add: validity_defs)
  then have "list_all valid_field (hdr_all (rs_headers (res_json new_response ''{}'')))"
    "hdr_size (rs_headers (res_json new_response ''{}'')) < MAX_HEADERS"
    by (simp_all add: res_json_def res_setBody_def res_setHeader_def hdr_set_def new_response_def
        empty_headers_def hdr_all_def hdr_size_def MAX_HEADERS_def)
  from serialize_parses_back [OF this, of "new_request :: unit HttpRequest"]
  show ?thesis
    by (auto simp: new_request_def make_request_def res_json_def res_setBody_def)
qed

section \<open>WebSocket frames\<close>



text \<open>
  C29. The decoder never reads past the buffer, although its length check adds in 64 bits: a frame it
  accepts lies in the buffer with its whole payload, and a declared length for which the sum wraps
  around ends in an exception that leaves the connection unchanged.
\<close>

theorem ws_decoder_stays_in_buffer:
  assumes "length (rb_data (readBuffer c)) < 2 ^ 63"
    and "parseWebSocketFrame c fr = (c', fr', res)" and "res \<noteq> Inr Incomplete"
  shows "(\<exists>h. 2 \<le> h \<and> h \<le> 14 \<and> h + length (payload fr') \<le> length (rb_data (readBuffer c)) \<and>
      res = Inr Complete \<and> rb_data (readBuffer c') = drop (h + length (payload fr')) (rb_data (readBuffer c))) \<or>
    (\<exists>e n m k h. res = Inl e \<and> c' = c \<and> declared (rb_data (readBuffer c)) = Some (n, m, k, h) \<and>
      2 ^ 64 \<le> unat n + 14)"
proof (cases "declared (rb_data (readBuffer c))")
  case None
  then show ?thesis using assms parseWebSocketFrame_declared [OF assms(1), of fr] by simp
next
  case (Some r)
  obtain n m k h where r: "r = (n, m, k, h)" by (cases r)
  note b = declared_bounds [OF Some [unfolded r] assms(1)]
  show ?thesis
    using assms(2,3) b parseWebSocketFrame_declared [OF assms(1), of fr] Some r
    by (cases "string_max_size < unat n") (auto simp: Let_def rb_data_def sv_substr_def)
qed

theorem ws_decoder_stays_in_buffer_witness:
  "\<exists>b fr'. parseWebSocketFrame (demo_conn (ws_frame ''hi'' WsText)) \<lparr>fin = False, opcode = WsClose, payload = []\<rparr> =
      ((demo_conn (ws_frame ''hi'' WsText))\<lparr>readBuffer := b\<rparr>, fr', Inr Complete) \<and>
    (\<exists>h. 2 \<le> h \<and> h + length (payload fr') \<le> length (ws_frame ''hi'' WsText))"
proof -
  define c :: "(unit, string \<times> string, unit) ClientConnection" where
    "c = demo_conn (ws_frame ''hi'' WsText)"
  have d: "rb_data (readBuffer c) = ws_frame ''hi'' WsText"
    by (simp add: c_def demo_conn_def new_connection_def rb_data_def)
  have "ws_frame ''hi'' WsText = wire_frame True WsText None ''hi'' @ []"
    using ws_frame_wire [of "''hi''" WsText] by simp
  then obtain b where p: "parseWebSocketFrame c \<lparr>fin = False, opcode = WsClose, payload = []\<rparr> =
      (c\<lparr>readBuffer := b\<rparr>, \<lparr>fin = True, opcode = WsText, payload = ''hi''\<rparr>, Inr Complete)"
    using parse_wire_frame [of WsText None "''hi''" c True "[]"] d
    by (auto simp: wire_ok_def opcode_of_def)
  have "length (rb_data (readBuffer c)) < 2 ^ 63" by (simp add: d ws_frame_def Let_def)
  from ws_decoder_stays_in_buffer [OF this p] show ?thesis
    using p by (auto simp: c_def [symmetric] d)
qed

section \<open>Connections\<close>

text \<open>
  C24. In every state that the server's calls can bring a connection to, the parser's position is
  within the buffer, an HTTP/2 connection has its session, and a connection that does not speak
  HTTP/1.1 has a fresh parser; so giving back the bytes of a parsed request never throws.
\<close>

theorem connection_invariant:
  assumes "reachable conn_init (conn_step api h2) c"
  shows "consumed (parser c) \<le> length (conn_data c) \<and> (is_http2 c \<longrightarrow> h2_session c \<noteq> None) \<and>
    (is_websocket c \<or> is_http2 c \<longrightarrow> parser c = new_parser) \<and>
    (\<exists>b. consumeParsedRequest c = (c\<lparr>readBuffer := b, parser := new_parser\<rparr>, Inr ()) \<and>
      rb_data b = drop (consumedBytes (parser c)) (conn_data c))"
  using conn.reachable_inv [OF assms] consumeParsedRequest_inv [of c]
  by (auto simp: conn_inv_def parser_wf_def http2_ready_def conn_data_def)

theorem connection_invariant_witness:
  "consumeParsedRequest (upgradeToWebSocket (demo_conn []) ''/live'') =
    ((upgradeToWebSocket (demo_conn []) ''/live'')\<lparr>readBuffer := readBuffer (demo_conn []), parser := new_parser\<rparr>,
     Inr ())"
proof -
  have "conn_init (demo_conn [])"
    unfolding conn_init_def
    by (intro exI [of _ 7] exI [of _ "([], [])"] exI [of _ 0])
      (simp add: demo_conn_def new_ReadBuffer_def new_connection_def)
  then have "reachable conn_init (conn_step demo_ssl h2) (upgradeToWebSocket (demo_conn []) ''/live'')" for h2
    using reachable.next_step [of conn_init "conn_step demo_ssl h2" "demo_conn []"]
      reachable.start [of conn_init "demo_conn []"] conn_step.upgrade by blast
  from connection_invariant [OF this] show ?thesis
    by (auto simp: conn_data_def demo_conn_def new_connection_def rb_data_def upgradeToWebSocket_def)
qed

text \<open>
  C35. A read drains the TLS layer: when it returns, every byte that was available is in the buffer,
  in order, behind what was there, and nothing is left, as edge-triggered polling requires. It does
  return.
\<close>

theorem read_drains:
  assumes "ssl_read_ok api avail"
  shows "\<exists>c' res. conn_read api c = Some (c', res) \<and>
    conn_data c' = conn_data c @ avail (cc_ssl c) \<and> avail (cc_ssl c') = []"
proof -
  obtain n ssl' b where "conn_read api c =
      Some (c\<lparr>cc_ssl := ssl', readBuffer := b\<rparr>, read_verdict (SSL_get_error api ssl' n))"
    "rb_data b = rb_data (readBuffer c) @ avail (cc_ssl c)" "avail ssl' = []"
    using conn_read_returns [OF assms, of c] by blast
  then show ?thesis by (simp add: conn_data_def)
qed

theorem read_drains_witness:
  "\<exists>c' res. conn_read demo_ssl (demo_conn [] \<lparr>cc_ssl := (''GET '', [])\<rparr>) = Some (c', res) \<and>
    conn_data c' = ''GET ''"
proof -
  have "\<exists>c' res. conn_read demo_ssl (demo_conn [] \<lparr>cc_ssl := (''GET '', [])\<rparr>) = Some (c', res) \<and>
      conn_data c' = conn_data (demo_conn [] \<lparr>cc_ssl := (''GET '', [])\<rparr>) @ ''GET '' \<and> fst (cc_ssl c') = []"
    using read_drains [OF demo_read_ok, of "demo_conn [] \<lparr>cc_ssl := (''GET '', [])\<rparr>"] by simp
  then show ?thesis by (auto simp: conn_data_def demo_conn_def new_connection_def rb_data_def)
qed

section \<open>HTTP/2\<close>

text \<open>
  C36. Streams of one connection do not interfere: whatever frames of other streams are interleaved,
  the state of a stream and the requests handed to the pool for it are those of its own frames alone.
\<close>

theorem http2_streams_isolated:
  assumes "stream_view sid u = stream_view sid v"
  shows "stream_view sid (h2_run evs u) =
    stream_view sid (h2_run (filter (\<lambda>e. event_stream e = sid) evs) v)"
  using assms by (rule h2_run_isolated)

theorem http2_streams_isolated_witness:
  "stream_view 1 (h2_run [H2_header 3 ''a'' ''b'', H2_header 1 '':path'' ''/x''] demo_user) =
   stream_view 1 (h2_run (filter (\<lambda>e. event_stream e = 1)
     [H2_header 3 ''a'' ''b'', H2_header 1 '':path'' ''/x'']) demo_user)"
  by (rule http2_streams_isolated) simp

text \<open>
  C2. An HTTP/2 request is served: when the bytes that have arrived carry the frames of a whole request on a
  stream, among frames of any other streams, one call of \<open>handleClientData\<close> hands exactly one task for this
  stream to the pool, when the stream ends, with the request of its fields, and re-arms the descriptor; the task
  submits exactly one response, for that stream, with the status and the body of the router's response. The content
  of data frames reaches no callback, so that the request has no body.
\<close>

theorem http2_request_served:
  fixes p :: "('j, 's, 'h, 'w, 'k) process"
  assumes "transport_ok (e_ssl env) avail sent" and "posix_ok (e_os env) opened watched"
    and "h2_ok (e_h2 env) answered"
    and "map_of (wk_active w) fd = Some cid" and "conns p cid = Some c" and "handshakeComplete c" and "is_http2 c"
    and "h2_session c = Some h" and "0 < use_count p cid"
    and "fd \<in> watched (kern p) (epoll_fd (wk_epoll w))"
    and "h2_decodes (e_h2 env) h (conn_data c @ avail (cc_ssl c)) evs" and "conn_data c @ avail (cc_ssl c) \<noteq> []"
    and "whole_request sid hs evs"
    and "router_handle (e_router env) (foldl h2_apply new_request hs) (world p) = (w', Inr (req', res))"
  shows "\<exists>p1 ts h1 c2 h2'. handleClientData env fd (w, p) = Some ((w, p1), Inr ()) \<and>
    tasks p1 = tasks p @ ts \<and> filter (task_stream sid) ts = [H2Task cid sid (foldl h2_apply new_request hs)] \<and>
    fd \<in> watched (kern p1) (epoll_fd (wk_epoll w)) \<and> map_option h2_session (conns p1 cid) = Some (Some h1) \<and>
    answered h1 = answered h \<and>
    (let q = run_task env (H2Task cid sid (foldl h2_apply new_request hs)) p1 in
     conns q cid = Some c2 \<and> h2_session c2 = Some h2' \<and> world q = w' \<and>
     answered h2' = answered h1 @ [(sid, [('':status'', to_string (status_code (rs_status res)))], rs_body res)])"
  using assms by (rule http2_answered)

theorem http2_request_served_witness:
  "\<exists>p1 c2. handleClientData demo_h2_env 5 (demo_serving_worker, demo_serving (demo_h2_client ''frames'') ()) =
      Some ((demo_serving_worker, p1), Inr ()) \<and>
    (let q = run_task demo_h2_env (H2Task 0 1 (foldl h2_apply new_request demo_h2_fields)) p1 in
     conns q 0 = Some c2 \<and> h2_session c2 = Some [(1, [('':status'', ''404'')], ''Not Found'')])"
proof -
  obtain req' where r: "router_handle (e_router demo_h2_env) (foldl h2_apply new_request demo_h2_fields)
      (world (demo_serving (demo_h2_client ''frames'') ())) =
      (world (demo_serving (demo_h2_client ''frames'') ()), Inr (req', respond new_response NotFound ''Not Found''))"
    using demo_h2_routed by blast
  have ne: "conn_data (demo_h2_client ''frames'') @ fst (cc_ssl (demo_h2_client ''frames'')) \<noteq> []"
    by (simp add: demo_h2_client_facts)
  have "rs_body (respond new_response NotFound ''Not Found'') = ''Not Found''"
    "to_string (status_code (rs_status (respond new_response NotFound ''Not Found''))) = ''404''"
    by (simp_all add: respond_def res_setBody_def res_setStatus_def demo_status_text)
  then show ?thesis
    using http2_request_served [OF demo_h2_env_facts demo_h2_ok(1) demo_serving_facts(1,2) demo_h2_client_facts(1-3)
        demo_serving_facts(3,6) demo_h2_ok(2) ne demo_h2_whole r] by (fastforce simp: Let_def)
qed

section \<open>Routing\<close>

text \<open>
  C30. Dispatch: when the global middlewares pass, the first route whose path and method match, and no
  other, runs its middlewares and handler; the request carries the parameters of that route's match.
\<close>

theorem first_matching_route_runs:
  assumes "run_middlewares (global_middlewares rt) req new_response w = (w', Inr (True, req', res'))"
    and "routes rt = pre @ route # post" and "\<forall>q \<in> set pre. \<not> accepts q req'" and "accepts route req'"
  shows "router_handle rt req w = run_route route (scan_params (pre @ [route]) req') res' w'"
  using assms by (simp add: router_handle_def route_loop_first)

theorem first_matching_route_runs_witness:
  "router_handle demo_router (demo_request GET ''/users/42'') () =
    run_route demo_route (scan_params [demo_route] (demo_request GET ''/users/42'')) new_response ()"
  using first_matching_route_runs [of demo_router "demo_request GET ''/users/42''" "()" "()"
      "demo_request GET ''/users/42''" new_response "[]" demo_route "[]"]
  by (simp add: demo_facts accepts_def demo_matches)

text \<open>
  C34. A dynamic route matches a path exactly when it is equal to it or has a parameter and agrees with
  it segment by segment outside its parameters, empty segments ignored; each parameter is then bound
  to the path's segment in its place.
\<close>

theorem dynamic_match_correct:
  "matchDynamicPath route path req =
     (if route = path then (True, req)
      else if segs_match route path
      then (True, set_params req (seg_params (splitPath route (CHR ''/'')) (splitPath path (CHR ''/''))))
      else (False, req)) \<and>
   splitPath path (CHR ''/'') = filter (\<lambda>s. s \<noteq> []) (split_on (CHR ''/'') path)"
  by (simp add: matchDynamicPath_spec splitPath_spec)

text \<open>
  C31. The static file handler stays below its directory: for a path that does not put a second slash
  behind the mount point, its answer depends only on what the file system holds at paths below the
  directory that contain no \<open>..\<close>.
\<close>

theorem file_handler_confined:
  assumes "fs_agree fs fs' (below dir)" and "dir \<noteq> []" and "last dir \<noteq> CHR ''/''"
    and "prefix mp (rq_path req)" and "\<not> prefix (mp @ ''/'') (rq_path req) \<or> rq_path req = mp @ ''/''"
  shows "fileHandler fs mp dir req res w = fileHandler fs' mp dir req res w"
  using assms by (rule fileHandler_confined)

theorem file_handler_confined_witness:
  "fileHandler demo_fs ''/'' ''public'' (demo_request GET ''/a.txt'') new_response () =
   fileHandler (demo_fs\<lparr>fs_exists := \<lambda>w p. if p = ''/etc/passwd'' then Inr False else fs_exists demo_fs w p\<rparr>)
     ''/'' ''public'' (demo_request GET ''/a.txt'') new_response ()"
  by (rule file_handler_confined)
    (auto simp: fs_agree_def below_def demo_request_def make_request_def)

text \<open>
  C40. With a second slash the handler leaves its directory: the rest of the path is taken as an
  absolute path of the file system, so \<open>GET //etc/passwd\<close> on a handler mounted at \<open>/\<close> serves that file.
\<close>

theorem file_handler_escape:
  assumes "rq_path req = mp @ rel" and "rel \<noteq> ''/''" and "prefix ''/'' rel" and "sv_find ''..'' rel = None"
  shows "fileHandler fs mp dir req res w =
    (case serve_path fs rel res w of Inl e \<Rightarrow> (w, Inl e) | Inr res' \<Rightarrow> (w, Inr (req, res')))"
  using assms by (rule fileHandler_escape)

theorem file_handler_escape_witness:
  "\<exists>res'. fileHandler demo_fs ''/'' ''public'' (demo_request GET ''//etc/passwd'') new_response () =
     ((), Inr (demo_request GET ''//etc/passwd'', res')) \<and> rs_status res' = OK \<and> rs_body res' = ''root''"
  using file_handler_escape [of "demo_request GET ''//etc/passwd''" "''/''" "''/etc/passwd''" demo_fs
      "''public''" new_response "()"]
  by (simp add: demo_request_def make_request_def demo_fs_def serve_path_def res_setBody_def
      res_setHeader_def res_setStatus_def)

section \<open>The thread pool\<close>

text \<open>
  C14. The pool implements a bounded queue of tasks: in what its callers and workers do, in every interleaving,
  one sees only that a task is appended while there is room, the oldest waiting task is started, or a
  started task is finished; so at most as many tasks wait as the ring has slots.
\<close>

theorem pool_implements_bounded_queue:
  assumes "reachable pool_init pool_step c"
  shows "reachable queue_init queue_step (pool_view c) \<and> length (tq_waiting (pool_view c)) \<le> CAPACITY \<and>
    (\<forall>c'. pool_step c c' \<longrightarrow> pool_view c' = pool_view c \<or> queue_step (pool_view c) (pool_view c'))"
  using tq.reachable_view [OF assms] pool_queue_bounded [OF assms] pool_refines_queue [OF tp.reachable_inv [OF assms]]
  by (auto simp: pool_view_def)

theorem pool_implements_bounded_queue_witness:
  "reachable queue_init queue_step (pool_view demo_pool) \<and>
   (pool_view (demo_pool\<lparr>callers := [AcquireSpace ''job''], pool := new_pool\<lparr>tp_pending := 1\<rparr>\<rparr>) = pool_view demo_pool \<or>
    queue_step (pool_view demo_pool)
      (pool_view (demo_pool\<lparr>callers := [AcquireSpace ''job''], pool := new_pool\<lparr>tp_pending := 1\<rparr>\<rparr>)))"
proof -
  have "pool_step demo_pool (demo_pool\<lparr>pool := new_pool\<lparr>tp_pending := 1\<rparr>,
      callers := (callers demo_pool)[0 := AcquireSpace ''job''],
      stored := stored demo_pool @ stores (callers demo_pool ! 0)\<rparr>)"
    by (rule pool_step.enqueue) (simp_all add: demo_pool_def new_pool_def)
  then have "pool_step demo_pool (demo_pool\<lparr>callers := [AcquireSpace ''job''], pool := new_pool\<lparr>tp_pending := 1\<rparr>\<rparr>)"
    by (simp add: demo_pool_def)
  with pool_implements_bounded_queue [OF demo_pool_reachable] show ?thesis by blast
qed

text \<open>
  C15. The pool comes to rest: when no new call of \<open>enqueue\<close> begins, whatever the schedule, its threads do only a
  bounded number of actions, and when none of them can act, every call is done, every worker waits, each
  task that was submitted has been run exactly once, and the pending counter is back at zero.
\<close>

theorem pool_drains:
  assumes "reachable pool_init pool_step c" and "\<not> tp_stop (pool c)" and "workers c \<noteq> []"
  shows "(\<forall>n c'. (drain_step ^^ n) c c' \<longrightarrow> n \<le> pool_work c) \<and>
    (\<exists>c'. rtranclp drain_step c c' \<and> (\<forall>c''. \<not> drain_step c' c'')) \<and>
    (\<forall>c'. rtranclp drain_step c c' \<longrightarrow> (\<forall>c''. \<not> drain_step c' c'') \<longrightarrow>
       quiescent c' \<and> mset (executed c') = submitted c \<and> getPendingTaskCount (pool c') = 0)"
proof -
  have inv: "pool_inv c \<and> \<not> tp_stop (pool c) \<and> workers c \<noteq> []" using tp.reachable_inv [OF assms(1)] assms(2,3) by simp
  show ?thesis
    using dr.run_bounded [OF _ inv] dr.comes_to_rest [OF inv] drained [of c] inv
    by (auto simp: getPendingTaskCount_def dest: add_leD1)
qed

theorem pool_drains_witness:
  "\<exists>c'. rtranclp drain_step demo_pool c' \<and> quiescent c' \<and> mset (executed c') = {#''job''#}"
proof -
  have "submitted demo_pool = {#''job''#}" by (simp add: submitted_def demo_pool_def)
  then show ?thesis using pool_drains [OF demo_pool_reachable] by (force simp: demo_pool_def new_pool_def)
qed

section \<open>The threads of the server\<close>

text \<open>
  C16. The HTTP/2 session of a connection is used by one thread at a time, in every interleaving of event loops and
  pool: a thread inside \<open>processHttp2\<close> or \<open>submitHttp2Response\<close> of a connection holds its mutex, and there
  is no second one.
\<close>

theorem sessions_exclusive:
  assumes "reachable threads_init threads_step s" and "in_session s cid h" and "in_session s cid h'"
  shows "h' = h \<and> th_mutex s cid = Some h"
  using assms(2,3) by (simp add: in_session_iff [OF th.reachable_inv [OF assms(1)]])

theorem sessions_exclusive_witness:
  "\<exists>(s :: unit threads) cid j. reachable threads_init threads_step s \<and> in_session s cid (LoopThread j) \<and>
    th_mutex s cid = Some (LoopThread j)"
proof -
  obtain s :: "unit threads" where s: "reachable threads_init threads_step s" "jammed s"
    using jam_reached [of 8] by (auto simp: CAPACITY_def)
  then obtain cid j where "th_mutex s cid = Some (LoopThread j)" unfolding jammed_def by (metis length_greater_0_conv)
  then have "in_session s cid (LoopThread j)" using in_session_iff [OF th.reachable_inv [OF s(1)]] by blast
  with sessions_exclusive [OF s(1) this this] s(1) show ?thesis by blast
qed

text \<open>
  C9. All work of the server ends: when nothing new arrives, event loops and pool do, in every schedule, only a
  bounded number of actions. Where none of them can act any more, everything that was to be handed on
  has been run exactly once and all threads wait for events; or the pool is jammed.
\<close>

theorem server_work_ends:
  assumes "reachable threads_init threads_step s" and "workers (th_pool s) \<noteq> []"
  shows "(\<forall>n s'. (thread_step ^^ n) s s' \<longrightarrow> n \<le> threads_work s) \<and>
    (\<exists>s'. rtranclp thread_step s s' \<and> (\<forall>u. \<not> thread_step s' u)) \<and>
    (\<forall>s'. rtranclp thread_step s s' \<longrightarrow> (\<forall>u. \<not> thread_step s' u) \<longrightarrow>
       at_rest s' \<and> mset (executed (th_pool s')) = threads_submitted s \<or> jammed s')"
proof -
  note inv = th.reachable_inv [OF assms(1)]
  show ?thesis
    using tw.run_bounded [OF _ inv] tw.comes_to_rest [OF inv] work_ends [OF inv assms(2)] by (auto dest: add_leD1)
qed

theorem server_work_ends_witness:
  "\<exists>s'. rtranclp thread_step demo_threads s' \<and>
    (at_rest s' \<and> mset (executed (th_pool s')) = {#H2Task 0 1 new_request#} \<or> jammed s')"
  using server_work_ends [OF demo_threads_reached demo_threads_load(1)] unfolding demo_threads_load by blast

text \<open>
  C10. The load the server bears: when no more tasks are unfinished than the ring has slots and the pool has threads,
  the pool does not jam: every schedule ends with all of them run exactly once.
\<close>

theorem light_load_completes:
  assumes "reachable threads_init threads_step s" and "workers (th_pool s) \<noteq> []"
    and "size (threads_submitted s) \<le> length (executed (th_pool s)) + CAPACITY + length (workers (th_pool s))"
  shows "(\<exists>s'. rtranclp thread_step s s' \<and> (\<forall>u. \<not> thread_step s' u)) \<and>
    (\<forall>s'. rtranclp thread_step s s' \<longrightarrow> (\<forall>u. \<not> thread_step s' u) \<longrightarrow>
       at_rest s' \<and> mset (executed (th_pool s')) = threads_submitted s)"
proof -
  note inv = th.reachable_inv [OF assms(1)]
  show ?thesis using tw.comes_to_rest [OF inv] light_load_ends [OF inv assms(2,3)] by blast
qed

theorem light_load_completes_witness:
  "\<exists>s'. rtranclp thread_step demo_threads s' \<and> at_rest s' \<and> mset (executed (th_pool s')) = {#H2Task 0 1 new_request#}"
proof -
  have "size (threads_submitted demo_threads) \<le> length (executed (th_pool demo_threads)) + CAPACITY + length (workers (th_pool demo_threads))"
    by (simp add: demo_threads_load CAPACITY_def)
  from light_load_completes [OF demo_threads_reached demo_threads_load(1) this] show ?thesis
    unfolding demo_threads_load by blast
qed

text \<open>
  C27. The pool can jam: with two event loops and the eight threads of the pool a state can be reached, with a
  batch of nine requests on one connection and single requests on others, in which the ring is full and every
  thread of the pool waits for the session of a connection whose event loop waits, inside \<open>processHttp2\<close>, for a
  free slot. Whatever happens then, no task is ever run again.
\<close>

theorem pool_can_jam:
  "\<exists>s :: 'j threads. reachable threads_init threads_step s \<and> length (th_loops s) = 2 \<and>
    length (workers (th_pool s)) = 2 * DEFAULT_THREADS \<and> jammed s \<and>
    (\<forall>s'. rtranclp threads_step s s' \<longrightarrow> jammed s' \<and> executed (th_pool s') = executed (th_pool s))"
proof -
  obtain s :: "'j threads" where s: "reachable threads_init threads_step s" "jammed s" "length (th_loops s) = 2"
    "length (workers (th_pool s)) = 2 * DEFAULT_THREADS"
    using jam_reached [of "2 * DEFAULT_THREADS"] by (auto simp: DEFAULT_THREADS_def CAPACITY_def)
  with jammed_forever [OF th.reachable_inv [OF s(1)] s(2)] show ?thesis by blast
qed

theorem pool_can_jam_witness:
  "\<exists>s :: unit threads. reachable threads_init threads_step s \<and> length (workers (th_pool s)) = 8 \<and>
    (\<nexists>s'. rtranclp threads_step s s' \<and> at_rest s')"
  using pool_can_jam [where 'j = unit] jammed_not_at_rest by (auto simp: DEFAULT_THREADS_def)

section \<open>The server\<close>

text \<open>
  C1. A request is served: when the TLS layer holds the bytes of a valid request of any framing, one call of
  \<open>handleClientData\<close> hands exactly that request to the pool, and its task writes exactly the router's
  response, with the Connection field of the request's wish, behind what was sent before. What follows
  the request stays in the buffer, and with keep-alive the descriptor stays watched.
\<close>

theorem request_served:
  fixes p :: "('j, 's, 'h, 'w, 'k) process"
  assumes "transport_ok (e_ssl env) avail sent" and "posix_ok (e_os env) opened watched"
    and "map_of (wk_active w) fd = Some cid" and "conns p cid = Some c" and "speaks_http c" and "0 < use_count p cid"
    and "fd \<in> watched (kern p) (epoll_fd (wk_epoll w))"
    and "wire_valid wr" and "conn_data c @ avail (cc_ssl c) = wire_bytes wr @ x"
    and "\<not> wants_upgrade (wire_view wr :: 'j HttpRequest)"
    and "router_handle (e_router env) (wire_view wr) (world p) = (w', Inr (req', res))"
  shows "\<exists>p1 c2. handleClientData env fd (w, p) = Some ((w, p1), Inr ()) \<and>
    tasks p1 = tasks p @ [http_task (wk_epoll w) cid fd (wire_view wr)] \<and>
    (let q = run_task env (http_task (wk_epoll w) cid fd (wire_view wr)) p1 in
     conns q cid = Some c2 \<and> sent (cc_ssl c2) = sent (cc_ssl c) @ answer (wire_view wr :: 'j HttpRequest) res \<and>
     world q = w' \<and> conn_data c2 = x \<and> speaks_http c2 \<and>
     (keep_alive (wire_view wr :: 'j HttpRequest) \<and> running p \<longrightarrow> fd \<in> watched (kern q) (epoll_fd (wk_epoll w))))"
  using assms by (rule request_answered)

theorem request_served_witness:
  "\<exists>p1 c2. handleClientData demo_env 5 (demo_serving_worker, demo_serving (demo_client (wire_bytes demo_wire @ ''GET'')) ()) =
      Some ((demo_serving_worker, p1), Inr ()) \<and>
    (let q = run_task demo_env (http_task \<lparr>epoll_fd = 4\<rparr> 0 5 (wire_view demo_wire)) p1 in
     conns q 0 = Some c2 \<and> conn_data c2 = ''GET'' \<and>
     snd (cc_ssl c2) = answer (wire_view demo_wire :: unit HttpRequest) (respond new_response NotFound ''Not Found''))"
proof -
  obtain req' where r: "router_handle (e_router demo_env) (wire_view demo_wire) () =
      ((), Inr (req', respond new_response NotFound ''Not Found''))"
    using demo_serving_answer by auto
  show ?thesis
    using request_served [OF demo_env_facts demo_serving_facts(1) demo_serving_facts(2) demo_client_facts(1)
        demo_serving_facts(3) demo_serving_facts(6) demo_wire_valid(1) _ demo_no_upgrade,
        of "wire_bytes demo_wire @ ''GET''" "''GET''" "()" "()" req'] r
    by (auto simp: demo_serving_facts(5) demo_client_facts demo_worker_def Let_def)
qed

text \<open>
  C22. Bytes that the parser rejects are answered with 400: the answer goes out behind what was sent before,
  nothing is handed to the pool, and the client is then disconnected: it leaves the worker's table and is
  no longer watched.
\<close>

theorem bad_request_rejected:
  fixes p :: "('j, 's, 'h, 'w, 'k) process"
  assumes "transport_ok (e_ssl env) avail sent" and "posix_ok (e_os env) opened watched"
    and "map_of (wk_active w) fd = Some cid" and "conns p cid = Some c" and "speaks_http c"
    and "fd \<in> watched (kern p) (epoll_fd (wk_epoll w))"
    and "parse (conn_data c @ avail (cc_ssl c)) new_parser (new_request :: 'j HttpRequest) = (q, req, Invalid)"
  shows "\<exists>p1 c2 st. conns p1 cid = Some c2 \<and> sent (cc_ssl c2) = sent (cc_ssl c) @ serialize bad_request \<and>
    handleClientData env fd (w, p) = Some (st, Inr ()) \<and> disconnectClient env fd (w, p1) = (st, Inr ()) \<and>
    tasks (snd st) = tasks p \<and> fd \<notin> fst ` set (wk_active (fst st)) \<and>
    fd \<notin> watched (kern (snd st)) (epoll_fd (wk_epoll w))"
  using assms by (rule bad_request_answered)

theorem bad_request_rejected_witness:
  "\<exists>p1 c2 st. handleClientData demo_env 5 (demo_serving_worker, demo_serving (demo_client (''BAD'' @ CRLF)) ()) = Some (st, Inr ()) \<and>
    disconnectClient demo_env 5 (demo_serving_worker, p1) = (st, Inr ()) \<and> conns p1 0 = Some c2 \<and>
    snd (cc_ssl c2) = serialize bad_request"
proof -
  obtain q and req :: "unit HttpRequest" where "parse (''BAD'' @ CRLF) new_parser new_request = (q, req, Invalid)"
    using demo_bad_parse by blast
  then show ?thesis
    using bad_request_rejected [OF demo_env_facts demo_serving_facts(1) demo_serving_facts(2) demo_client_facts(1)
        demo_serving_facts(6), of "''BAD'' @ CRLF" q req "()"]
    by (fastforce simp: demo_client_facts)
qed

text \<open>
  C12. A WebSocket upgrade: the answer is 101 with the accept key of the client's key, nothing is handed to the
  pool, and the connection is a WebSocket on the requested path, with what follows the request kept as
  the beginning of its frames.
\<close>

theorem upgrade_accepted:
  fixes p :: "('j, 's, 'h, 'w, 'k) process"
  assumes "transport_ok (e_ssl env) avail sent" and "posix_ok (e_os env) opened watched"
    and "map_of (wk_active w) fd = Some cid" and "conns p cid = Some c" and "speaks_http c"
    and "fd \<in> watched (kern p) (epoll_fd (wk_epoll w))"
    and "wire_valid wr" and "conn_data c @ avail (cc_ssl c) = wire_bytes wr @ x"
    and "wants_upgrade (wire_view wr :: 'j HttpRequest)"
  shows "\<exists>p1 c2. handleClientData env fd (w, p) = Some ((w, p1), Inr ()) \<and> tasks p1 = tasks p \<and>
    conns p1 cid = Some c2 \<and> is_websocket c2 \<and> ws_path c2 = rq_path (wire_view wr :: 'j HttpRequest) \<and>
    conn_data c2 = x \<and> fd \<in> watched (kern p1) (epoll_fd (wk_epoll w)) \<and>
    sent (cc_ssl c2) = sent (cc_ssl c) @ serialize (switching_protocols (generateAcceptKey env
       (req_header (wire_view wr :: 'j HttpRequest) ''Sec-WebSocket-Key'')))"
  using assms by (rule upgrade_answered)

theorem upgrade_accepted_witness:
  "\<exists>p1 c2. handleClientData demo_env 5 (demo_serving_worker, demo_serving (demo_client (wire_bytes demo_upgrade)) ()) =
      Some ((demo_serving_worker, p1), Inr ()) \<and> conns p1 0 = Some c2 \<and> is_websocket c2 \<and>
    snd (cc_ssl c2) = serialize (switching_protocols (generateAcceptKey demo_env ''k''))"
  using upgrade_accepted [OF demo_env_facts demo_serving_facts(1) demo_serving_facts(2) demo_client_facts(1)
      demo_serving_facts(6) demo_upgrade_valid _ demo_upgrade_wanted(1), of "wire_bytes demo_upgrade" "[]" "()"]
  by (auto simp: demo_client_facts demo_upgrade_wanted(2))







text \<open>
  C25. A task that does not keep its connection alive ends the process: it closes the descriptor itself,
  the worker's table keeps the entry, and when the connection has been idle for 30 seconds the sweep
  fails to remove the descriptor from epoll and its exception leaves the worker's thread.
\<close>

theorem closing_task_terminates_loop:
  assumes "posix_ok (e_os env) opened watched" and "server_inv opened watched base sv"
    and "i < length (sv_threads sv)" and "sv_threads sv ! i = Looping w" and "(fd, cid) \<in> set (wk_active w)"
    and "HttpTask ep cid req fd False \<in> set (tasks (sv_process sv))"
    and "p = run_task env (HttpTask ep cid req fd False) (sv_process sv)"
    and "same_tables opened watched (kern p) k" and "epoll_wait (e_os env) (wk_epoll w) 1000 k = (k', Inr [])"
    and "fd \<in> set (snd (collect_idle (e_os env) (conns p) (wk_active w) k'))"
  shows "\<exists>st'. run_iteration env (w, p\<lparr>kern := k\<rparr>) =
    Some (st', Inl (runtime_error ''Failed to remove file descriptor from epoll''))"
  using assms by (rule closing_task_ends_loop)

theorem closing_task_terminates_loop_witness:
  "\<exists>st'. run_iteration demo_env (demo_worker\<lparr>wk_active := [(5, 0)]\<rparr>,
      demo_closed\<lparr>kern := (kern demo_closed)\<lparr>dk_time := 40 * 1000000000\<rparr>\<rparr>) =
    Some (st', Inl (runtime_error ''Failed to remove file descriptor from epoll''))"
proof -
  obtain s where p: "kern demo_closed = \<lparr>dk_open = [4, 3], dk_watch = [(4, 5)], dk_pending = 1, dk_time = 0\<rparr>"
    "conns demo_closed = [0 \<mapsto> new_connection 5 s 0]" by (rule demo_closed_run)
  let ?k = "(kern demo_closed)\<lparr>dk_time := 40 * 1000000000\<rparr>"
  have "epoll_wait demo_os \<lparr>epoll_fd = 4\<rparr> 1000 ?k = (?k, Inr [])"
    by (simp add: p epoll_wait_def demo_os_def demo_events_def)
  moreover have "5 \<in> set (snd (collect_idle demo_os (conns demo_closed) [(5, 0)] ?k))"
    by (simp add: p demo_os_def isIdle_def new_connection_def CONNECTION_TIMEOUT_SECONDS_def)
  moreover have "same_tables demo_opened demo_watched (kern demo_closed) ?k"
    by (simp add: same_tables_def demo_opened_def demo_watched_def fun_eq_iff)
  ultimately show ?thesis
    by (intro closing_task_terminates_loop [OF _ demo_busy_inv, where i = 0 and fd = 5 and cid = 0 and
          ep = "\<lparr>epoll_fd = 4\<rparr>" and req = "demo_request PUT ''/x''"])
      (simp_all add: demo_closed_def demo_env_def demo_posix demo_busy_def demo_worker_def)
qed

text \<open>
  C26. A request that arrives in two pieces loses its request line: when the line was parsed in an earlier
  turn, a turn of the worker hands on no task, or one whose request has no method, path and version.
\<close>

theorem request_line_lost:
  assumes "conns (snd st) cid = Some c" and "state (parser c) \<noteq> StRequestLine"
    and "http_turn env fd cid st = (st', r)"
  shows "tasks (snd st') = tasks (snd st) \<or>
    (\<exists>ep req. tasks (snd st') = tasks (snd st) @ [HttpTask ep cid req fd False] \<and>
       rq_method req = UNKNOWN \<and> rq_path req = [] \<and> rq_version req = [])"
  using assms by (rule http_turn_line_lost)

theorem request_line_lost_witness:
  "\<exists>st :: (unit, string \<times> string, unit, unit, demo_kernel) wstate. st = (demo_worker, (sv_process demo_busy)\<lparr>conns :=
       [0 \<mapsto> (new_connection 5 ([], []) 0)\<lparr>parser := new_parser\<lparr>state := StHeaders\<rparr>\<rparr>]\<rparr>) \<and>
    (tasks (snd (fst (http_turn demo_env 5 0 st))) = tasks (snd st) \<or>
     (\<exists>ep req. tasks (snd (fst (http_turn demo_env 5 0 st))) = tasks (snd st) @ [HttpTask ep 0 req 5 False] \<and>
       rq_method req = UNKNOWN \<and> rq_path req = [] \<and> rq_version req = []))"
  by (intro exI conjI, rule refl, rule request_line_lost [where r = "snd (http_turn demo_env 5 0
        (demo_worker, (sv_process demo_busy)\<lparr>conns :=
          [0 \<mapsto> (new_connection 5 ([], []) 0)\<lparr>parser := new_parser\<lparr>state := StHeaders\<rparr>\<rparr>]\<rparr>))"])
    (simp, simp, simp)

text \<open>
  C13. The turn on a connection is handed on: after a descriptor of an HTTP/1.1 connection was reported, which disarms
  it, a call of \<open>handleClientData\<close> either re-arms it, or hands one task to the pool and leaves it disarmed,
  or the client is gone; never two of them, so that the loop does not touch a connection whose task is pending.
\<close>

theorem turn_handed_over:
  assumes "oneshot_ok (e_os env) armed" and "map_of (wk_active w) fd = Some cid" and "conns p cid = Some c"
    and "handshakeComplete c" and "\<not> is_http2 c" and "\<not> is_websocket c"
    and "\<not> armed (kern p) (epoll_fd (wk_epoll w)) fd" and "turns cid p = 0"
    and "handleClientData env fd (w, p) = Some ((w', p'), r)"
  shows "of_bool (armed (kern p') (epoll_fd (wk_epoll w')) fd) + turns cid p' \<le> 1 \<and>
    (r = Inr () \<and> fd \<in> fst ` set (wk_active w') \<longrightarrow>
       of_bool (armed (kern p') (epoll_fd (wk_epoll w')) fd) + turns cid p' = 1)"
proof -
  have "at_turn armed fd cid False 0 (w, p)" using assms(7,8) by (simp add: at_turn_def)
  from turn_handed_on [OF assms(1-6) this assms(9)] show ?thesis
    by (cases r) (auto simp: turn_over_def at_turn_def gone_def)
qed

theorem turn_handed_over_witness:
  "\<exists>w p r. handleClientData demo_arming_env 5 (demo_serving_worker, demo_reported (demo_client ''GET'')) = Some ((w, p), r) \<and>
    of_bool (is_armed (kern p) (epoll_fd (wk_epoll w)) 5) + turns 0 p \<le> 1"
proof -
  obtain w p r where run: "handleClientData demo_arming_env 5 (demo_serving_worker, demo_reported (demo_client ''GET'')) = Some ((w, p), r)"
    by (rule demo_reported_run)
  have t: "\<not> is_armed (kern (demo_reported (demo_client ''GET''))) (epoll_fd (wk_epoll demo_serving_worker)) 5"
    "turns 0 (demo_reported (demo_client ''GET'')) = 0"
    using demo_reported_facts(4) by (simp_all add: at_turn_def)
  from turn_handed_over [OF demo_arming_facts(3) demo_serving_facts(1) demo_reported_facts(1) demo_client_flags t run] run
  show ?thesis by blast
qed

text \<open>
  C28. On a WebSocket connection the turn is given away twice: when control frames stand before a data frame, a
  call of \<open>handleClientData\<close> hands the data frame to the pool and leaves the descriptor armed, so that the
  loop can work on the connection at the same time as the task; without control frames it does not.
\<close>

theorem control_frame_shares_turn:
  assumes "transport_ok (e_ssl env) avail sent" and "posix_ok (e_os env) opened watched" and "oneshot_ok (e_os env) armed"
    and "map_of (wk_active w) fd = Some cid" and "conns p cid = Some c" and "handshakeComplete c" and "\<not> is_http2 c"
    and "is_websocket c" and "0 < use_count p cid"
    and "fd \<in> watched (kern p) (epoll_fd (wk_epoll w))" and "at_turn armed fd cid False 0 (w, p)"
    and "conn_data c @ avail (cc_ssl c) = concat (map message_bytes ms) @ message_bytes m @ x"
    and "length (conn_data c @ avail (cc_ssl c)) < 2 ^ 62" and "list_all skipped ms" and "message_valid m"
    and "wm_opcode m = WsText \<or> wm_opcode m = WsBinary"
  shows "\<exists>st. handleClientData env fd (w, p) = Some (st, Inr ()) \<and> at_turn armed fd cid (ms \<noteq> []) 1 st"
  using assms by (rule message_turn)

theorem control_frame_shares_turn_witness:
  "\<exists>st. handleClientData demo_arming_env 5 (demo_serving_worker, demo_reported ((demo_client demo_frames)\<lparr>is_websocket := True\<rparr>)) =
      Some (st, Inr ()) \<and> at_turn is_armed 5 0 True 1 st"
proof -
  let ?c = "(demo_client demo_frames)\<lparr>is_websocket := True\<rparr> :: (unit, string \<times> string, unit) ClientConnection"
  have c: "handshakeComplete ?c" "\<not> is_http2 ?c" "is_websocket ?c" using demo_client_flags by simp_all
  have d: "conn_data ?c @ fst (cc_ssl ?c) = demo_frames"
    by (simp add: demo_client_def conn_data_def rb_data_def new_connection_def new_ReadBuffer_def)
  have wire: "conn_data ?c @ fst (cc_ssl ?c) = concat (map message_bytes [demo_ping]) @ message_bytes demo_hello @ []"
    "length (conn_data ?c @ fst (cc_ssl ?c)) < 2 ^ 62" "list_all skipped [demo_ping]"
    "wm_opcode demo_hello = WsText \<or> wm_opcode demo_hello = WsBinary"
    unfolding d using demo_frames_ok(3) demo_frames_parts demo_ping_skipped by simp_all
  from control_frame_shares_turn [OF demo_arming_facts demo_serving_facts(1) demo_reported_facts(1) c demo_reported_facts(2-4)
      wire(1-3) demo_frames_ok(2) wire(4)] show ?thesis by simp
qed

text \<open>
  C23. Ownership of descriptors: whatever \<open>Socket\<close> objects are created, moved, assigned, closed and
  destroyed, no two objects hold the same descriptor, and the open descriptors are those that were open
  before and those some object holds: none leaks and none is closed twice.
\<close>

theorem socket_ownership:
  assumes "reachable (sockets_init os opened watched base) (sockets_step os) st"
  shows "sole_owner (holds (sk_heap st)) \<and> base \<inter> owned st = {} \<and> opened (sk_kernel st) = base \<union> owned st"
  using sk.reachable_inv [OF assms] by (simp add: sockets_inv_def)

theorem socket_ownership_witness:
  "demo_opened (demo_k0\<lparr>dk_open := [3]\<rparr>) =
    {} \<union> owned \<lparr>sk_kernel = demo_k0\<lparr>dk_open := [3]\<rparr>, sk_heap = [0 \<mapsto> Socket_of 3]\<rparr>"
proof -
  let ?st = "\<lparr>sk_kernel = demo_k0, sk_heap = Map.empty\<rparr>"
  have "create_tcp demo_os demo_k0 = (demo_k0\<lparr>dk_open := [3]\<rparr>, Inr (Socket_of 3))"
    by (simp add: create_tcp_def checked_def eff_defs demo_os_def demo_alloc_def demo_fresh_def demo_k0_def)
  then have "sockets_step demo_os ?st (?st\<lparr>sk_kernel := demo_k0\<lparr>dk_open := [3]\<rparr>, sk_heap := (sk_heap ?st)(0 \<mapsto> Socket_of 3)\<rparr>)"
    by (intro sockets_step.create) simp_all
  moreover have "reachable (sockets_init demo_os demo_opened demo_watched {}) (sockets_step demo_os) ?st"
    by (rule reachable.start) (simp add: sockets_init_def demo_posix demo_opened_def demo_k0_def)
  ultimately have "reachable (sockets_init demo_os demo_opened demo_watched {}) (sockets_step demo_os)
      (?st\<lparr>sk_kernel := demo_k0\<lparr>dk_open := [3]\<rparr>, sk_heap := (sk_heap ?st)(0 \<mapsto> Socket_of 3)\<rparr>)"
    by (rule reachable.next_step [rotated])
  from socket_ownership [OF this] show ?thesis by simp
qed



section \<open>The application\<close>



text \<open>
  C18. A login succeeds only with the password: a response 200 means that the body named a user of the
  database with a stored hash, that the hash verifies the given password, and that the token in the
  response is the one signed for this user's id and role.
\<close>

theorem login_needs_password:
  assumes "loginUser b req res w = (w', Inr (req', res'))" and "rs_status res' = OK"
  shows "\<exists>document name password u w1.
    extractJson (b_json b) req res = (res, Some document) \<and>
    json_string (b_json b) document ''name'' = Inr name \<and>
    json_string (b_json b) document ''password'' = Inr password \<and>
    repo_findByUsername (b_mongo b) name w = (w1, Inr (Some u)) \<and> u_password_hash u \<noteq> [] \<and>
    so_pwhash_str_verify (b_sodium b) (cstr (u_password_hash u)) password = 0 \<and>
    res' = reply res OK (token_json (generateToken (b_jwt b) (u_id u) (u_role u) w'))"
  using assms by (rule loginUser_ok) blast

theorem login_needs_password_witness:
  "\<exists>u w1. repo_findByUsername demo_mongo ''ann'' \<lparr>tb_clients = []\<rparr> = (w1, Inr (Some u)) \<and> u_password_hash u \<noteq> []"
  using login_needs_password [OF demo_login_ok [of "\<lparr>tb_clients = []\<rparr>"]]
  by (auto simp: demo_backends_def demo_login_def extractJson_def json_string_def demo_json_api_def)

text \<open>
  C19. Who registers can log in: after a registration that was answered 201 under a name that was not taken, a
  login with the same name and password is answered 200 with a token that verifies for 24 hours, lets
  every guarded handler run in that time, and is refused afterwards.
\<close>

theorem registered_user_authorized:
  fixes b :: "('w, 'd, 'j, 't) backends"
  assumes "accounts_ok (b_mongo b) users" and "sodium_ok (b_sodium b) users" and "jwt_ok (b_jwt b)"
    and "createUser b req res w = (w1, Inr (req', res'))" and "rs_status res' = Created"
    and "extractJson (b_json b) req res = (res, Some document)"
    and "json_string (b_json b) document ''name'' = Inr name"
    and "json_string (b_json b) document ''password'' = Inr password"
    and "\<forall>h r. (name, h, r) \<notin> set (users w)"
    and "extractJson (b_json b) req2 res2 = (res2, Some document2)"
    and "js_contains (b_json b) document2 ''name''" and "js_contains (b_json b) document2 ''password''"
    and "json_string (b_json b) document2 ''name'' = Inr name"
    and "json_string (b_json b) document2 ''password'' = Inr password"
  shows "\<exists>w2 token i. loginUser b req2 res2 w1 = (w2, Inr (req2, reply res2 OK (token_json token))) \<and>
    (\<forall>w3. getSecret (b_jwt b) w3 = getSecret (b_jwt b) w2 \<longrightarrow> jw_now (b_jwt b) w2 \<le> jw_now (b_jwt b) w3 \<longrightarrow>
      verifyToken (b_jwt b) token w3 =
        (if jw_now (b_jwt b) w3 \<le> jw_now (b_jwt b) w2 + 24 * 3600 then Some i else None) \<and>
      (\<forall>handler req3 res3. req_header req3 ''Authorization'' = ''Bearer '' @ token \<longrightarrow>
        jw_now (b_jwt b) w3 \<le> jw_now (b_jwt b) w2 + 24 * 3600 \<longrightarrow>
        guarded (b_jwt b) handler (req3 :: 'j HttpRequest) res3 w3 = handler req3 res3 w3))"
  using assms by (rule registered_user_logs_in)

theorem registered_user_authorized_witness:
  "\<exists>w2 token i. loginUser demo_accounts demo_login new_response [(''ann'', ''h:pw'', ''user'')] =
      (w2, Inr (demo_login, reply new_response OK (token_json token))) \<and>
    verifyToken demo_jwt token w2 = Some i"
proof -
  have ok: "accounts_ok (b_mongo demo_accounts) (\<lambda>w. w)" "sodium_ok (b_sodium demo_accounts) (\<lambda>w. w)"
    "jwt_ok (b_jwt demo_accounts)" "b_jwt demo_accounts = demo_jwt"
    using demo_accounts_ok by (simp_all add: demo_accounts_def)
  have made: "rs_status (reply new_response Created ''{\"status\": \"success\", \"message\": \"User added!\"}'') = Created"
    and fresh: "\<forall>h r. (''ann'', h, r) \<notin> set []" by simp_all
  obtain w2 token i where login: "loginUser demo_accounts demo_login new_response [(''ann'', ''h:pw'', ''user'')] =
      (w2, Inr (demo_login, reply new_response OK (token_json token)))"
    and accepted: "\<forall>w3 :: (string \<times> string \<times> string) list. getSecret demo_jwt w3 = getSecret demo_jwt w2 \<longrightarrow>
      jw_now demo_jwt w2 \<le> jw_now demo_jwt w3 \<longrightarrow> verifyToken demo_jwt token w3 =
        (if jw_now demo_jwt w3 \<le> jw_now demo_jwt w2 + 24 * 3600 then Some i else None)"
    using registered_user_authorized [OF ok(1-3) demo_created made demo_login_fields(1,4,5) fresh demo_login_fields,
        unfolded ok(4)] by blast
  from accepted [rule_format, of w2] have "verifyToken demo_jwt token w2 = Some i" by simp
  with login show ?thesis by blast
qed

text \<open>
  C37. The rate limit: of any sequence of requests of one client within a window exactly those pass that
  find the counter below the limit, so a client passes at most \<open>limit\<close> requests.
\<close>

theorem rate_limit_window:
  assumes "redis_ok rd counter" and "\<And>req. req \<in> set reqs \<Longrightarrow> rate_key req = key"
  shows "fst (limited (RateLimiter_create rd limit window) reqs w) =
    map (\<lambda>i. counter w key + int i < limit) [0..<length reqs]"
  using assms by (rule limited_window)

theorem rate_limit_window_witness:
  "fst (limited (RateLimiter_create demo_redis 2 10) (replicate 3 (new_request :: unit HttpRequest)) (\<lambda>_. 0)) =
    [True, True, False]"
  using rate_limit_window [OF demo_redis_ok, of "replicate 3 (new_request :: unit HttpRequest)"
      "rate_key (new_request :: unit HttpRequest)" 2 10 "\<lambda>_. 0"]
  by (simp add: upt_rec)

text \<open>
  C38. Environment files: a file printed with one quoted assignment per line is read back to exactly
  these variables, later lines overriding earlier ones.
\<close>

theorem env_file_roundtrip:
  assumes "\<And>k v. (k, v) \<in> set kvs \<Longrightarrow> env_key k \<and> env_value v"
  shows "EnvParser_load (Some (concat (map (\<lambda>kv. env_entry kv @ [LF]) kvs))) vars = fold set_var kvs vars"
  using assms by (rule EnvParser_roundtrip)

theorem env_file_roundtrip_witness:
  "EnvParser_load (Some (concat (map (\<lambda>kv. env_entry kv @ [LF]) [(''PORT'', ''80''), (''PORT'', '' a=b '')]))) Map.empty =
    fold set_var [(''PORT'', ''80''), (''PORT'', '' a=b '')] Map.empty"
  by (rule env_file_roundtrip) (auto simp: env_key_def env_value_def env_blank_def)



end
